(* ===== verification/Prelude.thy ===== *)
theory Prelude
  imports Main "HOL-Library.Word"
begin

section \<open>Prelude: the Go runtime as far as the program uses it\<close>

text \<open>
  The program is written in Go. This theory holds what every component shares: panics as
  values of a sum type, the checked primitives that can panic (indexing, integer division),
  64-bit integers, saturating time differences, the run of an operation sequence, and the
  two contracts that the components' state machines satisfy (\<open>go_machine\<close>: an invariant
  that excludes every panic; \<open>go_refinement\<close>: an abstract machine with the same outputs).
\<close>

named_theorems go_defs \<open>definitions of the Go primitives\<close>

subsection \<open>Panics\<close>

text \<open>
  The run-time panics the modelled code can raise. A panic that nobody recovers ends the
  process, so the state after it does not matter: an operation that can panic returns
  \<^typ>\<open>'a + 'b\<close> with the panic on the left.
\<close>

datatype go_panic =
    IndexOutOfRange
  | IntegerDivideByZero
  | MakeSliceLenOutOfRange
  | NilPointerDereference
  | NilFunctionCall
  | SendOnClosedChannel
  | CloseOfClosedChannel
  | FlagRedefined
  | PatternConflict
  | PanicWith string

type_synonym 'a go = "go_panic + 'a"

definition go_bind :: "'a go \<Rightarrow> ('a \<Rightarrow> 'b go) \<Rightarrow> 'b go" where
  "go_bind m f = (case m of Inl p \<Rightarrow> Inl p | Inr x \<Rightarrow> f x)"

lemma go_bind_simps [simp]:
  "go_bind (Inl p) f = Inl p"
  "go_bind (Inr x) f = f x"
  by (simp_all add: go_bind_def)

lemma go_bind_cong [fundef_cong]:
  "m = m' \<Longrightarrow> (\<And>x. m' = Inr x \<Longrightarrow> f x = g x) \<Longrightarrow> go_bind m f = go_bind m' g"
  by (cases m') (simp_all add: go_bind_def)

lemma go_bind_Inr_iff:
  "go_bind m f = Inr y \<longleftrightarrow> (\<exists>x. m = Inr x \<and> f x = Inr y)"
  by (cases m) auto

lemma go_bind_Inl_iff:
  "go_bind m f = Inl p \<longleftrightarrow> m = Inl p \<or> (\<exists>x. m = Inr x \<and> f x = Inl p)"
  by (cases m) auto

lemma go_bind_assoc: "go_bind (go_bind m f) g = go_bind m (\<lambda>x. go_bind (f x) g)"
  by (cases m) auto

lemma go_bind_right_unit [simp]: "go_bind m Inr = m"
  by (cases m) auto

text \<open>A loop over a list whose body can panic, and a counted loop.\<close>

fun go_map :: "('a \<Rightarrow> 'b go) \<Rightarrow> 'a list \<Rightarrow> 'b list go" where
  "go_map f [] = Inr []"
| "go_map f (x # xs) = go_bind (f x) (\<lambda>y. go_bind (go_map f xs) (\<lambda>ys. Inr (y # ys)))"

lemma go_map_Inr:
  "(\<And>x. x \<in> set xs \<Longrightarrow> f x = Inr (g x)) \<Longrightarrow> go_map f xs = Inr (map g xs)"
  by (induction xs) simp_all

fun go_fold :: "('s \<Rightarrow> 'e \<Rightarrow> 's go) \<Rightarrow> 's \<Rightarrow> 'e list \<Rightarrow> 's go" where
  "go_fold f s [] = Inr s"
| "go_fold f s (e # es) = go_bind (f s e) (\<lambda>s'. go_fold f s' es)"

lemma go_fold_snoc: "go_fold f s (es @ [e]) = go_bind (go_fold f s es) (\<lambda>s'. f s' e)"
  by (induction es arbitrary: s) (simp_all add: go_bind_assoc)

lemma go_fold_Inr:
  "(\<And>s e. e \<in> set es \<Longrightarrow> f s e = Inr (g s e)) \<Longrightarrow> go_fold f s es = Inr (foldl g s es)"
  by (induction es arbitrary: s) simp_all

fun go_iter :: "nat \<Rightarrow> ('s \<Rightarrow> 's go) \<Rightarrow> 's \<Rightarrow> 's go" where
  "go_iter 0 f s = Inr s"
| "go_iter (Suc n) f s = go_bind (f s) (go_iter n f)"

lemma go_iter_inv:
  assumes step: "\<And>s. I s \<Longrightarrow> \<exists>s'. f s = Inr s' \<and> I s'"
  shows "I s \<Longrightarrow> \<exists>s'. go_iter n f s = Inr s' \<and> I s'"
proof (induction n arbitrary: s)
  case (Suc n)
  from step [OF Suc.prems] obtain s' where "f s = Inr s'" "I s'" by blast
  with Suc.IH [of s'] show ?case by simp
qed simp

subsection \<open>Checked primitives\<close>

definition go_index :: "'a list \<Rightarrow> int \<Rightarrow> 'a go" where
  [go_defs]: "go_index xs i =
     (if 0 \<le> i \<and> i < int (length xs) then Inr (xs ! nat i) else Inl IndexOutOfRange)"

definition go_store :: "'a list \<Rightarrow> int \<Rightarrow> 'a \<Rightarrow> 'a list go" where
  [go_defs]: "go_store xs i v =
     (if 0 \<le> i \<and> i < int (length xs) then Inr (xs[nat i := v]) else Inl IndexOutOfRange)"

text \<open>Go's \<open>/\<close> and \<open>%\<close> truncate towards zero and panic on a zero divisor.\<close>

definition go_quot :: "int \<Rightarrow> int \<Rightarrow> int go" where
  [go_defs]: "go_quot a b =
     (if b = 0 then Inl IntegerDivideByZero else Inr (sgn a * sgn b * (\<bar>a\<bar> div \<bar>b\<bar>)))"

definition go_rem :: "int \<Rightarrow> int \<Rightarrow> int go" where
  [go_defs]: "go_rem a b =
     (if b = 0 then Inl IntegerDivideByZero else Inr (sgn a * (\<bar>a\<bar> mod \<bar>b\<bar>)))"

text \<open>\<open>make([]T, n)\<close>: \<open>n\<close> zero values, a panic for a negative length.\<close>

definition go_make :: "'a \<Rightarrow> int \<Rightarrow> 'a list go" where
  [go_defs]: "go_make z n = (if n < 0 then Inl MakeSliceLenOutOfRange else Inr (replicate (nat n) z))"

text \<open>Dereferencing a pointer: \<open>None\<close> is \<open>nil\<close>.\<close>

definition go_deref :: "'a option \<Rightarrow> 'a go" where
  [go_defs]: "go_deref p = (case p of None \<Rightarrow> Inl NilPointerDereference | Some x \<Rightarrow> Inr x)"

lemma go_deref_simps [simp]:
  "go_deref None = Inl NilPointerDereference"
  "go_deref (Some x) = Inr x"
  by (simp_all add: go_deref_def)

lemma go_quot_pos: "0 \<le> a \<Longrightarrow> 0 < b \<Longrightarrow> go_quot a b = Inr (a div b)"
  by (cases "a = 0") (simp_all add: go_quot_def)

lemma go_rem_pos [simp]: "0 \<le> a \<Longrightarrow> 0 < b \<Longrightarrow> go_rem a b = Inr (a mod b)"
  by (cases "a = 0") (simp_all add: go_rem_def)

lemma go_rem_zero [simp]: "go_rem a 0 = Inl IntegerDivideByZero"
  by (simp add: go_rem_def)

lemma go_index_in [simp]:
  "0 \<le> i \<Longrightarrow> i < int (length xs) \<Longrightarrow> go_index xs i = Inr (xs ! nat i)"
  by (simp add: go_index_def)

lemma go_store_in [simp]:
  "0 \<le> i \<Longrightarrow> i < int (length xs) \<Longrightarrow> go_store xs i v = Inr (xs[nat i := v])"
  by (simp add: go_store_def)

subsection \<open>64-bit integers and durations\<close>

text \<open>\<open>i64\<close> wraps an integer into the range of \<open>int64\<close> (and of \<open>int\<close> on a 64-bit target).\<close>

definition i64 :: "int \<Rightarrow> int" where
  "i64 x = (x + 2 ^ 63) mod 2 ^ 64 - 2 ^ 63"

lemma i64_range: "- (2 ^ 63) \<le> i64 x" "i64 x < 2 ^ 63"
  unfolding i64_def using pos_mod_bound [of "2 ^ 64" "x + 2 ^ 63"] by simp_all

lemma i64_id: "- (2 ^ 63) \<le> x \<Longrightarrow> x < 2 ^ 63 \<Longrightarrow> i64 x = x"
  by (simp add: i64_def)

text \<open>
  \<open>time.Time\<close> is an instant in nanoseconds since the Unix epoch; \<open>Sub\<close> saturates to the
  range of \<open>time.Duration\<close> (an \<open>int64\<close> of nanoseconds). \<open>time.Time{}\<close> is 1 January of year 1.
\<close>

type_synonym instant = int
type_synonym duration = int

definition zero_time :: instant where
  "zero_time = - 62135596800 * 10 ^ 9"

definition time_Sub :: "instant \<Rightarrow> instant \<Rightarrow> duration" where
  "time_Sub t u = max (- (2 ^ 63)) (min (2 ^ 63 - 1) (t - u))"

definition time_Second :: duration where
  "time_Second = 10 ^ 9"

lemma time_Sub_exact: "\<bar>t - u\<bar> < 2 ^ 63 \<Longrightarrow> time_Sub t u = t - u"
  by (auto simp: time_Sub_def)

lemma time_Sub_mono: "t \<le> t' \<Longrightarrow> time_Sub t u \<le> time_Sub t' u"
  by (auto simp: time_Sub_def)

lemma time_Sub_self [simp]: "time_Sub t t = 0"
  by (simp add: time_Sub_def)

lemma time_Sub_nonneg_iff: "0 \<le> time_Sub t u \<longleftrightarrow> u \<le> t"
  by (auto simp: time_Sub_def)

lemma time_Sub_ge_iff: "d < 2 ^ 63 \<Longrightarrow> - (2 ^ 63) < d \<Longrightarrow> d \<le> time_Sub t u \<longleftrightarrow> d \<le> t - u"
  by (auto simp: time_Sub_def)

subsection \<open>Runs of operation sequences\<close>

text \<open>
  A component is a step function: state and operation to new state and output, or a panic.
  \<open>go_run\<close> executes a list of operations and collects the outputs; it stops at a panic.
\<close>

fun go_run :: "('s \<Rightarrow> 'e \<Rightarrow> ('s \<times> 'o) go) \<Rightarrow> 's \<Rightarrow> 'e list \<Rightarrow> ('s \<times> 'o list) go" where
  "go_run f s [] = Inr (s, [])"
| "go_run f s (e # es) =
     go_bind (f s e) (\<lambda>(s', x). go_bind (go_run f s' es) (\<lambda>(s'', xs). Inr (s'', x # xs)))"

lemma go_run_append:
  "go_run f s (es @ es') =
     go_bind (go_run f s es)
       (\<lambda>(s', xs). go_bind (go_run f s' es') (\<lambda>(s'', ys). Inr (s'', xs @ ys)))"
  by (induction es arbitrary: s)
     (simp_all add: go_bind_assoc case_prod_beta go_bind_def split: sum.splits)

lemma go_run_ConsE:
  assumes "go_run f s (e # es) = Inr (t, ys)"
  obtains s' x xs where "f s e = Inr (s', x)" "go_run f s' es = Inr (t, xs)" "ys = x # xs"
  using assms by (auto simp: go_bind_Inr_iff)

lemma go_run_length: "go_run f s es = Inr (t, ys) \<Longrightarrow> length ys = length es"
  by (induction es arbitrary: s t ys) (auto simp: go_bind_Inr_iff)

text \<open>The pure run of an abstract machine.\<close>

fun pure_run :: "('s \<Rightarrow> 'e \<Rightarrow> 's \<times> 'o) \<Rightarrow> 's \<Rightarrow> 'e list \<Rightarrow> 's \<times> 'o list" where
  "pure_run f s [] = (s, [])"
| "pure_run f s (e # es) =
     (let (s', x) = f s e; (s'', xs) = pure_run f s' es in (s'', x # xs))"

lemma pure_run_snoc:
  "pure_run f s (es @ [e]) =
     (let (s', xs) = pure_run f s es; (s'', x) = f s' e in (s'', xs @ [x]))"
  by (induction es arbitrary: s) (simp_all add: Let_def case_prod_beta)

text \<open>
  Contract of a state machine that cannot panic: the invariant is kept by every operation
  that the guard admits, and such an operation returns.
\<close>

locale go_machine =
  fixes step :: "'s \<Rightarrow> 'e \<Rightarrow> ('s \<times> 'o) go"
    and inv :: "'s \<Rightarrow> bool"
    and ok :: "'e \<Rightarrow> bool"
  assumes inv_step: "inv s \<Longrightarrow> ok e \<Longrightarrow> \<exists>s' x. step s e = Inr (s', x) \<and> inv s'"
begin

lemma run_total:
  "inv s \<Longrightarrow> list_all ok es \<Longrightarrow> \<exists>s' xs. go_run step s es = Inr (s', xs) \<and> inv s'"
proof (induction es arbitrary: s)
  case (Cons e es)
  then obtain s' x where step: "step s e = Inr (s', x)" "inv s'"
    using inv_step by fastforce
  with Cons obtain s'' xs where "go_run step s' es = Inr (s'', xs)" "inv s''"
    by fastforce
  with step show ?case by simp
qed simp

lemma run_inv: "inv s \<Longrightarrow> list_all ok es \<Longrightarrow> go_run step s es = Inr (s', xs) \<Longrightarrow> inv s'"
  using run_total [of s es] by auto

end

text \<open>
  Contract of a refinement: the abstraction of the state and the outputs are those of an
  abstract machine. A sequence of operations then has the abstract machine's outputs.
\<close>

locale go_refinement = go_machine step inv ok
  for step :: "'s \<Rightarrow> 'e \<Rightarrow> ('s \<times> 'o) go"
    and inv :: "'s \<Rightarrow> bool"
    and ok :: "'e \<Rightarrow> bool" +
  fixes abs :: "'s \<Rightarrow> 'a"
    and astep :: "'a \<Rightarrow> 'e \<Rightarrow> 'a \<times> 'o"
  assumes abs_step: "inv s \<Longrightarrow> ok e \<Longrightarrow> step s e = Inr (s', x) \<Longrightarrow> astep (abs s) e = (abs s', x)"
begin

lemma run_refines:
  "inv s \<Longrightarrow> list_all ok es \<Longrightarrow>
     \<exists>s' xs. go_run step s es = Inr (s', xs) \<and> inv s' \<and> pure_run astep (abs s) es = (abs s', xs)"
proof (induction es arbitrary: s)
  case (Cons e es)
  then obtain s' x where step: "step s e = Inr (s', x)" "inv s'"
    using inv_step by fastforce
  moreover from Cons step obtain s'' xs where
    "go_run step s' es = Inr (s'', xs)" "inv s''" "pure_run astep (abs s') es = (abs s'', xs)"
    by fastforce
  moreover have "astep (abs s) e = (abs s', x)"
    using abs_step Cons.prems step by simp
  ultimately show ?case by simp
qed simp

end

subsection \<open>Work\<close>

text \<open>The work of a list of agents falls when the work of one of them does.\<close>

lemma work_update_less:
  fixes f :: "'a \<Rightarrow> nat"
  shows "t < length xs \<Longrightarrow> f y < f (xs ! t) \<Longrightarrow> sum_list (map f (xs[t := y])) < sum_list (map f xs)"
proof (induction xs arbitrary: t)
  case (Cons x xs)
  then show ?case by (cases t) auto
qed simp

text \<open>How many elements have a property after one of them is replaced.\<close>

lemma length_filter_update:
  "t < length xs \<Longrightarrow> length (filter P (xs[t := y])) + (if P (xs ! t) then 1 else 0)
     = length (filter P xs) + (if P y then 1 else 0)"
proof (induction xs arbitrary: t)
  case (Cons x xs)
  then show ?case by (cases t) auto
qed simp

text \<open>A relation whose steps reduce the work takes at most that many.\<close>

lemma steps_le_work:
  fixes work :: "'s \<Rightarrow> nat"
  assumes less: "\<And>s s'. r s s' \<Longrightarrow> work s' < work s"
  shows "(r ^^ n) s s' \<Longrightarrow> n + work s' \<le> work s"
proof (induction n arbitrary: s')
  case (Suc n)
  then obtain t where "(r ^^ n) s t" "r t s'" by auto
  with Suc.IH [of t] less [of t s'] show ?case by simp
qed simp

subsection \<open>Maps\<close>

text \<open>
  Go iterates over a map in an unspecified order. A model of such a loop takes an
  enumeration of the map's keys as an argument; every finite map has one.
\<close>

definition enumerates :: "'k list \<Rightarrow> ('k \<rightharpoonup> 'v) \<Rightarrow> bool" where
  "enumerates ks m \<longleftrightarrow> distinct ks \<and> set ks = dom m"

lemma enumerates_ex: "finite (dom m) \<Longrightarrow> \<exists>ks. enumerates ks m"
  using finite_distinct_list [of "dom m"] by (auto simp: enumerates_def)

lemma enumerates_empty [simp]: "enumerates ks Map.empty \<longleftrightarrow> ks = []"
  by (auto simp: enumerates_def)

end
