(* ===== verification/Bounded_Fifo.thy ===== *)
theory Bounded_Fifo
  imports Prelude
begin

section \<open>The contract of a bounded first-in first-out queue\<close>

text \<open>
  The repository has two ring buffers (\<open>pkg/datastruct/queue/circularqueue.go\<close>, used by the
  breaker's window, and \<open>pkg/datastruct/queue/ai_implementation/circular_queue.go\<close>). Both
  promise the same: a queue of at most \<open>cap\<close> values, values leave in the order they came,
  a full queue rejects, an empty one reports it, and no operation panics. The locale states
  that contract; the run of any operation sequence then has the outputs of the list model.
\<close>

datatype 'a qop = QEnqueue 'a | QDequeue | QSize

datatype 'a qout = QAccepted bool | QValue "'a option" | QCount int

text \<open>The abstract machine: capacity and list of values, oldest first.\<close>

fun spec_step :: "nat \<times> 'a list \<Rightarrow> 'a qop \<Rightarrow> (nat \<times> 'a list) \<times> 'a qout" where
  "spec_step (c, xs) (QEnqueue x) =
     (if length xs < c then ((c, xs @ [x]), QAccepted True) else ((c, xs), QAccepted False))"
| "spec_step (c, xs) QDequeue =
     (case xs of [] \<Rightarrow> ((c, xs), QValue None) | y # ys \<Rightarrow> ((c, ys), QValue (Some y)))"
| "spec_step (c, xs) QSize = ((c, xs), QCount (int (length xs)))"

definition spec_run :: "nat \<Rightarrow> 'a qop list \<Rightarrow> 'a qout list" where
  "spec_run c es = snd (pure_run spec_step (c, []) es)"

text \<open>A concrete queue as a step function over the same operations.\<close>

fun fifo_step ::
  "('q \<Rightarrow> 'a \<Rightarrow> ('q \<times> bool) go) \<Rightarrow> ('q \<Rightarrow> ('q \<times> 'a option) go) \<Rightarrow> ('q \<Rightarrow> int)
   \<Rightarrow> 'q \<Rightarrow> 'a qop \<Rightarrow> ('q \<times> 'a qout) go" where
  "fifo_step enq deq sz q (QEnqueue x) = go_bind (enq q x) (\<lambda>(q', b). Inr (q', QAccepted b))"
| "fifo_step enq deq sz q QDequeue = go_bind (deq q) (\<lambda>(q', v). Inr (q', QValue v))"
| "fifo_step enq deq sz q QSize = Inr (q, QCount (sz q))"

locale bounded_fifo =
  fixes enq :: "'q \<Rightarrow> 'a \<Rightarrow> ('q \<times> bool) go"
    and deq :: "'q \<Rightarrow> ('q \<times> 'a option) go"
    and qsize :: "'q \<Rightarrow> int"
    and contents :: "'q \<Rightarrow> 'a list"
    and cap :: "'q \<Rightarrow> nat"
    and inv :: "'q \<Rightarrow> bool"
  assumes enq_room: "inv q \<Longrightarrow> length (contents q) < cap q \<Longrightarrow>
      \<exists>q'. enq q x = Inr (q', True) \<and> inv q' \<and> contents q' = contents q @ [x] \<and> cap q' = cap q"
    and enq_full: "inv q \<Longrightarrow> length (contents q) = cap q \<Longrightarrow> enq q x = Inr (q, False)"
    and deq_empty: "inv q \<Longrightarrow> contents q = [] \<Longrightarrow> deq q = Inr (q, None)"
    and deq_cons: "inv q \<Longrightarrow> contents q = x # xs \<Longrightarrow>
      \<exists>q'. deq q = Inr (q', Some x) \<and> inv q' \<and> contents q' = xs \<and> cap q' = cap q"
    and qsize_contents: "inv q \<Longrightarrow> qsize q = int (length (contents q))"
    and contents_bound: "inv q \<Longrightarrow> length (contents q) \<le> cap q"
begin

lemma enq_cases:
  assumes "inv q"
  obtains (room) q' where "length (contents q) < cap q" "enq q x = Inr (q', True)" "inv q'"
      "contents q' = contents q @ [x]" "cap q' = cap q"
    | (full) "length (contents q) = cap q" "enq q x = Inr (q, False)"
  using assms contents_bound [of q] enq_room [of q x] enq_full [of q x]
  by (cases "length (contents q) < cap q") auto

lemma deq_cases:
  assumes "inv q"
  obtains (empty) "contents q = []" "deq q = Inr (q, None)"
    | (cons) x xs q' where "contents q = x # xs" "deq q = Inr (q', Some x)" "inv q'"
      "contents q' = xs" "cap q' = cap q"
  using assms deq_empty [of q] deq_cons [of q] by (cases "contents q") auto

text \<open>A queue never holds more than its capacity, however it is used, and never panics.\<close>

lemma fifo_step_total:
  assumes inv: "inv q"
  shows "\<exists>q' y. fifo_step enq deq qsize q e = Inr (q', y) \<and> inv q'"
proof (cases e)
  case (QEnqueue x)
  from inv show ?thesis by (rule enq_cases [where x = x]) (simp_all add: QEnqueue inv)
next
  case QDequeue
  from inv show ?thesis by (rule deq_cases) (simp_all add: QDequeue inv)
next
  case QSize
  with inv show ?thesis by simp
qed

lemma fifo_step_spec:
  assumes "inv q" and "fifo_step enq deq qsize q e = Inr (q', y)"
  shows "spec_step (cap q, contents q) e = ((cap q', contents q'), y)"
proof (cases e)
  case (QEnqueue x)
  from \<open>inv q\<close> show ?thesis
    by (rule enq_cases [where x = x]) (use assms(2) QEnqueue in auto)
next
  case QDequeue
  from \<open>inv q\<close> show ?thesis by (rule deq_cases) (use assms(2) QDequeue in auto)
next
  case QSize
  with assms show ?thesis by (auto simp: qsize_contents)
qed

end

sublocale bounded_fifo \<subseteq> runs: go_refinement "fifo_step enq deq qsize" inv "\<lambda>_. True"
  "\<lambda>q. (cap q, contents q)" spec_step
  by unfold_locales (use fifo_step_total fifo_step_spec in auto)

context bounded_fifo
begin

lemma run_spec:
  assumes "inv q" and "contents q = []"
  shows "\<exists>q'. go_run (fifo_step enq deq qsize) q es = Inr (q', spec_run (cap q) es)
    \<and> inv q' \<and> length (contents q') \<le> cap q'"
proof -
  from runs.run_refines [OF assms(1), of es] assms(2) obtain q' ys
    where "go_run (fifo_step enq deq qsize) q es = Inr (q', ys)" "inv q'"
      "pure_run spec_step (cap q, []) es = ((cap q', contents q'), ys)"
    by (auto simp: list_all_def)
  then show ?thesis by (auto simp: spec_run_def contents_bound)
qed

end

end
