(* ===== verification/Circular_Queue.thy ===== *)
theory Circular_Queue
  imports Bounded_Fifo
begin

section \<open>The ring buffer of the breaker's window\<close>

text \<open>
  \<open>pkg/datastruct/queue/circularqueue.go\<close>. The buffer has one slot more than the queue's
  capacity: \<open>front\<close> is the slot before the oldest value, \<open>rear\<close> the slot of the newest, and
  \<open>front = rear\<close> means empty. Every \<open>%\<close> and every index is the checked primitive of the
  prelude, so a division by zero or an index out of range is a value of the model; the
  lemmas show that a queue made with capacity at least 0 never reaches one. Indices are
  mathematical integers: all of them stay below twice the buffer's length.
\<close>

record 'a CircularQueue =
  elements :: "'a list"
  front :: int
  rear :: int
  capacity :: int

definition NewCircularQueue :: "'a \<Rightarrow> int \<Rightarrow> 'a CircularQueue go" where
  "NewCircularQueue zero cap =
     go_bind (go_make zero (i64 (cap + 1)))
       (\<lambda>xs. Inr \<lparr>elements = xs, front = 0, rear = 0, capacity = i64 (cap + 1)\<rparr>)"

definition cq_Size :: "'a CircularQueue \<Rightarrow> int" where
  "cq_Size cq = (if rear cq \<ge> front cq then rear cq - front cq
                 else capacity cq - (front cq - rear cq))"

definition cq_Empty :: "'a CircularQueue \<Rightarrow> bool" where
  "cq_Empty cq \<longleftrightarrow> front cq = rear cq"

definition cq_Full :: "'a CircularQueue \<Rightarrow> bool go" where
  "cq_Full cq = go_bind (go_rem (rear cq + 1) (capacity cq)) (\<lambda>i. Inr (i = front cq))"

definition cq_Enqueue :: "'a CircularQueue \<Rightarrow> 'a \<Rightarrow> ('a CircularQueue \<times> bool) go" where
  "cq_Enqueue cq value =
     go_bind (go_rem (rear cq + 1) (capacity cq)) (\<lambda>nextIndex.
     go_bind (cq_Full cq) (\<lambda>full.
       if full then Inr (cq, False)
       else go_bind (go_store (elements cq) nextIndex value)
         (\<lambda>xs. Inr (cq\<lparr>elements := xs, rear := nextIndex\<rparr>, True))))"

definition cq_Dequeue :: "'a \<Rightarrow> 'a CircularQueue \<Rightarrow> ('a CircularQueue \<times> 'a \<times> bool) go" where
  "cq_Dequeue zero cq =
     (if cq_Empty cq then Inr (cq, zero, False)
      else go_bind (go_rem (front cq + 1) (capacity cq)) (\<lambda>nextIndex.
           go_bind (go_index (elements cq) nextIndex)
             (\<lambda>value. Inr (cq\<lparr>front := nextIndex\<rparr>, value, True))))"

definition cq_List :: "'a CircularQueue \<Rightarrow> 'a list go" where
  "cq_List cq =
     (if cq_Size cq < 0 then Inl MakeSliceLenOutOfRange
      else go_map (\<lambda>i. go_bind (go_rem (front cq + 1 + int i) (capacity cq))
                               (go_index (elements cq)))
             [0..<nat (cq_Size cq)])"

definition cq_Reset :: "'a CircularQueue \<Rightarrow> 'a CircularQueue" where
  "cq_Reset cq = cq\<lparr>front := 0, rear := 0\<rparr>"

subsection \<open>Invariant and abstraction\<close>

definition cq_inv :: "'a CircularQueue \<Rightarrow> bool" where
  "cq_inv cq \<longleftrightarrow> 1 \<le> capacity cq \<and> int (length (elements cq)) = capacity cq
     \<and> 0 \<le> front cq \<and> front cq < capacity cq \<and> 0 \<le> rear cq \<and> rear cq < capacity cq"

definition cq_slot :: "'a CircularQueue \<Rightarrow> nat \<Rightarrow> 'a" where
  "cq_slot cq i = elements cq ! nat ((front cq + 1 + int i) mod capacity cq)"

definition cq_contents :: "'a CircularQueue \<Rightarrow> 'a list" where
  "cq_contents cq = map (cq_slot cq) [0..<nat (cq_Size cq)]"

definition cq_cap :: "'a CircularQueue \<Rightarrow> nat" where
  "cq_cap cq = nat (capacity cq - 1)"

lemma cq_Size_mod:
  assumes "cq_inv cq"
  shows "cq_Size cq = (rear cq - front cq) mod capacity cq"
proof (cases "rear cq \<ge> front cq")
  case True
  with assms show ?thesis by (simp add: cq_inv_def cq_Size_def)
next
  case False
  then have "(rear cq - front cq) mod capacity cq = (rear cq - front cq + capacity cq) mod capacity cq"
    by simp
  also have "\<dots> = rear cq - front cq + capacity cq"
    using False assms by (intro mod_pos_pos_trivial) (auto simp: cq_inv_def)
  finally show ?thesis using False by (simp add: cq_Size_def)
qed

lemma cq_Size_bounds:
  assumes "cq_inv cq"
  shows "0 \<le> cq_Size cq" "cq_Size cq < capacity cq"
  using assms by (simp_all add: cq_Size_mod) (simp_all add: cq_inv_def)

lemma length_cq_contents [simp]: "length (cq_contents cq) = nat (cq_Size cq)"
  by (simp add: cq_contents_def)

lemma cq_Empty_iff: "cq_inv cq \<Longrightarrow> cq_Empty cq \<longleftrightarrow> cq_Size cq = 0"
  by (auto simp: cq_Empty_def cq_Size_def cq_inv_def)

lemma cq_succ_mod:
  assumes "cq_inv cq"
  shows "((rear cq + 1) mod capacity cq - front cq) mod capacity cq = (cq_Size cq + 1) mod capacity cq"
proof -
  have "((rear cq + 1) mod capacity cq - front cq) mod capacity cq
      = (rear cq - front cq + 1) mod capacity cq"
    by (simp add: mod_simps algebra_simps)
  also have "\<dots> = (cq_Size cq + 1) mod capacity cq"
    using assms by (simp add: cq_Size_mod mod_simps)
  finally show ?thesis .
qed

lemma cq_Full_eq:
  assumes "cq_inv cq"
  shows "cq_Full cq = Inr (cq_Size cq = capacity cq - 1)"
proof -
  let ?c = "capacity cq"
  have rem: "go_rem (rear cq + 1) ?c = Inr ((rear cq + 1) mod ?c)"
    using assms by (simp add: cq_inv_def)
  have "(rear cq + 1) mod ?c = front cq \<longleftrightarrow> ((rear cq + 1) mod ?c - front cq) mod ?c = 0"
    using assms by (auto simp: cq_inv_def mod_eq_dvd_iff [symmetric] mod_eq_0_iff_dvd)
  also have "\<dots> \<longleftrightarrow> (cq_Size cq + 1) mod ?c = 0"
    using assms by (simp add: cq_succ_mod)
  also have "\<dots> \<longleftrightarrow> cq_Size cq = ?c - 1"
  proof (cases "cq_Size cq = ?c - 1")
    case False
    with cq_Size_bounds [OF assms] have "(cq_Size cq + 1) mod ?c = cq_Size cq + 1"
      by (intro mod_pos_pos_trivial) auto
    with cq_Size_bounds [OF assms] False show ?thesis by simp
  qed simp
  finally show ?thesis by (simp add: cq_Full_def rem)
qed

lemma cq_List_contents: "cq_inv cq \<Longrightarrow> cq_List cq = Inr (cq_contents cq)"
  using cq_Size_bounds [of cq]
  by (auto simp: cq_List_def cq_contents_def cq_slot_def cq_inv_def intro!: go_map_Inr)

subsection \<open>The operations on the abstraction\<close>

lemma NewCircularQueue_inv:
  assumes "0 \<le> cap" and "cap < 2 ^ 63 - 1"
  shows "\<exists>cq. NewCircularQueue zero cap = Inr cq \<and> cq_inv cq \<and> cq_contents cq = [] \<and> cq_cap cq = nat cap"
proof -
  have "i64 (cap + 1) = cap + 1" using assms by (intro i64_id) auto
  with assms show ?thesis
    by (simp add: NewCircularQueue_def go_make_def cq_inv_def cq_contents_def cq_cap_def cq_Size_def)
qed

lemma cq_Enqueue_room:
  assumes inv: "cq_inv cq" and room: "length (cq_contents cq) < cq_cap cq"
  shows "\<exists>cq'. cq_Enqueue cq x = Inr (cq', True) \<and> cq_inv cq' \<and>
    cq_contents cq' = cq_contents cq @ [x] \<and> cq_cap cq' = cq_cap cq"
proof -
  let ?c = "capacity cq" and ?n = "nat (cq_Size cq)" and ?r = "(rear cq + 1) mod capacity cq"
  let ?cq' = "cq\<lparr>elements := (elements cq)[nat ?r := x], rear := ?r\<rparr>"
  note bnd = cq_Size_bounds [OF inv]
  from inv have c: "0 < ?c" "int (length (elements cq)) = ?c" "0 \<le> rear cq" "0 \<le> front cq"
    by (auto simp: cq_inv_def)
  then have r: "0 \<le> ?r" "?r < ?c" by simp_all
  have small: "cq_Size cq + 1 < ?c" using room bnd by (auto simp: cq_cap_def)
  have enq: "cq_Enqueue cq x = Inr (?cq', True)"
    using c r small by (simp add: cq_Enqueue_def cq_Full_eq [OF inv])
  have inv': "cq_inv ?cq'"
    using inv r by (simp add: cq_inv_def)
  have sz: "cq_Size ?cq' = cq_Size cq + 1"
    using cq_Size_mod [OF inv'] cq_succ_mod [OF inv] small bnd by simp
  have slot: "cq_slot ?cq' i = (if i = ?n then x else cq_slot cq i)" if "i \<le> ?n" for i
  proof -
    have rn: "(front cq + 1 + int ?n) mod ?c = ?r"
    proof -
      have "(front cq + 1 + int ?n) mod ?c = (front cq + 1 + (rear cq - front cq)) mod ?c"
        using bnd by (simp add: cq_Size_mod [OF inv] mod_simps)
      then show ?thesis by (simp add: algebra_simps)
    qed
    have iff: "(front cq + 1 + int i) mod ?c = ?r \<longleftrightarrow> i = ?n"
    proof
      assume "(front cq + 1 + int i) mod ?c = ?r"
      then have "?c dvd (front cq + 1 + int ?n) - (front cq + 1 + int i)"
        unfolding rn [symmetric] by (intro mod_eq_dvd_iff [THEN iffD1]) simp
      then have "?c dvd int ?n - int i" by simp
      moreover have "0 \<le> int ?n - int i" "int ?n - int i < ?c" using that bnd by auto
      ultimately have "int ?n = int i"
        using zdvd_not_zless [of "int ?n - int i" ?c] by linarith
      then show "i = ?n" by (simp only: of_nat_eq_iff)
    qed (use rn in simp)
    define j where "j = (front cq + 1 + int i) mod ?c"
    have j: "0 \<le> j" "(j = ?r) = (i = ?n)" unfolding j_def using iff c by simp_all
    have rj: "(nat ?r = nat j) = (i = ?n)"
      using j r by (metis eq_nat_nat_iff)
    have "cq_slot ?cq' i = (elements cq)[nat ?r := x] ! nat j"
      by (simp add: cq_slot_def j_def)
    also have "\<dots> = (if nat ?r = nat j then x else elements cq ! nat j)"
      by (rule nth_list_update) (use c r in \<open>simp add: nat_less_iff\<close>)
    also have "\<dots> = (if i = ?n then x else cq_slot cq i)"
      unfolding rj by (simp only: cq_slot_def j_def)
    finally show ?thesis .
  qed
  have "cq_contents ?cq' = cq_contents cq @ [x]"
    using bnd slot by (auto simp: cq_contents_def sz nat_add_distrib intro!: nth_equalityI
        simp: nth_append)
  with enq inv' show ?thesis by (auto simp: cq_cap_def)
qed

lemma cq_Enqueue_full:
  assumes inv: "cq_inv cq" and full: "length (cq_contents cq) = cq_cap cq"
  shows "cq_Enqueue cq x = Inr (cq, False)"
proof -
  from full cq_Size_bounds [OF inv] inv have "cq_Size cq = capacity cq - 1"
    by (auto simp: cq_cap_def cq_inv_def)
  with inv show ?thesis by (simp add: cq_Enqueue_def cq_Full_eq) (simp add: cq_inv_def)
qed

lemma cq_Dequeue_cons:
  assumes inv: "cq_inv cq" and ne: "cq_contents cq = x # xs"
  shows "\<exists>cq'. cq_Dequeue zero cq = Inr (cq', x, True) \<and> cq_inv cq' \<and>
    cq_contents cq' = xs \<and> cq_cap cq' = cq_cap cq"
proof -
  let ?c = "capacity cq" and ?f = "(front cq + 1) mod capacity cq"
  let ?cq' = "cq\<lparr>front := ?f\<rparr>"
  note bnd = cq_Size_bounds [OF inv]
  have len: "nat (cq_Size cq) = Suc (length xs)" using ne length_cq_contents [of cq] by simp
  then have pos: "0 < cq_Size cq" by simp
  from inv have c: "0 < ?c" "int (length (elements cq)) = ?c" "0 \<le> front cq"
    by (auto simp: cq_inv_def)
  then have f: "0 \<le> ?f" "?f < ?c" by simp_all
  have x: "elements cq ! nat ?f = x"
    using ne len by (simp add: cq_contents_def cq_slot_def upt_conv_Cons del: upt_Suc)
  have deq: "cq_Dequeue zero cq = Inr (?cq', x, True)"
    using pos c f x cq_Empty_iff [OF inv] by (simp add: cq_Dequeue_def)
  have inv': "cq_inv ?cq'" using inv f by (simp add: cq_inv_def)
  have "cq_Size ?cq' = (cq_Size cq - 1) mod ?c"
    using cq_Size_mod [OF inv'] cq_Size_mod [OF inv] by (simp add: mod_simps algebra_simps)
  then have sz: "cq_Size ?cq' = cq_Size cq - 1" using pos bnd by simp
  have slot: "cq_slot ?cq' i = cq_slot cq (Suc i)" for i
  proof -
    have "(?f + (1 + int i)) mod ?c = (front cq + 1 + (1 + int i)) mod ?c"
      by (rule mod_add_left_eq)
    then have "(?f + 1 + int i) mod ?c = (front cq + 1 + int (Suc i)) mod ?c"
      by (simp add: algebra_simps)
    then show ?thesis by (simp add: cq_slot_def)
  qed
  have "cq_contents ?cq' = map (\<lambda>i. cq_slot cq (Suc i)) [0..<length xs]"
    using len by (simp add: cq_contents_def sz slot nat_diff_distrib')
  also have "\<dots> = tl (cq_contents cq)"
    using len by (simp add: cq_contents_def map_Suc_upt [symmetric] upt_conv_Cons o_def del: upt_Suc)
  finally have "cq_contents ?cq' = xs" using ne by simp
  with deq inv' show ?thesis by (auto simp: cq_cap_def)
qed

lemma cq_Dequeue_empty: "cq_inv cq \<Longrightarrow> cq_contents cq = [] \<Longrightarrow> cq_Dequeue zero cq = Inr (cq, zero, False)"
  using cq_Size_bounds [of cq] by (auto simp: cq_Dequeue_def cq_Empty_iff cq_contents_def)

lemma cq_Reset_contents:
  assumes "cq_inv cq"
  shows "cq_inv (cq_Reset cq)" "cq_contents (cq_Reset cq) = []" "cq_cap (cq_Reset cq) = cq_cap cq"
  using assms by (auto simp: cq_inv_def cq_Reset_def cq_contents_def cq_Size_def cq_cap_def)

subsection \<open>The queue keeps the contract\<close>

text \<open>\<open>Dequeue\<close> reports emptiness by its second result; the zero value it then returns is dropped.\<close>

definition cq_deq :: "'a \<Rightarrow> 'a CircularQueue \<Rightarrow> ('a CircularQueue \<times> 'a option) go" where
  "cq_deq zero cq = go_bind (cq_Dequeue zero cq) (\<lambda>(cq', v, ok). Inr (cq', if ok then Some v else None))"

interpretation cq: bounded_fifo cq_Enqueue "cq_deq zero" cq_Size cq_contents cq_cap cq_inv
  for zero
proof unfold_locales
  fix q :: "'a CircularQueue" and x xs
  assume inv: "cq_inv q"
  show "cq_contents q = x # xs \<Longrightarrow> \<exists>q'. cq_deq zero q = Inr (q', Some x) \<and> cq_inv q' \<and>
      cq_contents q' = xs \<and> cq_cap q' = cq_cap q"
    using cq_Dequeue_cons [OF inv, of x xs zero] by (auto simp: cq_deq_def)
  show "cq_contents q = [] \<Longrightarrow> cq_deq zero q = Inr (q, None)"
    using cq_Dequeue_empty [OF inv, of zero] by (simp add: cq_deq_def)
  show "cq_Size q = int (length (cq_contents q))" "length (cq_contents q) \<le> cq_cap q"
    using cq_Size_bounds [OF inv] by (auto simp: cq_cap_def)
qed (use cq_Enqueue_room cq_Enqueue_full in auto)

end
