(* ===== verification/Counter.thy ===== *)
theory Counter
  imports Circular_Queue
begin

section \<open>The window counter of the breaker\<close>

text \<open>
  \<open>internal/cli/breaker/counter.go\<close>. A counter holds the statistics of the current time
  slice and a ring buffer of the finished slices. The code's counts are Go \<open>int\<close>s that wrap;
  they are 64-bit words here. The buffer holds pointers: \<open>None\<close> is \<open>nil\<close> (the zero value
  \<open>make\<close> fills it with) and \<open>Some u\<close> a unit that is never written again once it is enqueued,
  because \<open>Flush\<close> replaces \<open>current\<close> by a fresh unit. Each method holds the counter's mutex
  for its whole body, so a method is one function.
\<close>

datatype Metric = SUCCESS | BUSINESS_FAILURE | NETWORK_FAILURE | TIMEOUT

record StatisticalUnit =
  Total :: "64 word"
  Success :: "64 word"
  Timeout :: "64 word"
  BusinessFailure :: "64 word"
  NetworkFailure :: "64 word"

definition zero_unit :: StatisticalUnit where
  "zero_unit = \<lparr>Total = 0, Success = 0, Timeout = 0, BusinessFailure = 0, NetworkFailure = 0\<rparr>"

record counter =
  current :: StatisticalUnit
  units :: "StatisticalUnit option CircularQueue"

definition NewCounter :: "int \<Rightarrow> counter go" where
  "NewCounter cap = go_bind (NewCircularQueue None cap) (\<lambda>q. Inr \<lparr>current = zero_unit, units = q\<rparr>)"

definition counter_Reset :: "counter \<Rightarrow> counter" where
  "counter_Reset c = c\<lparr>current := zero_unit, units := cq_Reset (units c)\<rparr>"

definition counter_Flush :: "counter \<Rightarrow> counter go" where
  "counter_Flush c = go_bind (cq_Enqueue (units c) (Some (current c)))
     (\<lambda>(q, _). Inr (c\<lparr>units := q, current := zero_unit\<rparr>))"

definition counter_PushEmpty :: "counter \<Rightarrow> counter go" where
  "counter_PushEmpty c = go_bind (cq_Enqueue (units c) (Some zero_unit)) (\<lambda>(q, _). Inr (c\<lparr>units := q\<rparr>))"

text \<open>The five \<open>+=\<close> lines of the loop body of \<open>Summary\<close>, and again after the loop.\<close>

definition unit_add :: "StatisticalUnit \<Rightarrow> StatisticalUnit \<Rightarrow> StatisticalUnit" where
  "unit_add summary u = summary\<lparr>Total := Total summary + Total u,
     Success := Success summary + Success u,
     BusinessFailure := BusinessFailure summary + BusinessFailure u,
     NetworkFailure := NetworkFailure summary + NetworkFailure u,
     Timeout := Timeout summary + Timeout u\<rparr>"

definition counter_Summary :: "counter \<Rightarrow> StatisticalUnit go" where
  "counter_Summary c =
     go_bind (cq_List (units c)) (\<lambda>us.
     go_bind (go_fold (\<lambda>summary p. go_bind (go_deref p) (\<lambda>u. Inr (unit_add summary u))) zero_unit us)
       (\<lambda>summary. Inr (unit_add summary (current c))))"

definition counter_RecordSuccess :: "counter \<Rightarrow> counter" where
  "counter_RecordSuccess c =
     c\<lparr>current := (current c)\<lparr>Success := Success (current c) + 1, Total := Total (current c) + 1\<rparr>\<rparr>"

definition counter_RecordBusinessFailure :: "counter \<Rightarrow> counter" where
  "counter_RecordBusinessFailure c =
     c\<lparr>current := (current c)\<lparr>BusinessFailure := BusinessFailure (current c) + 1,
                             Total := Total (current c) + 1\<rparr>\<rparr>"

definition counter_RecordNetworkFailure :: "counter \<Rightarrow> counter" where
  "counter_RecordNetworkFailure c =
     c\<lparr>current := (current c)\<lparr>NetworkFailure := NetworkFailure (current c) + 1,
                             Total := Total (current c) + 1\<rparr>\<rparr>"

definition counter_RecordTimeout :: "counter \<Rightarrow> counter" where
  "counter_RecordTimeout c =
     c\<lparr>current := (current c)\<lparr>Timeout := Timeout (current c) + 1, Total := Total (current c) + 1\<rparr>\<rparr>"

lemmas counter_Record_defs = counter_RecordSuccess_def counter_RecordBusinessFailure_def
  counter_RecordNetworkFailure_def counter_RecordTimeout_def

subsection \<open>Operations as a step function\<close>

datatype counter_op = CReset | CFlush | CPushEmpty | CSummary | CRecord Metric

fun counter_record :: "Metric \<Rightarrow> counter \<Rightarrow> counter" where
  "counter_record SUCCESS c = counter_RecordSuccess c"
| "counter_record BUSINESS_FAILURE c = counter_RecordBusinessFailure c"
| "counter_record NETWORK_FAILURE c = counter_RecordNetworkFailure c"
| "counter_record TIMEOUT c = counter_RecordTimeout c"

fun counter_step :: "counter \<Rightarrow> counter_op \<Rightarrow> (counter \<times> StatisticalUnit option) go" where
  "counter_step c CReset = Inr (counter_Reset c, None)"
| "counter_step c CFlush = go_bind (counter_Flush c) (\<lambda>c'. Inr (c', None))"
| "counter_step c CPushEmpty = go_bind (counter_PushEmpty c) (\<lambda>c'. Inr (c', None))"
| "counter_step c CSummary = go_bind (counter_Summary c) (\<lambda>u. Inr (c, Some u))"
| "counter_step c (CRecord m) = Inr (counter_record m c, None)"

subsection \<open>Invariant and abstract window\<close>

text \<open>
  A unit is balanced when its total is the sum of its four classes (as 64-bit numbers, so
  also after a wrap). The abstract window is the list of finished slices, oldest first, and
  the current slice; it has room for \<open>cap\<close> finished slices, and a slice that is finished
  while the window is full is lost.
\<close>

definition balanced :: "StatisticalUnit \<Rightarrow> bool" where
  "balanced u \<longleftrightarrow> Total u = Success u + BusinessFailure u + NetworkFailure u + Timeout u"

definition counter_inv :: "counter \<Rightarrow> bool" where
  "counter_inv c \<longleftrightarrow> cq_inv (units c) \<and> None \<notin> set (cq_contents (units c))
     \<and> (\<forall>u. Some u \<in> set (cq_contents (units c)) \<longrightarrow> balanced u) \<and> balanced (current c)"

definition slices :: "counter \<Rightarrow> StatisticalUnit list" where
  "slices c = map the (cq_contents (units c))"

definition window_cap :: "counter \<Rightarrow> nat" where
  "window_cap c = cq_cap (units c)"

definition units_sum :: "StatisticalUnit list \<Rightarrow> StatisticalUnit" where
  "units_sum us = foldl unit_add zero_unit us"

type_synonym window = "nat \<times> StatisticalUnit list \<times> StatisticalUnit"

definition push_slice :: "nat \<Rightarrow> StatisticalUnit list \<Rightarrow> StatisticalUnit \<Rightarrow> StatisticalUnit list" where
  "push_slice cap us u = (if length us < cap then us @ [u] else us)"

fun unit_count :: "Metric \<Rightarrow> StatisticalUnit \<Rightarrow> StatisticalUnit" where
  "unit_count SUCCESS u = u\<lparr>Success := Success u + 1, Total := Total u + 1\<rparr>"
| "unit_count BUSINESS_FAILURE u = u\<lparr>BusinessFailure := BusinessFailure u + 1, Total := Total u + 1\<rparr>"
| "unit_count NETWORK_FAILURE u = u\<lparr>NetworkFailure := NetworkFailure u + 1, Total := Total u + 1\<rparr>"
| "unit_count TIMEOUT u = u\<lparr>Timeout := Timeout u + 1, Total := Total u + 1\<rparr>"

fun window_step :: "window \<Rightarrow> counter_op \<Rightarrow> window \<times> StatisticalUnit option" where
  "window_step (cap, us, cur) CReset = ((cap, [], zero_unit), None)"
| "window_step (cap, us, cur) CFlush = ((cap, push_slice cap us cur, zero_unit), None)"
| "window_step (cap, us, cur) CPushEmpty = ((cap, push_slice cap us zero_unit, cur), None)"
| "window_step (cap, us, cur) CSummary = ((cap, us, cur), Some (units_sum (us @ [cur])))"
| "window_step (cap, us, cur) (CRecord m) = ((cap, us, unit_count m cur), None)"

definition window_of :: "counter \<Rightarrow> window" where
  "window_of c = (window_cap c, slices c, current c)"

subsection \<open>Each operation on the abstract window\<close>

lemma zero_unit_balanced [simp]: "balanced zero_unit"
  by (simp add: balanced_def zero_unit_def)

lemma unit_add_balanced: "balanced u \<Longrightarrow> balanced v \<Longrightarrow> balanced (unit_add u v)"
  by (simp add: balanced_def unit_add_def)

lemma units_sum_balanced: "\<forall>u \<in> set us. balanced u \<Longrightarrow> balanced (units_sum us)"
proof -
  have "balanced a \<Longrightarrow> \<forall>u \<in> set us. balanced u \<Longrightarrow> balanced (foldl unit_add a us)" for a
    by (induction us arbitrary: a) (simp_all add: unit_add_balanced)
  then show "\<forall>u \<in> set us. balanced u \<Longrightarrow> balanced (units_sum us)"
    by (simp add: units_sum_def)
qed

lemma counter_invD:
  assumes "counter_inv c"
  shows "cq_inv (units c)" "cq_contents (units c) = map Some (slices c)"
    "balanced (current c)" "\<forall>u \<in> set (slices c). balanced u"
proof -
  show "cq_contents (units c) = map Some (slices c)"
    using assms by (auto simp: counter_inv_def slices_def intro!: map_idI [symmetric]) (metis option.collapse)
  with assms show "\<forall>u \<in> set (slices c). balanced u" by (auto simp: counter_inv_def)
qed (use assms in \<open>simp_all add: counter_inv_def\<close>)

lemma counter_enqueue:
  assumes inv: "counter_inv c" and "balanced u" "balanced v"
  shows "\<exists>q b. cq_Enqueue (units c) (Some u) = Inr (q, b) \<and>
    counter_inv (c\<lparr>units := q, current := v\<rparr>) \<and>
    window_of (c\<lparr>units := q, current := v\<rparr>) = (window_cap c, push_slice (window_cap c) (slices c) u, v)"
  using counter_invD(1) [OF inv]
proof (rule cq.enq_cases [where x = "Some u"])
  fix q
  assume "length (cq_contents (units c)) < cq_cap (units c)"
    "cq_Enqueue (units c) (Some u) = Inr (q, True)" "cq_inv q"
    "cq_contents q = cq_contents (units c) @ [Some u]" "cq_cap q = cq_cap (units c)"
  with counter_invD [OF inv] assms show ?thesis
    by (auto simp: counter_inv_def window_of_def window_cap_def slices_def push_slice_def)
next
  assume "length (cq_contents (units c)) = cq_cap (units c)"
    "cq_Enqueue (units c) (Some u) = Inr (units c, False)"
  with counter_invD [OF inv] assms show ?thesis
    by (auto simp: counter_inv_def window_of_def window_cap_def slices_def push_slice_def)
qed

lemma counter_Flush_window:
  assumes "counter_inv c"
  shows "\<exists>c'. counter_Flush c = Inr c' \<and> counter_inv c' \<and>
    window_of c' = (window_cap c, push_slice (window_cap c) (slices c) (current c), zero_unit)"
  using counter_enqueue [OF assms counter_invD(3) [OF assms] zero_unit_balanced]
  by (auto simp: counter_Flush_def)

lemma counter_PushEmpty_window:
  assumes "counter_inv c"
  shows "\<exists>c'. counter_PushEmpty c = Inr c' \<and> counter_inv c' \<and>
    window_of c' = (window_cap c, push_slice (window_cap c) (slices c) zero_unit, current c)"
  using counter_enqueue [OF assms zero_unit_balanced counter_invD(3) [OF assms]]
  by (auto simp: counter_PushEmpty_def)

lemma counter_Summary_window:
  assumes "counter_inv c"
  shows "counter_Summary c = Inr (units_sum (slices c @ [current c]))"
proof -
  have "go_fold (\<lambda>s p. go_bind (go_deref p) (\<lambda>u. Inr (unit_add s u))) a (map Some us)
      = Inr (foldl unit_add a us)" for a us
    by (induction us arbitrary: a) simp_all
  with assms show ?thesis
    by (simp add: counter_Summary_def cq_List_contents counter_invD(1,2) units_sum_def)
qed

lemma counter_Reset_window:
  "counter_inv c \<Longrightarrow> counter_inv (counter_Reset c) \<and> window_of (counter_Reset c) = (window_cap c, [], zero_unit)"
  by (auto simp: counter_inv_def counter_Reset_def window_of_def window_cap_def slices_def cq_Reset_contents)

lemma counter_record_window:
  "counter_inv c \<Longrightarrow> counter_inv (counter_record m c) \<and>
     window_of (counter_record m c) = (window_cap c, slices c, unit_count m (current c))"
  by (cases m) (simp_all add: counter_Record_defs counter_inv_def window_of_def window_cap_def
      slices_def balanced_def)

lemma NewCounter_inv:
  assumes "0 \<le> cap" "cap < 2 ^ 63 - 1"
  shows "\<exists>c. NewCounter cap = Inr c \<and> counter_inv c \<and> window_of c = (nat cap, [], zero_unit)"
  using NewCircularQueue_inv [OF assms, of "None :: StatisticalUnit option"]
  by (auto simp: NewCounter_def counter_inv_def window_of_def window_cap_def slices_def)

interpretation counter: go_refinement counter_step counter_inv "\<lambda>_. True" window_of window_step
proof unfold_locales
  fix c e
  assume inv: "counter_inv c"
  note facts = counter_Flush_window [OF inv] counter_PushEmpty_window [OF inv]
    counter_Summary_window [OF inv] counter_Reset_window [OF inv]
    counter_record_window [OF inv]
  show "\<exists>c' x. counter_step c e = Inr (c', x) \<and> counter_inv c'"
    by (cases e) (use facts inv in auto)
  fix c' x
  assume "counter_step c e = Inr (c', x)"
  then show "window_step (window_of c) e = (window_of c', x)"
    by (cases e) (use facts in \<open>auto simp: window_of_def [of c]\<close>, simp_all add: window_of_def)
qed

subsection \<open>A full window is frozen\<close>

text \<open>
  \<open>Flush\<close> and \<open>PushEmpty\<close> ignore the queue's refusal. Once the window is full, every later
  slice is lost and the oldest slices stay, until a \<open>Reset\<close>.
\<close>

lemma full_window_step:
  "length us = cap \<Longrightarrow> e \<noteq> CReset \<Longrightarrow> \<exists>cur'. fst (window_step (cap, us, cur) e) = (cap, us, cur')"
  by (cases e) (auto simp: push_slice_def)

lemma full_window_run:
  "length us = cap \<Longrightarrow> CReset \<notin> set es \<Longrightarrow>
     \<exists>cur'. fst (pure_run window_step (cap, us, cur) es) = (cap, us, cur')"
proof (induction es arbitrary: cur)
  case (Cons e es)
  then obtain cur' x where "window_step (cap, us, cur) e = ((cap, us, cur'), x)"
    using full_window_step [of us cap e cur] by (cases "window_step (cap, us, cur) e") auto
  with Cons.IH [of cur'] Cons.prems show ?case by (auto split: prod.splits)
qed simp

end
