(* ===== verification/Go_Float.thy ===== *)
theory Go_Float
  imports Prelude Complex_Main "HOL-Library.Log_Nat"
begin

section \<open>float64: the quotient of two integers and its comparison\<close>

text \<open>
  The breaker divides two converted \<open>int\<close>s and compares the quotient with a \<open>float64\<close>
  threshold. A \<open>float64\<close> is \<open>NaN\<close>, an infinity (\<open>F_Inf True\<close> is the negative one) or a
  rational. Conversion and division round to the nearest value with a 53-bit significand,
  ties to even. The operands are 64-bit integers, so a quotient different from zero lies
  between \<open>2 ^ -63\<close> and \<open>2 ^ 63\<close> in magnitude and neither overflow nor subnormal values occur.
\<close>

datatype float64 = F_NaN | F_Inf bool | F_Fin rat

definition round_even :: "rat \<Rightarrow> int" where
  "round_even x =
     (let f = \<lfloor>x\<rfloor>; d = x - of_int f
      in if d < 1 / 2 then f else if 1 / 2 < d then f + 1 else if even f then f else f + 1)"

text \<open>The binary exponent of a positive rational: \<open>2 powi e \<le> q < 2 powi (e + 1)\<close>.\<close>

definition expo :: "rat \<Rightarrow> int" where
  "expo q = (let (a, b) = quotient_of q; e = bitlen a - bitlen b
             in if 2 powi e \<le> q then e else e - 1)"

definition rnd_pos :: "rat \<Rightarrow> rat" where
  "rnd_pos q = (let u = 2 powi (expo q - 52) in of_int (round_even (q / u)) * u)"

definition rnd64 :: "rat \<Rightarrow> rat" where
  "rnd64 q = (if q = 0 then 0 else if 0 < q then rnd_pos q else - rnd_pos (- q))"

text \<open>\<open>float64(a) / float64(b)\<close> for integers, and \<open>x > y\<close> on floats (false for \<open>NaN\<close>).\<close>

definition f64_quot :: "int \<Rightarrow> int \<Rightarrow> float64" where
  "f64_quot a b =
     (let x = rnd64 (of_int a); y = rnd64 (of_int b)
      in if y = 0 then (if x = 0 then F_NaN else F_Inf (x < 0)) else F_Fin (rnd64 (x / y)))"

fun f64_gt :: "float64 \<Rightarrow> float64 \<Rightarrow> bool" where
  "f64_gt F_NaN y \<longleftrightarrow> False"
| "f64_gt x F_NaN \<longleftrightarrow> False"
| "f64_gt (F_Inf s) (F_Inf t) \<longleftrightarrow> \<not> s \<and> t"
| "f64_gt (F_Inf s) (F_Fin y) \<longleftrightarrow> \<not> s"
| "f64_gt (F_Fin x) (F_Inf t) \<longleftrightarrow> t"
| "f64_gt (F_Fin x) (F_Fin y) \<longleftrightarrow> y < x"

subsection \<open>Rounding to an integer\<close>

lemma round_even_of_int [simp]: "round_even (of_int n) = n"
  by (simp add: round_even_def)

lemma round_even_bounds: "\<lfloor>x\<rfloor> \<le> round_even x" "round_even x \<le> \<lfloor>x\<rfloor> + 1"
  by (auto simp: round_even_def Let_def)

lemma round_even_near: "\<bar>of_int (round_even x) - x\<bar> \<le> 1 / 2"
proof -
  have "of_int \<lfloor>x\<rfloor> \<le> x" "x < of_int \<lfloor>x\<rfloor> + 1" by linarith+
  then show ?thesis by (auto simp: round_even_def Let_def abs_le_iff)
qed

lemma round_even_mono:
  assumes "x \<le> y"
  shows "round_even x \<le> round_even y"
proof (cases "\<lfloor>x\<rfloor> = \<lfloor>y\<rfloor>")
  case True
  then show ?thesis using assms by (auto simp: round_even_def Let_def)
next
  case False
  with floor_mono [OF assms] have "\<lfloor>x\<rfloor> + 1 \<le> \<lfloor>y\<rfloor>" by simp
  with round_even_bounds [of x] round_even_bounds [of y] show ?thesis by simp
qed

subsection \<open>The exponent\<close>

lemma powi_strict_mono: "a < b \<Longrightarrow> (2::rat) powi a < 2 powi b"
  by (rule power_int_strict_increasing) simp_all

lemma powi_mono: "a \<le> b \<Longrightarrow> (2::rat) powi a \<le> 2 powi b"
  by (rule power_int_increasing) simp_all

lemma powi_pos [simp]: "0 < (2::rat) powi a"
  by (rule zero_less_power_int) simp

lemma powi_Suc: "(2::rat) powi (a + 1) = 2 * 2 powi a"
  by (simp add: power_int_add)

lemma bitlen_powi:
  assumes "0 < n"
  shows "2 powi (bitlen n - 1) \<le> (of_int n :: rat)" "(of_int n :: rat) < 2 powi bitlen n"
proof -
  have b: "1 \<le> bitlen n" using assms bitlen_nonneg [of n] bitlen_eq_zero_iff [of n] by linarith
  have lo: "2 ^ nat (bitlen n - 1) \<le> n" and hi: "n < 2 ^ nat (bitlen n)"
    using bitlen_bounds [OF assms] by auto
  from lo have "(of_int (2 ^ nat (bitlen n - 1)) :: rat) \<le> of_int n" by (simp only: of_int_le_iff)
  with b show "2 powi (bitlen n - 1) \<le> (of_int n :: rat)" by (simp add: power_int_nonneg_exp)
  from hi have "(of_int n :: rat) < of_int (2 ^ nat (bitlen n))" by (simp only: of_int_less_iff)
  with b show "(of_int n :: rat) < 2 powi bitlen n" by (simp add: power_int_nonneg_exp)
qed

lemma expo_bounds:
  assumes "0 < q"
  shows "2 powi expo q \<le> q" "q < 2 powi (expo q + 1)"
proof -
  obtain a b where ab: "quotient_of q = (a, b)" by (cases "quotient_of q")
  from ab have q: "q = of_int a / of_int b" and b: "0 < b"
    by (auto dest: quotient_of_div quotient_of_denom_pos)
  with assms have a: "0 < a" by (simp add: zero_less_divide_iff)
  let ?e = "bitlen a - bitlen b"
  note A = bitlen_powi [OF a] and B = bitlen_powi [OF b]
  have "2 powi (?e - 1) = (2::rat) powi (bitlen a - 1) / 2 powi bitlen b"
    by (simp add: power_int_diff)
  also have "\<dots> \<le> of_int a / of_int b"
    using A(1) B(2) a b by (intro frac_le) (auto intro: less_imp_le)
  finally have lo: "2 powi (?e - 1) \<le> q" using q by simp
  have "q < 2 powi bitlen a / 2 powi (bitlen b - 1)"
    unfolding q using A(2) B(1) a b by (intro frac_less) auto
  also have "\<dots> = 2 powi (?e + 1)"
    by (simp add: power_int_diff power_int_add)
  finally have hi: "q < 2 powi (?e + 1)" .
  show "2 powi expo q \<le> q" "q < 2 powi (expo q + 1)"
    using lo hi by (auto simp: expo_def ab Let_def)
qed

lemma expo_unique:
  assumes "0 < q" "2 powi e \<le> q" "q < 2 powi (e + 1)"
  shows "expo q = e"
proof -
  note E = expo_bounds [OF assms(1)]
  have "\<not> e + 1 \<le> expo q" using powi_mono [of "e + 1" "expo q"] E assms by auto
  moreover have "\<not> expo q + 1 \<le> e" using powi_mono [of "expo q + 1" e] E assms by auto
  ultimately show ?thesis by simp
qed

lemma expo_mono: "0 < p \<Longrightarrow> p \<le> q \<Longrightarrow> expo p \<le> expo q"
proof (rule ccontr)
  assume pq: "0 < p" "p \<le> q" and "\<not> expo p \<le> expo q"
  then have "(2::rat) powi (expo q + 1) \<le> 2 powi expo p" by (intro powi_mono) simp
  with expo_bounds [of p] expo_bounds [of q] pq show False by auto
qed

subsection \<open>Rounding to 53 bits\<close>

lemma rnd_pos_bounds:
  assumes "0 < q"
  shows "2 powi expo q \<le> rnd_pos q" "rnd_pos q \<le> 2 powi (expo q + 1)"
proof -
  let ?u = "(2::rat) powi (expo q - 52)"
  have lo: "of_int (2 ^ 52) \<le> q / ?u" and hi: "q / ?u \<le> of_int (2 ^ 53)"
    using expo_bounds [OF assms] by (simp_all add: power_int_diff power_int_add field_simps)
  have "2 ^ 52 \<le> round_even (q / ?u)" "round_even (q / ?u) \<le> 2 ^ 53"
    using round_even_mono [OF lo] round_even_mono [OF hi] by (simp_all only: round_even_of_int)
  then have "of_int (2 ^ 52) \<le> (of_int (round_even (q / ?u)) :: rat)"
    "(of_int (round_even (q / ?u)) :: rat) \<le> of_int (2 ^ 53)"
    by (simp_all only: of_int_le_iff)
  then have "of_int (2 ^ 52) * ?u \<le> rnd_pos q" "rnd_pos q \<le> of_int (2 ^ 53) * ?u"
    by (simp_all only: rnd_pos_def Let_def mult_right_mono [OF _ less_imp_le [OF powi_pos]])
  then show "2 powi expo q \<le> rnd_pos q" "rnd_pos q \<le> 2 powi (expo q + 1)"
    by (simp_all add: power_int_diff power_int_add)
qed

lemma rnd_pos_gt0: "0 < q \<Longrightarrow> 0 < rnd_pos q"
  using rnd_pos_bounds(1) [of q] powi_pos [of "expo q"] by linarith

lemma rnd_pos_mono:
  assumes "0 < p" "p \<le> q"
  shows "rnd_pos p \<le> rnd_pos q"
proof (cases "expo p = expo q")
  case True
  then have "p / 2 powi (expo q - 52) \<le> q / 2 powi (expo q - 52)"
    using assms by (intro divide_right_mono) (auto intro: less_imp_le)
  then have "of_int (round_even (p / 2 powi (expo q - 52)))
      \<le> (of_int (round_even (q / 2 powi (expo q - 52))) :: rat)"
    by (simp only: of_int_le_iff round_even_mono)
  then show ?thesis
    unfolding rnd_pos_def Let_def True by (rule mult_right_mono) (auto intro: less_imp_le)
next
  case False
  with expo_mono [OF assms] have "(2::rat) powi (expo p + 1) \<le> 2 powi expo q"
    by (intro powi_mono) simp
  with rnd_pos_bounds [of p] rnd_pos_bounds [of q] assms show ?thesis by auto
qed

lemma rnd_pos_exact:
  assumes "0 < m" "m < 2 ^ 53"
  shows "rnd_pos (of_int m * 2 powi k) = of_int m * 2 powi k"
proof -
  let ?q = "of_int m * 2 powi k :: rat" and ?e = "expo (of_int m * 2 powi k)"
  have q: "0 < ?q" using assms by simp
  have "(of_int m :: rat) < 2 ^ 53" using assms(2) by (metis of_int_less_iff of_int_numeral of_int_power)
  then have "?q < 2 powi (53 + k)" by (simp add: power_int_add)
  with expo_bounds(1) [OF q] have "\<not> 53 + k \<le> ?e" using powi_mono [of "53 + k" ?e] by linarith
  then have "0 \<le> k - (?e - 52)" by simp
  then obtain d where d: "k = (?e - 52) + int d" using zero_le_imp_eq_int [of "k - (?e - 52)"] by (metis diff_add_cancel add.commute)
  define u where "u = (2::rat) powi (?e - 52)"
  have k: "(2::rat) powi k = u * 2 ^ d" and u: "u \<noteq> 0"
    unfolding u_def by (subst d) (simp_all add: power_int_add)
  have "of_int m * 2 powi k = of_int (m * 2 ^ d) * u" by (simp add: k)
  then have "of_int m * 2 powi k / u = of_int (m * 2 ^ d)"
    by (rule nonzero_divide_eq_eq [OF u, THEN iffD2])
  then have "round_even (?q / u) = m * 2 ^ d" by (simp only: round_even_of_int)
  then show ?thesis by (simp only: rnd_pos_def Let_def u_def [symmetric]) (simp add: k)
qed

lemma rnd_pos_near:
  assumes "0 < q" "q \<le> 1"
  shows "\<bar>rnd_pos q - q\<bar> \<le> 2 powi (- 53)"
proof -
  let ?u = "(2::rat) powi (expo q - 52)"
  have "expo q \<le> expo 1" using assms by (rule expo_mono)
  also have "expo 1 = 0" by (rule expo_unique) simp_all
  finally have u: "?u \<le> 2 powi (- 52)" by (intro powi_mono) simp
  have "rnd_pos q - q = (of_int (round_even (q / ?u)) - q / ?u) * ?u"
    by (simp add: rnd_pos_def Let_def left_diff_distrib)
  then have "\<bar>rnd_pos q - q\<bar> = \<bar>of_int (round_even (q / ?u)) - q / ?u\<bar> * ?u"
    by (simp add: abs_mult)
  also have "\<dots> \<le> 1 / 2 * ?u"
    by (intro mult_right_mono round_even_near less_imp_le powi_pos)
  also have "\<dots> \<le> 1 / 2 * 2 powi (- 52)" using u by simp
  also have "\<dots> = 2 powi (- 53)" using powi_Suc [of "- 53"] by simp
  finally show ?thesis .
qed

subsection \<open>The comparison of a rate with a threshold\<close>

lemma rnd64_mono: "x \<le> y \<Longrightarrow> rnd64 x \<le> rnd64 y"
  using rnd_pos_mono [of x y] rnd_pos_mono [of "- y" "- x"] rnd_pos_gt0 [of y] rnd_pos_gt0 [of "- x"]
  by (auto simp: rnd64_def)

lemma rnd64_exact:
  assumes "\<bar>m\<bar> < 2 ^ 53"
  shows "rnd64 (of_int m * 2 powi k) = of_int m * 2 powi k"
proof -
  consider "m = 0" | "0 < m" | "m < 0" by linarith
  then show ?thesis
  proof cases
    case 2
    then have "0 < of_int m * (2::rat) powi k" by simp
    with 2 assms show ?thesis by (simp add: rnd64_def rnd_pos_exact)
  next
    case 3
    then have "of_int m * (2::rat) powi k < 0" by (simp add: mult_neg_pos)
    with 3 assms rnd_pos_exact [of "- m" k] show ?thesis by (simp add: rnd64_def)
  qed (simp add: rnd64_def)
qed

lemma rnd64_int: "\<bar>m\<bar> < 2 ^ 53 \<Longrightarrow> rnd64 (of_int m) = of_int m"
  using rnd64_exact [of m 0] by simp

lemma rnd64_half: "rnd64 (1 / 2) = 1 / 2"
  using rnd64_exact [of 1 "- 1"] by simp

lemma rnd64_near: "0 < q \<Longrightarrow> q \<le> 1 \<Longrightarrow> \<bar>rnd64 q - q\<bar> \<le> 2 powi (- 53)"
  using rnd_pos_near [of q] unfolding rnd64_def by (simp only: less_imp_neq [THEN not_sym] if_False if_True)

lemma f64_quot_exact_ops:
  assumes "0 \<le> f" "f \<le> n" "0 < n" "n < 2 ^ 53"
  shows "f64_quot f n = F_Fin (rnd64 (of_int f / of_int n))"
  using assms by (simp add: f64_quot_def rnd64_int)

text \<open>A rate is never above the threshold by rounding alone, for a threshold that is a float.\<close>

lemma f64_gt_sound:
  assumes "0 \<le> f" "f \<le> n" "0 < n" "n < 2 ^ 53" "rnd64 t = t"
    and "f64_gt (f64_quot f n) (F_Fin t)"
  shows "t < of_int f / of_int n"
proof (rule ccontr)
  assume "\<not> ?thesis"
  then have "rnd64 (of_int f / of_int n) \<le> rnd64 t" by (intro rnd64_mono) simp
  with assms show False by (simp add: f64_quot_exact_ops)
qed

lemma f64_gt_complete:
  assumes "0 \<le> f" "f \<le> n" "0 < n" "n < 2 ^ 53" "0 \<le> t"
    and above: "t + 2 powi (- 53) < of_int f / of_int n"
  shows "f64_gt (f64_quot f n) (F_Fin t)"
proof -
  let ?q = "of_int f / of_int n :: rat"
  have q: "0 < ?q" using above assms(5) powi_pos [of "- 53"] by linarith
  moreover have "?q \<le> 1" using assms(1-3) by (simp add: divide_le_eq)
  ultimately have "?q - 2 powi (- 53) \<le> rnd64 ?q"
    using rnd64_near [OF q] unfolding abs_le_iff by linarith
  with above have "t < rnd64 ?q" by linarith
  with assms show ?thesis by (simp add: f64_quot_exact_ops)
qed

lemma half_step:
  fixes x y :: rat
  assumes "0 < y" "y + 1 \<le> 2 * x"
  shows "1 / 2 + 1 / (2 * y) \<le> x / y"
proof -
  have "1 / 2 + 1 / (2 * y) = (y + 1) / (2 * y)" using assms(1) by (simp add: field_simps)
  also have "\<dots> \<le> 2 * x / (2 * y)" using assms by (intro divide_right_mono) auto
  also have "\<dots> = x / y" by simp
  finally show ?thesis .
qed

lemma half_gap: "0 < y \<Longrightarrow> y < 2 ^ 52 \<Longrightarrow> 2 powi (- 53) < (1 / (2 * y) :: rat)"
  by (simp add: power_int_minus field_simps)

text \<open>With the default threshold one half the comparison is exact up to \<open>2 ^ 52\<close> requests.\<close>

lemma f64_gt_half:
  assumes "0 \<le> f" "f \<le> n" "0 < n" "n < 2 ^ 52"
  shows "f64_gt (f64_quot f n) (F_Fin (1 / 2)) \<longleftrightarrow> n < 2 * f"
proof
  assume "f64_gt (f64_quot f n) (F_Fin (1 / 2))"
  with assms have "(1 / 2 :: rat) < of_int f / of_int n"
    by (intro f64_gt_sound) (auto simp: rnd64_half)
  with assms have "(of_int n :: rat) < of_int (2 * f)" by (simp add: field_simps)
  then show "n < 2 * f" by (simp only: of_int_less_iff)
next
  assume "n < 2 * f"
  then have "n + 1 \<le> 2 * f" by simp
  then have "of_int (n + 1) \<le> (of_int (2 * f) :: rat)" by (simp only: of_int_le_iff)
  then have "of_int n + 1 \<le> (2 * of_int f :: rat)"
    by (simp only: of_int_add of_int_1 of_int_mult of_int_numeral)
  then have a: "1 / 2 + 1 / (2 * of_int n) \<le> (of_int f / of_int n :: rat)"
    using assms by (intro half_step) auto
  have "(of_int n :: rat) < 2 ^ 52"
    using assms(4) by (metis of_int_less_iff of_int_numeral of_int_power)
  then have "2 powi (- 53) < (1 / (2 * of_int n) :: rat)"
    using assms by (intro half_gap) auto
  with a have "1 / 2 + 2 powi (- 53) < (of_int f / of_int n :: rat)" by linarith
  with assms show "f64_gt (f64_quot f n) (F_Fin (1 / 2))"
    by (intro f64_gt_complete) simp_all
qed

end
