(* ===== verification/SubBreaker.thy ===== *)
theory SubBreaker
  imports Counter Go_Float
begin

section \<open>The circuit breaker of one endpoint\<close>

text \<open>
  \<open>internal/cli/breaker/options.go\<close> and \<open>subbreaker.go\<close>. \<open>State\<close> is a Go \<open>uint\<close> with three
  named values that are never reassigned, hence a datatype. The clock is an argument, as in
  the code (\<open>allowed(now)\<close>, \<open>record(now, result)\<close>). \<open>advance\<close>, \<open>allowed\<close> and \<open>record\<close> take the
  mutex in turn, but every caller holds the mutex of \<open>Breaker\<close>, so a call is one step.
  The second half of the theory gives the breaker's specification as a machine over a
  tagged mode and an abstract window, and shows that the code refines it.
\<close>

record Options =
  opt_windowCapacity :: int
  opt_halfOpenAllowed :: int
  opt_minRequestCount :: int
  opt_failureRateThreshold :: float64
  opt_halfOpenMaxDuration :: int
  opt_openDuration :: int

definition breaker_NewOptions :: Options where
  "breaker_NewOptions = \<lparr>opt_windowCapacity = 20, opt_halfOpenAllowed = 10,
     opt_minRequestCount = 20, opt_failureRateThreshold = F_Fin (1 / 2),
     opt_halfOpenMaxDuration = 60, opt_openDuration = 60\<rparr>"

datatype State = StateClosed | StateOpen | StateHalfOpen

record settings =
  st_capacity :: int
  st_halfOpenAllowed :: int
  st_minRequestCount :: int
  st_failureRateThreshold :: float64
  st_interval :: duration
  st_halfOpenMaxDuration :: duration
  st_openDuration :: duration

text \<open>The field \<open>capacity\<close> is not set by the code and stays 0.\<close>

definition newSettings :: "Options \<Rightarrow> settings" where
  "newSettings opts = \<lparr>st_capacity = 0,
     st_halfOpenAllowed = opt_halfOpenAllowed opts,
     st_minRequestCount = opt_minRequestCount opts,
     st_failureRateThreshold = opt_failureRateThreshold opts,
     st_interval = i64 (opt_windowCapacity opts * time_Second),
     st_halfOpenMaxDuration = i64 (opt_halfOpenMaxDuration opts * time_Second),
     st_openDuration = i64 (opt_openDuration opts * time_Second)\<rparr>"

record subBreaker =
  state :: State
  openUntil :: instant
  halfOpenSince :: instant
  probeUsed :: int
  probeSuccess :: int
  lastTick :: instant
  sb_settings :: settings
  windowCounter :: counter

definition newSubBreaker :: "Options \<Rightarrow> instant \<Rightarrow> subBreaker go" where
  "newSubBreaker opts now =
     go_bind (NewCounter (opt_windowCapacity opts)) (\<lambda>c.
     Inr \<lparr>state = StateClosed, openUntil = zero_time, halfOpenSince = zero_time,
          probeUsed = 0, probeSuccess = 0, lastTick = now,
          sb_settings = newSettings opts, windowCounter = c\<rparr>)"

definition advance :: "subBreaker \<Rightarrow> instant \<Rightarrow> subBreaker go" where
  "advance s now =
     (let sub = time_Sub now (lastTick s) in
      if sub < st_interval (sb_settings s) then Inr s
      else go_bind (go_quot sub (st_interval (sb_settings s))) (\<lambda>bucketCount.
           go_bind (go_iter (nat (bucketCount - 1)) counter_PushEmpty (windowCounter s)) (\<lambda>c.
           go_bind (counter_Flush c) (\<lambda>c'.
           Inr (s\<lparr>windowCounter := c', lastTick := now\<rparr>)))))"

text \<open>The case \<open>StateHalfOpen\<close> of \<open>allowed\<close>, into which the case \<open>StateOpen\<close> falls through.\<close>

definition allowed_halfOpen :: "subBreaker \<Rightarrow> instant \<Rightarrow> subBreaker \<times> bool" where
  "allowed_halfOpen s now =
     (if time_Sub now (halfOpenSince s) > st_halfOpenMaxDuration (sb_settings s)
      then (s\<lparr>state := StateOpen, openUntil := now + st_openDuration (sb_settings s)\<rparr>, False)
      else if probeUsed s \<ge> st_halfOpenAllowed (sb_settings s) then (s, False)
      else (s\<lparr>probeUsed := probeUsed s + 1\<rparr>, True))"

definition failureRate :: "StatisticalUnit \<Rightarrow> float64" where
  "failureRate summary =
     f64_quot (sint (NetworkFailure summary + Timeout summary)) (sint (Total summary))"

definition allowed :: "subBreaker \<Rightarrow> instant \<Rightarrow> (subBreaker \<times> bool) go" where
  "allowed s0 now = go_bind (advance s0 now) (\<lambda>s.
     case state s of
       StateClosed \<Rightarrow>
         go_bind (counter_Summary (windowCounter s)) (\<lambda>summary.
         if sint (Total summary) < st_minRequestCount (sb_settings s) then Inr (s, True)
         else if f64_gt (failureRate summary) (st_failureRateThreshold (sb_settings s))
         then Inr (s\<lparr>state := StateOpen, openUntil := now + st_openDuration (sb_settings s)\<rparr>, False)
         else Inr (s, True))
     | StateOpen \<Rightarrow>
         if \<not> now > openUntil s then Inr (s, False)
         else Inr (allowed_halfOpen
           (s\<lparr>state := StateHalfOpen, halfOpenSince := now, probeUsed := 0, probeSuccess := 0\<rparr>) now)
     | StateHalfOpen \<Rightarrow> Inr (allowed_halfOpen s now))"

definition sb_record :: "subBreaker \<Rightarrow> instant \<Rightarrow> Metric \<Rightarrow> subBreaker go" where
  "sb_record s0 now result = go_bind (advance s0 now) (\<lambda>s1.
     let s = s1\<lparr>windowCounter := counter_record result (windowCounter s1)\<rparr> in
     if state s = StateHalfOpen then
       let s' = (case result of
             NETWORK_FAILURE \<Rightarrow> s\<lparr>state := StateOpen, openUntil := now + st_openDuration (sb_settings s)\<rparr>
           | TIMEOUT \<Rightarrow> s\<lparr>state := StateOpen, openUntil := now + st_openDuration (sb_settings s)\<rparr>
           | SUCCESS \<Rightarrow> s\<lparr>probeSuccess := probeSuccess s + 1\<rparr>
           | BUSINESS_FAILURE \<Rightarrow> s)
       in Inr (if probeSuccess s' \<ge> st_halfOpenAllowed (sb_settings s')
               then s'\<lparr>state := StateClosed, windowCounter := counter_Reset (windowCounter s')\<rparr>
               else s')
     else Inr s)"

text \<open>The two operations as one step function; the output is the answer of \<open>allowed\<close>.\<close>

datatype breaker_op = OAllowed instant | ORecord instant Metric

fun op_time :: "breaker_op \<Rightarrow> instant" where
  "op_time (OAllowed now) = now"
| "op_time (ORecord now m) = now"

fun sub_step :: "subBreaker \<Rightarrow> breaker_op \<Rightarrow> (subBreaker \<times> bool option) go" where
  "sub_step s (OAllowed now) = go_bind (allowed s now) (\<lambda>(s', b). Inr (s', Some b))"
| "sub_step s (ORecord now m) = go_bind (sb_record s now m) (\<lambda>s'. Inr (s', None))"

subsection \<open>Specification\<close>

text \<open>
  The mode carries exactly the fields that matter in it: when rejection ends; since when
  probes are let through, how many were admitted and how many succeeded.
\<close>

datatype mode = Admitting | Rejecting instant | Probing instant int int

record view =
  v_settings :: settings
  v_last :: instant
  v_window :: window
  v_mode :: mode

text \<open>
  Time passes: once an interval is over, the empty slices of a longer gap and the current
  slice are appended, and what does not fit is cut off at the end.
\<close>

fun window_tick :: "nat \<Rightarrow> window \<Rightarrow> window" where
  "window_tick k (cap, us, cur) = (cap, take cap (us @ replicate (k - 1) zero_unit @ [cur]), zero_unit)"

definition view_tick :: "instant \<Rightarrow> view \<Rightarrow> view" where
  "view_tick now v =
     (let sub = time_Sub now (v_last v) in
      if sub < st_interval (v_settings v) then v
      else v\<lparr>v_window := window_tick (nat (sub div st_interval (v_settings v))) (v_window v),
             v_last := now\<rparr>)"

definition window_sum :: "window \<Rightarrow> StatisticalUnit" where
  "window_sum w = (case w of (cap, us, cur) \<Rightarrow> units_sum (us @ [cur]))"

definition trips :: "settings \<Rightarrow> StatisticalUnit \<Rightarrow> bool" where
  "trips st u \<longleftrightarrow> st_minRequestCount st \<le> sint (Total u)
     \<and> f64_gt (failureRate u) (st_failureRateThreshold st)"

definition mode_probe :: "settings \<Rightarrow> instant \<Rightarrow> instant \<Rightarrow> int \<Rightarrow> int \<Rightarrow> mode \<times> bool" where
  "mode_probe st now since used succ =
     (if st_halfOpenMaxDuration st < time_Sub now since then (Rejecting (now + st_openDuration st), False)
      else if used < st_halfOpenAllowed st then (Probing since (used + 1) succ, True)
      else (Probing since used succ, False))"

fun mode_allow :: "settings \<Rightarrow> instant \<Rightarrow> StatisticalUnit \<Rightarrow> mode \<Rightarrow> mode \<times> bool" where
  "mode_allow st now u Admitting =
     (if trips st u then (Rejecting (now + st_openDuration st), False) else (Admitting, True))"
| "mode_allow st now u (Rejecting until) =
     (if until < now then mode_probe st now now 0 0 else (Rejecting until, False))"
| "mode_allow st now u (Probing since used succ) = mode_probe st now since used succ"

text \<open>A result: the new mode, and whether the window starts afresh.\<close>

fun mode_record :: "settings \<Rightarrow> instant \<Rightarrow> Metric \<Rightarrow> mode \<Rightarrow> mode \<times> bool" where
  "mode_record st now SUCCESS (Probing since used succ) =
     (if succ + 1 < st_halfOpenAllowed st then (Probing since used (succ + 1), False) else (Admitting, True))"
| "mode_record st now BUSINESS_FAILURE (Probing since used succ) = (Probing since used succ, False)"
| "mode_record st now m (Probing since used succ) = (Rejecting (now + st_openDuration st), False)"
| "mode_record st now m md = (md, False)"

fun view_step :: "view \<Rightarrow> breaker_op \<Rightarrow> view \<times> bool option" where
  "view_step v (OAllowed now) =
     (let v' = view_tick now v;
          (md, b) = mode_allow (v_settings v') now (window_sum (v_window v')) (v_mode v')
      in (v'\<lparr>v_mode := md\<rparr>, Some b))"
| "view_step v (ORecord now m) =
     (let v' = view_tick now v;
          (md, fresh) = mode_record (v_settings v') now m (v_mode v');
          w = fst (window_step (v_window v') (CRecord m))
      in (v'\<lparr>v_mode := md, v_window := (if fresh then fst (window_step w CReset) else w)\<rparr>, None))"

definition mode_of :: "subBreaker \<Rightarrow> mode" where
  "mode_of s = (case state s of
       StateClosed \<Rightarrow> Admitting
     | StateOpen \<Rightarrow> Rejecting (openUntil s)
     | StateHalfOpen \<Rightarrow> Probing (halfOpenSince s) (probeUsed s) (probeSuccess s))"

definition view_of :: "subBreaker \<Rightarrow> view" where
  "view_of s = \<lparr>v_settings = sb_settings s, v_last = lastTick s,
     v_window = window_of (windowCounter s), v_mode = mode_of s\<rparr>"

subsection \<open>The invariant\<close>

text \<open>
  The options for which the breaker works: a positive window that fits an \<open>int64\<close> of
  nanoseconds, and at least one probe. The invariant bounds the probe counters, so their
  increments cannot wrap.
\<close>

definition good_options :: "Options \<Rightarrow> bool" where
  "good_options opts \<longleftrightarrow> 0 < opt_windowCapacity opts
     \<and> opt_windowCapacity opts * time_Second < 2 ^ 63
     \<and> 0 < opt_halfOpenAllowed opts \<and> opt_halfOpenAllowed opts < 2 ^ 63"

definition sb_inv :: "subBreaker \<Rightarrow> bool" where
  "sb_inv s \<longleftrightarrow> counter_inv (windowCounter s)
     \<and> 0 < st_interval (sb_settings s)
     \<and> 0 < st_halfOpenAllowed (sb_settings s)
     \<and> (state s = StateHalfOpen \<longrightarrow>
          0 \<le> probeUsed s \<and> probeUsed s \<le> st_halfOpenAllowed (sb_settings s)
        \<and> 0 \<le> probeSuccess s \<and> probeSuccess s < st_halfOpenAllowed (sb_settings s))"

lemma slices_bound: "counter_inv c \<Longrightarrow> length (slices c) \<le> window_cap c"
  using cq.contents_bound [OF counter_invD(1)] by (simp add: slices_def window_cap_def)

lemma sb_invD:
  assumes "sb_inv s"
  shows "counter_inv (windowCounter s)" "0 < st_interval (sb_settings s)"
    "0 < st_halfOpenAllowed (sb_settings s)"
  using assms by (simp_all add: sb_inv_def)

lemma secs_exact: "0 \<le> n \<Longrightarrow> n * time_Second < 2 ^ 63 \<Longrightarrow> i64 (n * time_Second) = n * time_Second"
  by (intro i64_id) (auto simp: time_Second_def)

lemma good_options_capacity: "good_options opts \<Longrightarrow> opt_windowCapacity opts < 2 ^ 63 - 1"
  by (auto simp: good_options_def time_Second_def)

lemma newSubBreaker_inv:
  assumes "good_options opts"
  shows "\<exists>s. newSubBreaker opts now = Inr s \<and> sb_inv s \<and> sb_settings s = newSettings opts
    \<and> state s = StateClosed \<and> lastTick s = now
    \<and> window_of (windowCounter s) = (nat (opt_windowCapacity opts), [], zero_unit)"
proof -
  from assms have "0 \<le> opt_windowCapacity opts" by (simp add: good_options_def)
  from NewCounter_inv [OF this good_options_capacity [OF assms]] obtain c where
    "NewCounter (opt_windowCapacity opts) = Inr c" "counter_inv c"
    "window_of c = (nat (opt_windowCapacity opts), [], zero_unit)" by auto
  moreover have "0 < i64 (opt_windowCapacity opts * time_Second)"
    using assms by (subst secs_exact) (simp_all add: good_options_def time_Second_def)
  ultimately show ?thesis
    using assms by (simp add: newSubBreaker_def sb_inv_def newSettings_def good_options_def)
qed

subsection \<open>The code refines the specification\<close>

lemma take_append_take: "take n (take n xs @ ys) = take n (xs @ ys)"
  by (cases "length xs \<le> n") simp_all

lemma push_slice_take: "length us \<le> cap \<Longrightarrow> push_slice cap us u = take cap (us @ [u])"
  by (simp add: push_slice_def)

lemma push_empties:
  "counter_inv c \<Longrightarrow> \<exists>c'. go_iter n counter_PushEmpty c = Inr c' \<and> counter_inv c' \<and>
     window_of c' = (window_cap c, take (window_cap c) (slices c @ replicate n zero_unit), current c)"
proof (induction n arbitrary: c)
  case 0
  then show ?case using slices_bound [of c] by (simp add: window_of_def)
next
  case (Suc n)
  obtain c1 where c1: "counter_PushEmpty c = Inr c1" "counter_inv c1"
    "window_of c1 = (window_cap c, take (window_cap c) (slices c @ [zero_unit]), current c)"
    using counter_PushEmpty_window [OF Suc.prems] slices_bound [OF Suc.prems]
    by (auto simp: push_slice_take)
  with Suc.IH [OF c1(2)] show ?case
    by (auto simp: window_of_def take_append_take simp del: take_append)
qed

lemma window_tick_code:
  assumes inv: "counter_inv c"
  shows "\<exists>c1 c2. go_iter n counter_PushEmpty c = Inr c1 \<and> counter_Flush c1 = Inr c2 \<and>
    counter_inv c2 \<and> window_of c2 = window_tick (Suc n) (window_of c)"
proof -
  from push_empties [OF inv, of n] obtain c1 where
    c1: "go_iter n counter_PushEmpty c = Inr c1" "counter_inv c1" "window_of c1 =
      (window_cap c, take (window_cap c) (slices c @ replicate n zero_unit), current c)" by blast
  with counter_Flush_window [OF c1(2)] slices_bound [OF c1(2)] show ?thesis
    by (auto simp: window_of_def push_slice_take take_append_take simp del: take_append)
qed

lemma mode_of_tick [simp]: "mode_of (s\<lparr>windowCounter := c, lastTick := t\<rparr>) = mode_of s"
  by (simp add: mode_of_def split: State.splits)

lemma advance_spec:
  assumes inv: "sb_inv s"
  shows "\<exists>s'. advance s now = Inr s' \<and> sb_inv s' \<and> view_of s' = view_tick now (view_of s) \<and>
    mode_of s' = mode_of s \<and> state s' = state s \<and> sb_settings s' = sb_settings s"
proof (cases "time_Sub now (lastTick s) < st_interval (sb_settings s)")
  case True
  with inv show ?thesis by (simp add: advance_def view_tick_def view_of_def)
next
  case False
  let ?k = "time_Sub now (lastTick s) div st_interval (sb_settings s)"
  note D = sb_invD [OF inv]
  from False D have quot: "go_quot (time_Sub now (lastTick s)) (st_interval (sb_settings s)) = Inr ?k"
    by (intro go_quot_pos) auto
  from False D have "1 \<le> ?k" by (simp add: pos_imp_zdiv_pos_iff int_one_le_iff_zero_less)
  then have k: "nat ?k = Suc (nat (?k - 1))" by simp
  from window_tick_code [OF D(1), of "nat (?k - 1)"] False quot inv k show ?thesis
    by (auto simp: advance_def view_tick_def view_of_def sb_inv_def Let_def)
qed

lemma allowed_halfOpen_mode:
  assumes "state s = StateHalfOpen"
  shows "mode_probe (sb_settings s) now (halfOpenSince s) (probeUsed s) (probeSuccess s)
    = (mode_of (fst (allowed_halfOpen s now)), snd (allowed_halfOpen s now))"
  using assms by (simp add: allowed_halfOpen_def mode_probe_def mode_of_def)

lemma allowed_halfOpen_frame:
  "windowCounter (fst (allowed_halfOpen s now)) = windowCounter s"
  "sb_settings (fst (allowed_halfOpen s now)) = sb_settings s"
  "lastTick (fst (allowed_halfOpen s now)) = lastTick s"
  by (simp_all add: allowed_halfOpen_def)

lemma allowed_halfOpen_inv:
  "sb_inv s \<Longrightarrow> state s = StateHalfOpen \<Longrightarrow> sb_inv (fst (allowed_halfOpen s now))"
  by (auto simp: sb_inv_def allowed_halfOpen_def)

lemma allowed_spec:
  assumes inv: "sb_inv s"
  shows "\<exists>s' b. allowed s now = Inr (s', b) \<and> sb_inv s' \<and>
    view_step (view_of s) (OAllowed now) = (view_of s', Some b)"
proof -
  from advance_spec [OF inv, of now] obtain t where
    t: "advance s now = Inr t" "sb_inv t" "view_tick now (view_of s) = view_of t" by metis
  note D = sb_invD [OF t(2)]
  have sum: "counter_Summary (windowCounter t) = Inr (window_sum (v_window (view_of t)))"
    using counter_Summary_window [OF D(1)] by (simp add: view_of_def window_of_def window_sum_def)
  show ?thesis
  proof (cases "state t")
    case StateClosed
    then show ?thesis using t sum
      by (auto simp: allowed_def view_of_def mode_of_def trips_def sb_inv_def not_less)
  next
    case StateOpen
    let ?h = "t\<lparr>state := StateHalfOpen, halfOpenSince := now, probeUsed := 0, probeSuccess := 0\<rparr>"
    have h: "sb_inv ?h" using t(2) by (simp add: sb_inv_def)
    show ?thesis
    proof (cases "openUntil t < now")
      case True
      have "allowed s now = Inr (allowed_halfOpen ?h now)"
        using StateOpen True t by (simp add: allowed_def)
      moreover have "sb_inv (fst (allowed_halfOpen ?h now))"
        using allowed_halfOpen_inv [OF h] by simp
      ultimately show ?thesis
        using StateOpen True t(3) allowed_halfOpen_mode [of ?h now] allowed_halfOpen_frame [of ?h now]
        by (cases "allowed_halfOpen ?h now") (simp add: view_of_def mode_of_def)
    next
      case False
      then show ?thesis using StateOpen t by (auto simp: allowed_def view_of_def mode_of_def)
    qed
  next
    case StateHalfOpen
    have "allowed s now = Inr (allowed_halfOpen t now)"
      using StateHalfOpen t by (simp add: allowed_def)
    moreover have "sb_inv (fst (allowed_halfOpen t now))"
      using allowed_halfOpen_inv [OF t(2) StateHalfOpen] .
    ultimately show ?thesis
      using StateHalfOpen t(3) allowed_halfOpen_mode [of t now] allowed_halfOpen_frame [of t now]
      by (cases "allowed_halfOpen t now") (simp add: view_of_def mode_of_def)
  qed
qed

lemma sb_record_spec:
  assumes inv: "sb_inv s"
  shows "\<exists>s'. sb_record s now m = Inr s' \<and> sb_inv s' \<and>
    view_step (view_of s) (ORecord now m) = (view_of s', None)"
proof -
  from advance_spec [OF inv, of now] obtain t where
    t: "advance s now = Inr t" "sb_inv t" "view_tick now (view_of s) = view_of t" by metis
  note D = sb_invD [OF t(2)]
  obtain c where ceq: "counter_record m (windowCounter t) = c" by simp
  have c: "counter_inv c" "window_of c = fst (window_step (window_of (windowCounter t)) (CRecord m))"
    using counter_record_window [OF D(1), of m] ceq by (simp_all add: window_of_def)
  have r: "counter_inv (counter_Reset c)" "window_of (counter_Reset c) = fst (window_step (window_of c) CReset)"
    using counter_Reset_window [OF c(1)] by (simp_all add: window_of_def)
  show ?thesis
  proof (cases "state t = StateHalfOpen")
    case True
    with t(2) have b: "probeSuccess t < st_halfOpenAllowed (sb_settings t)" "0 \<le> probeSuccess t"
      "0 \<le> probeUsed t" "probeUsed t \<le> st_halfOpenAllowed (sb_settings t)" by (auto simp: sb_inv_def)
    show ?thesis
      using True b t c r D ceq
      by (cases m) (auto simp: sb_record_def view_of_def mode_of_def sb_inv_def Let_def
          simp del: counter_record.simps)
  next
    case False
    then show ?thesis using t c D ceq
      by (cases "state t"; cases m)
         (auto simp: sb_record_def view_of_def mode_of_def sb_inv_def Let_def
            simp del: counter_record.simps)
  qed
qed

lemma sub_step_spec:
  assumes inv: "sb_inv s"
  shows "\<exists>s' x. sub_step s e = Inr (s', x) \<and> sb_inv s' \<and> view_step (view_of s) e = (view_of s', x)"
proof (cases e)
  case (OAllowed now)
  with allowed_spec [OF inv, of now] show ?thesis by (auto simp del: view_step.simps)
next
  case (ORecord now m)
  with sb_record_spec [OF inv, of now m] show ?thesis by (auto simp del: view_step.simps)
qed

interpretation sb: go_refinement sub_step sb_inv "\<lambda>_. True" view_of view_step
proof unfold_locales
  fix s e
  assume inv: "sb_inv s"
  from sub_step_spec [OF inv, of e]
  show "\<exists>s' x. sub_step s e = Inr (s', x) \<and> sb_inv s'" by blast
  fix s' x
  assume "sub_step s e = Inr (s', x)"
  with sub_step_spec [OF inv, of e] show "view_step (view_of s) e = (view_of s', x)" by auto
qed

end
