(* ===== verification/SubBreaker_Traces.thy ===== *)
theory SubBreaker_Traces
  imports SubBreaker
begin

section \<open>Runs of one breaker\<close>

text \<open>
  What the breaker of one endpoint promises over sequences of calls, derived from the
  refinement of \<open>SubBreaker\<close>: which state changes exist, what an open breaker lets through,
  how many probes a half-open one lets through, when it closes again, and what its window
  still holds after time has passed.
\<close>

subsection \<open>The view and the state\<close>

lemma state_mode_iff:
  "state s = StateClosed \<longleftrightarrow> mode_of s = Admitting"
  "state s = StateOpen \<longleftrightarrow> mode_of s = Rejecting (openUntil s)"
  "state s = StateHalfOpen \<longleftrightarrow> mode_of s = Probing (halfOpenSince s) (probeUsed s) (probeSuccess s)"
  by (cases "state s"; simp add: mode_of_def)+

lemma mode_of_D:
  "mode_of s = Admitting \<Longrightarrow> state s = StateClosed"
  "mode_of s = Rejecting u \<Longrightarrow> state s = StateOpen \<and> openUntil s = u"
  "mode_of s = Probing t n k \<Longrightarrow>
     state s = StateHalfOpen \<and> halfOpenSince s = t \<and> probeUsed s = n \<and> probeSuccess s = k"
  by (cases "state s"; simp add: mode_of_def)+

lemma view_of_sels [simp]:
  "v_settings (view_of s) = sb_settings s" "v_mode (view_of s) = mode_of s"
  "v_last (view_of s) = lastTick s" "v_window (view_of s) = window_of (windowCounter s)"
  by (simp_all add: view_of_def)

lemma view_tick_frame [simp]:
  "v_settings (view_tick now v) = v_settings v" "v_mode (view_tick now v) = v_mode v"
  by (simp_all add: view_tick_def Let_def)

text \<open>The window after a step depends on the mode only through a fresh start.\<close>

definition window_at :: "instant \<Rightarrow> subBreaker \<Rightarrow> window" where
  "window_at now s = v_window (view_tick now (view_of s))"

lemma view_step_mode:
  "v_mode (fst (view_step v (OAllowed now)))
     = fst (mode_allow (v_settings v) now (window_sum (v_window (view_tick now v))) (v_mode v))"
  "snd (view_step v (OAllowed now))
     = Some (snd (mode_allow (v_settings v) now (window_sum (v_window (view_tick now v))) (v_mode v)))"
  "v_mode (fst (view_step v (ORecord now m))) = fst (mode_record (v_settings v) now m (v_mode v))"
  "snd (view_step v (ORecord now m)) = None"
  by (simp_all add: Let_def split: prod.splits)

lemma view_step_settings: "v_settings (fst (view_step v e)) = v_settings v"
  by (cases e) (simp_all add: Let_def split: prod.splits)

lemma allowed_mode:
  assumes "sb_inv s"
  shows "\<exists>s'. sub_step s (OAllowed now) =
      Inr (s', Some (snd (mode_allow (sb_settings s) now (window_sum (window_at now s)) (mode_of s))))
    \<and> sb_inv s' \<and> sb_settings s' = sb_settings s
    \<and> mode_of s' = fst (mode_allow (sb_settings s) now (window_sum (window_at now s)) (mode_of s))"
  using sub_step_spec [OF assms, of "OAllowed now"] view_step_mode(1,2) [of "view_of s" now]
    view_step_settings [of "view_of s" "OAllowed now"]
  by (auto simp: window_at_def simp del: view_step.simps)

lemma record_mode:
  assumes "sb_inv s"
  shows "\<exists>s'. sub_step s (ORecord now m) = Inr (s', None) \<and> sb_inv s' \<and> sb_settings s' = sb_settings s
    \<and> mode_of s' = fst (mode_record (sb_settings s) now m (mode_of s))"
  using sub_step_spec [OF assms, of "ORecord now m"] view_step_mode(3,4) [of "view_of s" now m]
    view_step_settings [of "view_of s" "ORecord now m"]
  by (auto simp del: view_step.simps)

lemma step_settings:
  assumes "sb_inv s" "sub_step s e = Inr (s', x)"
  shows "sb_settings s' = sb_settings s \<and> sb_inv s'"
proof (cases e)
  case (OAllowed now)
  with allowed_mode [OF assms(1), of now] assms(2) show ?thesis by (auto simp del: sub_step.simps)
next
  case (ORecord now m)
  with record_mode [OF assms(1), of now m] assms(2) show ?thesis by (auto simp del: sub_step.simps)
qed

subsection \<open>The state graph\<close>

inductive edge :: "State \<Rightarrow> breaker_op \<Rightarrow> State \<Rightarrow> bool" where
  stay: "edge q e q"
| trip: "edge StateClosed (OAllowed now) StateOpen"
| probe: "edge StateOpen (OAllowed now) StateHalfOpen"
| expire: "edge StateHalfOpen (OAllowed now) StateOpen"
| fail: "m = NETWORK_FAILURE \<or> m = TIMEOUT \<Longrightarrow> edge StateHalfOpen (ORecord now m) StateOpen"
| heal: "edge StateHalfOpen (ORecord now SUCCESS) StateClosed"

inductive_cases edge_from_closed: "edge StateClosed e q"
inductive_cases edge_from_open: "edge StateOpen e q"
inductive_simps edge_record_simp: "edge q (ORecord now m) q'"

lemma mode_probe_cases:
  "mode_probe st now t n k = (Rejecting (now + st_openDuration st), False)
   \<or> mode_probe st now t n k = (Probing t (n + 1) k, True)
   \<or> mode_probe st now t n k = (Probing t n k, False)"
  by (simp add: mode_probe_def)

lemma allow_edge:
  assumes "sb_inv s" "sub_step s (OAllowed now) = Inr (s', x)"
  shows "edge (state s) (OAllowed now) (state s')"
proof (cases "mode_of s")
  case Admitting
  with assms allowed_mode [OF assms(1), of now] show ?thesis
    by (auto split: if_splits simp: edge.intros dest!: mode_of_D simp del: sub_step.simps)
next
  case (Rejecting u)
  with assms allowed_mode [OF assms(1), of now] mode_probe_cases [of "sb_settings s" now now 0 0]
  show ?thesis by (auto split: if_splits simp: edge.intros dest!: mode_of_D simp del: sub_step.simps)
next
  case (Probing t n k)
  with assms allowed_mode [OF assms(1), of now] mode_probe_cases [of "sb_settings s" now t n k]
  show ?thesis by (auto split: if_splits simp: edge.intros dest!: mode_of_D simp del: sub_step.simps)
qed

lemma record_edge:
  assumes "sb_inv s" "sub_step s (ORecord now m) = Inr (s', x)"
  shows "edge (state s) (ORecord now m) (state s')"
  using assms record_mode [OF assms(1), of now m]
  by (cases "mode_of s"; cases m) (auto split: if_splits simp: edge.intros dest!: mode_of_D simp del: sub_step.simps)

lemma step_edge: "sb_inv s \<Longrightarrow> sub_step s e = Inr (s', x) \<Longrightarrow> edge (state s) e (state s')"
  by (cases e) (auto simp: allow_edge record_edge simp del: sub_step.simps)

subsection \<open>Open\<close>

lemma open_step:
  assumes "sb_inv s" "state s = StateOpen" "op_time e \<le> openUntil s"
  shows "\<exists>s' x. sub_step s e = Inr (s', x) \<and> x \<noteq> Some True \<and> sb_inv s'
    \<and> state s' = StateOpen \<and> openUntil s' = openUntil s"
proof (cases e)
  case (OAllowed now)
  with assms allowed_mode [OF assms(1), of now] show ?thesis
    by (auto simp: state_mode_iff(2) dest!: mode_of_D simp del: sub_step.simps)
next
  case (ORecord now m)
  with assms record_mode [OF assms(1), of now m] show ?thesis
    by (cases m) (auto simp: state_mode_iff(2) dest!: mode_of_D simp del: sub_step.simps)
qed

lemma open_run:
  "sb_inv s \<Longrightarrow> state s = StateOpen \<Longrightarrow> \<forall>e \<in> set es. op_time e \<le> openUntil s \<Longrightarrow>
     \<exists>s' ys. go_run sub_step s es = Inr (s', ys) \<and> Some True \<notin> set ys \<and> sb_inv s'
       \<and> state s' = StateOpen \<and> openUntil s' = openUntil s"
proof (induction es arbitrary: s)
  case (Cons e es)
  then obtain s1 x where s1: "sub_step s e = Inr (s1, x)" "x \<noteq> Some True" "sb_inv s1"
    "state s1 = StateOpen" "openUntil s1 = openUntil s" using open_step [of s e] by auto
  moreover from Cons.IH [of s1] Cons.prems s1 obtain s' ys where
    "go_run sub_step s1 es = Inr (s', ys)" "Some True \<notin> set ys" "sb_inv s'"
    "state s' = StateOpen" "openUntil s' = openUntil s" by auto
  ultimately show ?case by auto
qed simp

subsection \<open>Half-open\<close>

text \<open>A run that starts, passes and ends in one state only.\<close>

fun stays :: "State \<Rightarrow> subBreaker \<Rightarrow> breaker_op list \<Rightarrow> bool" where
  "stays q s [] \<longleftrightarrow> state s = q"
| "stays q s (e # es) \<longleftrightarrow> state s = q \<and>
     (case sub_step s e of Inl p \<Rightarrow> False | Inr (s', x) \<Rightarrow> stays q s' es)"

fun is_success :: "breaker_op \<Rightarrow> bool" where
  "is_success (ORecord now SUCCESS) \<longleftrightarrow> True"
| "is_success e \<longleftrightarrow> False"

lemma is_success_iff: "is_success e \<longleftrightarrow> (\<exists>now. e = ORecord now SUCCESS)"
  by (cases e rule: is_success.cases) simp_all

lemma stays_state: "stays q s es \<Longrightarrow> state s = q"
  by (cases es) simp_all

lemma probing_step:
  assumes inv: "sb_inv s" and s: "mode_of s = Probing t n k"
    and step: "sub_step s e = Inr (s', x)" and s': "mode_of s' = Probing t' n' k'"
  shows "t' = t \<and> n' = n + (if x = Some True then 1 else 0)
    \<and> k' = k + (if is_success e then 1 else 0) \<and> n' \<le> st_halfOpenAllowed (sb_settings s)"
proof -
  from inv s have n: "n \<le> st_halfOpenAllowed (sb_settings s)"
    by (auto simp: sb_inv_def dest: mode_of_D)
  show ?thesis
  proof (cases e)
    case (OAllowed now)
    with allowed_mode [OF inv, of now] step s s' n show ?thesis
      by (auto simp: mode_probe_def split: if_splits simp del: sub_step.simps)
  next
    case (ORecord now m)
    with record_mode [OF inv, of now m] step s s' n show ?thesis
      by (cases m) (auto split: if_splits simp del: sub_step.simps)
  qed
qed

lemma probing_run:
  "sb_inv s \<Longrightarrow> stays StateHalfOpen s es \<Longrightarrow>
     \<exists>s' ys. go_run sub_step s es = Inr (s', ys) \<and> sb_inv s' \<and> state s' = StateHalfOpen
       \<and> sb_settings s' = sb_settings s \<and> halfOpenSince s' = halfOpenSince s
       \<and> probeUsed s' = probeUsed s + int (count_list ys (Some True))
       \<and> probeSuccess s' = probeSuccess s + int (length (filter is_success es))"
proof (induction es arbitrary: s)
  case (Cons e es)
  then obtain s1 x where s1: "sub_step s e = Inr (s1, x)" "stays StateHalfOpen s1 es"
    and s: "state s = StateHalfOpen" by (auto split: sum.splits)
  have m: "mode_of s = Probing (halfOpenSince s) (probeUsed s) (probeSuccess s)"
    "mode_of s1 = Probing (halfOpenSince s1) (probeUsed s1) (probeSuccess s1)"
    using s stays_state [OF s1(2)] by (simp_all add: state_mode_iff)
  from step_settings [OF Cons.prems(1) s1(1)] Cons.IH [of s1] s1(2) obtain s' ys where
    "go_run sub_step s1 es = Inr (s', ys)" "sb_inv s'" "state s' = StateHalfOpen"
    "sb_settings s' = sb_settings s" "halfOpenSince s' = halfOpenSince s1"
    "probeUsed s' = probeUsed s1 + int (count_list ys (Some True))"
    "probeSuccess s' = probeSuccess s1 + int (length (filter is_success es))" by auto
  with s1(1) probing_step [OF Cons.prems(1) m(1) s1(1) m(2)] show ?case by simp
qed simp

lemma heal_step:
  assumes inv: "sb_inv s" and s: "state s = StateHalfOpen"
    and step: "sub_step s e = Inr (s', x)" and s': "state s' = StateClosed"
  shows "is_success e \<and> probeSuccess s + 1 = st_halfOpenAllowed (sb_settings s)
    \<and> slices (windowCounter s') = [] \<and> current (windowCounter s') = zero_unit"
proof -
  have m: "mode_of s = Probing (halfOpenSince s) (probeUsed s) (probeSuccess s)"
    "mode_of s' = Admitting" using s s' by (simp_all add: state_mode_iff)
  from inv s have k: "probeSuccess s < st_halfOpenAllowed (sb_settings s)" by (simp add: sb_inv_def)
  from step_edge [OF inv step] s s' obtain now where e: "e = ORecord now SUCCESS"
    by (auto elim: edge.cases)
  have v: "view_step (view_of s) e = (view_of s', x)"
    using sub_step_spec [OF inv, of e] step by auto
  obtain cap us cur where w: "v_window (view_tick now (view_of s)) = (cap, us, cur)"
    by (cases "v_window (view_tick now (view_of s))")
  from v have "v_mode (fst (view_step (view_of s) e)) = mode_of s'" by simp
  with e m have "\<not> probeSuccess s + 1 < st_halfOpenAllowed (sb_settings s)"
    by (simp add: view_step_mode(3) split: if_splits del: view_step.simps)
  moreover from v have "v_window (fst (view_step (view_of s) e)) = window_of (windowCounter s')"
    by simp
  moreover from \<open>\<not> _\<close> have "v_window (fst (view_step (view_of s) e)) = (cap, [], zero_unit)"
    by (simp add: e m(1) w Let_def)
  ultimately show ?thesis using k e by (simp add: window_of_def)
qed

text \<open>Once every probe is used, nothing more is let through before the deadline.\<close>

fun waits :: "instant \<Rightarrow> duration \<Rightarrow> breaker_op \<Rightarrow> bool" where
  "waits since d (OAllowed now) \<longleftrightarrow> time_Sub now since \<le> d"
| "waits since d (ORecord now m) \<longleftrightarrow> m = BUSINESS_FAILURE"

lemma exhausted_run:
  "sb_inv s \<Longrightarrow> state s = StateHalfOpen \<Longrightarrow> probeUsed s = st_halfOpenAllowed (sb_settings s) \<Longrightarrow>
   \<forall>e \<in> set es. waits (halfOpenSince s) (st_halfOpenMaxDuration (sb_settings s)) e \<Longrightarrow>
     \<exists>s' ys. go_run sub_step s es = Inr (s', ys) \<and> Some True \<notin> set ys \<and> mode_of s' = mode_of s"
proof (induction es arbitrary: s)
  case (Cons e es)
  have m: "mode_of s = Probing (halfOpenSince s) (probeUsed s) (probeSuccess s)"
    using Cons.prems by (simp add: state_mode_iff)
  have "\<exists>s1 x. sub_step s e = Inr (s1, x) \<and> x \<noteq> Some True \<and> sb_inv s1
      \<and> sb_settings s1 = sb_settings s \<and> mode_of s1 = mode_of s"
  proof (cases e)
    case (OAllowed now)
    with allowed_mode [OF Cons.prems(1), of now] Cons.prems m show ?thesis
      by (auto simp: mode_probe_def simp del: sub_step.simps)
  next
    case (ORecord now r)
    with record_mode [OF Cons.prems(1), of now r] Cons.prems m show ?thesis
      by (auto simp del: sub_step.simps)
  qed
  then obtain s1 x where s1: "sub_step s e = Inr (s1, x)" "x \<noteq> Some True" "sb_inv s1"
    "sb_settings s1 = sb_settings s" "mode_of s1 = mode_of s" by blast
  from mode_of_D(3) [of s1] s1(5) m have "state s1 = StateHalfOpen"
    "halfOpenSince s1 = halfOpenSince s" "probeUsed s1 = probeUsed s" by auto
  with Cons.IH [of s1] Cons.prems s1 obtain s' ys where
    "go_run sub_step s1 es = Inr (s', ys)" "Some True \<notin> set ys" "mode_of s' = mode_of s" by auto
  with s1 show ?case by auto
qed simp

subsection \<open>Recovery\<close>

definition probe_rounds :: "instant list \<Rightarrow> breaker_op list" where
  "probe_rounds ts = concat (map (\<lambda>t. [OAllowed t, ORecord t SUCCESS]) ts)"

lemma probe_round:
  assumes inv: "sb_inv s" and m: "mode_of s = Probing since n n"
    and n: "n < st_halfOpenAllowed (sb_settings s)"
    and t: "time_Sub t since \<le> st_halfOpenMaxDuration (sb_settings s)"
  shows "\<exists>s'. go_run sub_step s [OAllowed t, ORecord t SUCCESS] = Inr (s', [Some True, None])
    \<and> sb_inv s' \<and> sb_settings s' = sb_settings s
    \<and> mode_of s' = (if n + 1 < st_halfOpenAllowed (sb_settings s)
                    then Probing since (n + 1) (n + 1) else Admitting)"
proof -
  from allowed_mode [OF inv, of t] m n t obtain s1 where
    s1: "sub_step s (OAllowed t) = Inr (s1, Some True)" "sb_inv s1"
    "sb_settings s1 = sb_settings s" "mode_of s1 = Probing since (n + 1) n"
    by (auto simp: mode_probe_def simp del: sub_step.simps)
  with record_mode [OF s1(2), of t SUCCESS] show ?thesis
    by (auto simp del: sub_step.simps)
qed

lemma probing_recovers:
  "sb_inv s \<Longrightarrow> mode_of s = Probing since n n \<Longrightarrow> ts \<noteq> [] \<Longrightarrow>
   n + int (length ts) = st_halfOpenAllowed (sb_settings s) \<Longrightarrow>
   \<forall>t \<in> set ts. time_Sub t since \<le> st_halfOpenMaxDuration (sb_settings s) \<Longrightarrow>
     \<exists>s' ys. go_run sub_step s (probe_rounds ts) = Inr (s', ys) \<and> Some False \<notin> set ys
       \<and> sb_inv s' \<and> state s' = StateClosed"
proof (induction ts arbitrary: s n)
  case (Cons t ts)
  have n: "n < st_halfOpenAllowed (sb_settings s)" using Cons.prems(4) by simp
  from Cons.prems(5) have t: "time_Sub t since \<le> st_halfOpenMaxDuration (sb_settings s)" by simp
  from probe_round [OF Cons.prems(1,2) n t] obtain s1 where
    s1: "go_run sub_step s [OAllowed t, ORecord t SUCCESS] = Inr (s1, [Some True, None])" "sb_inv s1"
    "sb_settings s1 = sb_settings s" "mode_of s1 = (if n + 1 < st_halfOpenAllowed (sb_settings s)
       then Probing since (n + 1) (n + 1) else Admitting)" by blast
  have rounds: "probe_rounds (t # ts) = [OAllowed t, ORecord t SUCCESS] @ probe_rounds ts"
    by (simp add: probe_rounds_def)
  show ?case
  proof (cases "ts = []")
    case True
    with s1(2,4) Cons.prems(4) show ?thesis
      unfolding rounds go_run_append s1(1) by (simp add: probe_rounds_def mode_of_D)
  next
    case False
    with Cons.prems s1 have "mode_of s1 = Probing since (n + 1) (n + 1)"
      by (cases ts) simp_all
    from Cons.IH [OF s1(2) this False] Cons.prems s1(3) obtain s' ys where
      "go_run sub_step s1 (probe_rounds ts) = Inr (s', ys)" "Some False \<notin> set ys" "sb_inv s'"
      "state s' = StateClosed" by auto
    then show ?thesis unfolding rounds go_run_append s1(1) by simp
  qed
qed simp

subsection \<open>Closed: the decision\<close>

lemma uint_add_small: "uint a + uint b < 2 ^ 63 \<Longrightarrow> uint (a + b :: 64 word) = uint a + uint b"
  by (simp add: uint_word_ariths)

lemma sint_small: "uint (a :: 64 word) < 2 ^ 63 \<Longrightarrow> sint a = uint a"
  by (simp add: sint_uint signed_take_bit_int_eq_self order_trans [OF _ uint_ge_0])

definition small_unit :: "StatisticalUnit \<Rightarrow> bool" where
  "small_unit u \<longleftrightarrow> uint (Success u) + uint (BusinessFailure u) + uint (NetworkFailure u)
     + uint (Timeout u) < 2 ^ 52"

lemma small_unit_counts:
  assumes "balanced u" "small_unit u"
  shows "sint (Total u) = uint (Success u) + uint (BusinessFailure u) + uint (NetworkFailure u) + uint (Timeout u)"
    "sint (NetworkFailure u + Timeout u) = uint (NetworkFailure u) + uint (Timeout u)"
proof -
  note ge0 = uint_ge_0 [of "Success u"] uint_ge_0 [of "BusinessFailure u"]
    uint_ge_0 [of "NetworkFailure u"] uint_ge_0 [of "Timeout u"]
  from assms(2) have b: "uint (Success u) + uint (BusinessFailure u) + uint (NetworkFailure u)
     + uint (Timeout u) < 2 ^ 52" by (simp add: small_unit_def)
  have p: "(2 ^ 52 :: int) < 2 ^ 63" by simp
  have sb: "uint (Success u + BusinessFailure u) = uint (Success u) + uint (BusinessFailure u)"
    by (rule uint_add_small) (use b p ge0 in linarith)
  have sbn: "uint (Success u + BusinessFailure u + NetworkFailure u)
      = uint (Success u) + uint (BusinessFailure u) + uint (NetworkFailure u)"
    by (subst uint_add_small) (use b p ge0 sb in linarith)+
  have t: "uint (Total u) = uint (Success u) + uint (BusinessFailure u) + uint (NetworkFailure u) + uint (Timeout u)"
    unfolding assms(1) [unfolded balanced_def]
    by (subst uint_add_small) (use b p ge0 sbn in linarith)+
  have f: "uint (NetworkFailure u + Timeout u) = uint (NetworkFailure u) + uint (Timeout u)"
    by (rule uint_add_small) (use b p ge0 in linarith)
  show "sint (Total u) = uint (Success u) + uint (BusinessFailure u) + uint (NetworkFailure u) + uint (Timeout u)"
    by (subst sint_small) (use b p t in linarith)+
  show "sint (NetworkFailure u + Timeout u) = uint (NetworkFailure u) + uint (Timeout u)"
    by (subst sint_small) (use b p ge0 f in linarith)+
qed

lemma trips_half:
  assumes "balanced u" "small_unit u" "st_failureRateThreshold st = F_Fin (1 / 2)"
  shows "trips st u \<longleftrightarrow> st_minRequestCount st \<le> sint (Total u)
    \<and> sint (Total u) < 2 * (uint (NetworkFailure u) + uint (Timeout u))"
proof -
  note c = small_unit_counts [OF assms(1,2)]
  note ge0 = uint_ge_0 [of "Success u"] uint_ge_0 [of "BusinessFailure u"]
    uint_ge_0 [of "NetworkFailure u"] uint_ge_0 [of "Timeout u"]
  have bound: "sint (Total u) < 2 ^ 52" using assms(2) c(1) by (simp add: small_unit_def)
  show ?thesis
  proof (cases "sint (Total u) = 0")
    case True
    with c ge0 have "uint (NetworkFailure u) = 0" "uint (Timeout u) = 0" by linarith+
    with True c show ?thesis by (simp add: trips_def failureRate_def f64_quot_def rnd64_def)
  next
    case False
    with c ge0 have "0 < sint (Total u)" by linarith
    then have "f64_gt (failureRate u) (F_Fin (1 / 2))
        \<longleftrightarrow> sint (Total u) < 2 * (uint (NetworkFailure u) + uint (Timeout u))"
      unfolding failureRate_def c(2) using bound ge0 c(1) by (intro f64_gt_half) auto
    with assms(3) show ?thesis by (simp add: trips_def)
  qed
qed

lemma closed_decision:
  assumes inv: "sb_inv s" and s: "state s = StateClosed"
  shows "\<exists>s'. sub_step s (OAllowed now) =
      Inr (s', Some (\<not> trips (sb_settings s) (window_sum (window_at now s)))) \<and> sb_inv s'
    \<and> mode_of s' = (if trips (sb_settings s) (window_sum (window_at now s))
        then Rejecting (now + st_openDuration (sb_settings s)) else Admitting)"
  using allowed_mode [OF inv, of now] s
  by (auto simp: state_mode_iff(1) simp del: sub_step.simps)

lemma window_at_balanced:
  assumes "sb_inv s"
  shows "balanced (window_sum (window_at now s))"
proof -
  from advance_spec [OF assms, of now] obtain t where
    t: "sb_inv t" "view_tick now (view_of s) = view_of t" by metis
  from counter_invD(3,4) [OF sb_invD(1) [OF t(1)]] show ?thesis
    by (simp add: window_at_def t(2) window_of_def window_sum_def units_sum_balanced)
qed

subsection \<open>The window\<close>

lemma advance_shift:
  assumes inv: "sb_inv s" and late: "st_interval (sb_settings s) \<le> time_Sub now (lastTick s)"
  shows "\<exists>s'. advance s now = Inr s' \<and> sb_inv s' \<and> lastTick s' = now \<and> mode_of s' = mode_of s
    \<and> current (windowCounter s') = zero_unit
    \<and> slices (windowCounter s') = take (window_cap (windowCounter s))
        (slices (windowCounter s)
         @ replicate (nat (time_Sub now (lastTick s) div st_interval (sb_settings s)) - 1) zero_unit
         @ [current (windowCounter s)])"
  using advance_spec [OF inv, of now] late
  by (auto simp: view_tick_def view_of_def Let_def window_of_def)

lemma window_step_full:
  assumes inv: "sb_inv s" and s: "state s = StateClosed" "state s' = StateClosed"
    and full: "length (slices (windowCounter s)) = window_cap (windowCounter s)"
    and step: "sub_step s e = Inr (s', x)"
  shows "slices (windowCounter s') = slices (windowCounter s)
    \<and> window_cap (windowCounter s') = window_cap (windowCounter s)"
proof -
  have "view_step (view_of s) e = (view_of s', x)"
    using sub_step_spec [OF inv, of e] step by auto
  then have w: "v_window (fst (view_step (view_of s) e)) = window_of (windowCounter s')" by simp
  define cur where "cur now = (if time_Sub now (lastTick s) < st_interval (sb_settings s)
    then current (windowCounter s) else zero_unit)" for now
  have t: "v_window (view_tick now (view_of s)) =
      (window_cap (windowCounter s), slices (windowCounter s), cur now)" for now
    using full by (simp add: view_tick_def window_of_def Let_def cur_def)
  have m: "mode_of s = Admitting" using s by (simp add: state_mode_iff)
  show ?thesis
  proof (cases e)
    case (OAllowed now)
    with w t [of now] show ?thesis by (simp add: window_of_def Let_def split: prod.splits)
  next
    case (ORecord now r)
    with w t [of now] m show ?thesis by (cases r) (simp_all add: window_of_def Let_def)
  qed
qed

lemma frozen_run:
  "sb_inv s \<Longrightarrow> stays StateClosed s es \<Longrightarrow>
   length (slices (windowCounter s)) = window_cap (windowCounter s) \<Longrightarrow>
     \<exists>s' ys. go_run sub_step s es = Inr (s', ys) \<and> sb_inv s' \<and> slices (windowCounter s') = slices (windowCounter s)"
proof (induction es arbitrary: s)
  case (Cons e es)
  then obtain s1 x where s1: "sub_step s e = Inr (s1, x)" "stays StateClosed s1 es"
    and s: "state s = StateClosed" by (auto split: sum.splits)
  from window_step_full [OF Cons.prems(1) s stays_state [OF s1(2)] Cons.prems(3) s1(1)]
    step_settings [OF Cons.prems(1) s1(1)] Cons.IH [OF _ s1(2)] Cons.prems(3) s1(1)
  show ?case by auto
qed simp

subsection \<open>Window sizes the breaker does not survive\<close>

lemma new_negative_panics:
  assumes "- (2 ^ 63) \<le> opt_windowCapacity opts" "opt_windowCapacity opts \<le> - 2"
  shows "newSubBreaker opts now = Inl MakeSliceLenOutOfRange"
proof -
  have "i64 (opt_windowCapacity opts + 1) = opt_windowCapacity opts + 1"
    using assms by (intro i64_id) auto
  with assms show ?thesis
    by (simp add: newSubBreaker_def NewCounter_def NewCircularQueue_def go_make_def)
qed

lemma step_advance_panics: "advance s (op_time e) = Inl p \<Longrightarrow> sub_step s e = Inl p"
  by (cases e) (simp_all add: allowed_def sb_record_def)

lemma zero_window_panics:
  assumes w: "opt_windowCapacity opts = 0 \<or> opt_windowCapacity opts = - 1"
    and late: "t0 \<le> op_time e"
  shows "\<exists>s. newSubBreaker opts t0 = Inr s \<and> sub_step s e = Inl IntegerDivideByZero"
proof -
  define s where "s = \<lparr>state = StateClosed, openUntil = zero_time, halfOpenSince = zero_time,
    probeUsed = 0, probeSuccess = 0, lastTick = t0, sb_settings = newSettings opts,
    windowCounter = \<lparr>current = zero_unit, units =
      \<lparr>elements = replicate (nat (opt_windowCapacity opts + 1)) None, front = 0, rear = 0,
       capacity = opt_windowCapacity opts + 1\<rparr>\<rparr>\<rparr>"
  have "i64 (opt_windowCapacity opts + 1) = opt_windowCapacity opts + 1"
    using w by (intro i64_id) auto
  with w have new: "newSubBreaker opts t0 = Inr s"
    by (auto simp: newSubBreaker_def NewCounter_def NewCircularQueue_def go_make_def s_def)
  have sub: "0 \<le> time_Sub (op_time e) t0" using late by (simp add: time_Sub_nonneg_iff)
  have "advance s (op_time e) = Inl IntegerDivideByZero"
  proof (cases "opt_windowCapacity opts = 0")
    case True
    with sub show ?thesis
      by (simp add: advance_def s_def newSettings_def i64_def go_quot_def)
  next
    case False
    with w have m: "opt_windowCapacity opts = - 1" by simp
    have i: "i64 (- time_Second) = - time_Second"
      by (intro i64_id) (simp_all add: time_Second_def)
    define d where "d = time_Sub (op_time e) t0"
    have d: "0 \<le> d" using sub by (simp add: d_def)
    have q: "go_quot d (- time_Second) = Inr (- (d div time_Second))"
      using d by (auto simp: go_quot_def time_Second_def sgn_if)
    have lt: "\<not> d < - time_Second" and n: "nat (- (d div time_Second) - 1) = 0"
      using d by (simp_all add: time_Second_def pos_imp_zdiv_nonneg_iff)
    have "st_interval (sb_settings s) = - time_Second" "lastTick s = t0"
      "windowCounter s = \<lparr>current = zero_unit, units =
        \<lparr>elements = [], front = 0, rear = 0, capacity = 0\<rparr>\<rparr>"
      using m i by (simp_all add: s_def newSettings_def)
    with q lt n show ?thesis
      by (simp add: advance_def d_def [symmetric] counter_Flush_def cq_Enqueue_def cq_Full_def)
  qed
  with new step_advance_panics show ?thesis by blast
qed

end
