(* ===== verification/Breaker.thy ===== *)
theory Breaker
  imports SubBreaker_Traces
begin

section \<open>The breaker of the proxy: one circuit per endpoint\<close>

text \<open>
  \<open>internal/cli/breaker/breaker.go\<close>. The map holds one pointer per key, never shared between
  keys, so a map of values models it. \<open>Allowed\<close> and \<open>record\<close> hold the mutex for the whole
  call. A call reads the clock when it makes a breaker (in \<open>newSubBreaker\<close>) and again for
  the operation; both readings are arguments.
\<close>

record Breaker =
  br_opts :: Options
  breakers :: "string \<rightharpoonup> subBreaker"

definition NewBreaker :: "Options \<Rightarrow> Breaker" where
  "NewBreaker opts = \<lparr>br_opts = opts, breakers = Map.empty\<rparr>"

definition breaker_sub :: "Breaker \<Rightarrow> string \<Rightarrow> instant \<Rightarrow> subBreaker go" where
  "breaker_sub b key tNew =
     (case breakers b key of None \<Rightarrow> newSubBreaker (br_opts b) tNew | Some sb \<Rightarrow> Inr sb)"

definition breaker_Allowed :: "Breaker \<Rightarrow> string \<Rightarrow> instant \<Rightarrow> instant \<Rightarrow> (Breaker \<times> bool) go" where
  "breaker_Allowed b key tNew now =
     go_bind (breaker_sub b key tNew) (\<lambda>sb.
     go_bind (allowed sb now) (\<lambda>(sb', r). Inr (b\<lparr>breakers := (breakers b)(key \<mapsto> sb')\<rparr>, r)))"

definition breaker_record :: "Breaker \<Rightarrow> string \<Rightarrow> instant \<Rightarrow> instant \<Rightarrow> Metric \<Rightarrow> Breaker go" where
  "breaker_record b key tNew now result =
     go_bind (breaker_sub b key tNew) (\<lambda>sb.
     go_bind (sb_record sb now result) (\<lambda>sb'. Inr (b\<lparr>breakers := (breakers b)(key \<mapsto> sb')\<rparr>)))"

definition breaker_RecordSuccess :: "Breaker \<Rightarrow> string \<Rightarrow> instant \<Rightarrow> instant \<Rightarrow> Breaker go" where
  "breaker_RecordSuccess b key tNew now = breaker_record b key tNew now SUCCESS"

definition breaker_RecordNetworkFailure :: "Breaker \<Rightarrow> string \<Rightarrow> instant \<Rightarrow> instant \<Rightarrow> Breaker go" where
  "breaker_RecordNetworkFailure b key tNew now = breaker_record b key tNew now NETWORK_FAILURE"

definition breaker_RecordTimeout :: "Breaker \<Rightarrow> string \<Rightarrow> instant \<Rightarrow> instant \<Rightarrow> Breaker go" where
  "breaker_RecordTimeout b key tNew now = breaker_record b key tNew now TIMEOUT"

definition breaker_RecordBusinessFailure :: "Breaker \<Rightarrow> string \<Rightarrow> instant \<Rightarrow> instant \<Rightarrow> Breaker go" where
  "breaker_RecordBusinessFailure b key tNew now = breaker_record b key tNew now BUSINESS_FAILURE"

subsection \<open>Keyed runs\<close>

text \<open>A call: its key, the clock reading for a new breaker, and the operation with its own.\<close>

type_synonym keyed_op = "string \<times> instant \<times> breaker_op"

fun breaker_step :: "Breaker \<Rightarrow> keyed_op \<Rightarrow> (Breaker \<times> bool option) go" where
  "breaker_step b (key, tNew, OAllowed now) =
     go_bind (breaker_Allowed b key tNew now) (\<lambda>(b', r). Inr (b', Some r))"
| "breaker_step b (key, tNew, ORecord now m) =
     go_bind (breaker_record b key tNew now m) (\<lambda>b'. Inr (b', None))"

definition breaker_inv :: "Breaker \<Rightarrow> bool" where
  "breaker_inv b \<longleftrightarrow> good_options (br_opts b) \<and> (\<forall>k s. breakers b k = Some s \<longrightarrow> sb_inv s)"

lemma breaker_step_sub:
  "breaker_step b (key, tNew, e) =
     go_bind (breaker_sub b key tNew) (\<lambda>sb.
     go_bind (sub_step sb e) (\<lambda>(sb', x). Inr (b\<lparr>breakers := (breakers b)(key \<mapsto> sb')\<rparr>, x)))"
  by (cases e) (simp_all add: breaker_Allowed_def breaker_record_def go_bind_assoc case_prod_beta)

lemma breaker_sub_inv:
  assumes "breaker_inv b"
  shows "\<exists>s. breaker_sub b key tNew = Inr s \<and> sb_inv s"
proof (cases "breakers b key")
  case None
  with assms newSubBreaker_inv [of "br_opts b" tNew] show ?thesis
    by (auto simp: breaker_inv_def breaker_sub_def)
next
  case (Some s)
  with assms show ?thesis by (auto simp: breaker_inv_def breaker_sub_def)
qed

lemma NewBreaker_inv: "good_options opts \<Longrightarrow> breaker_inv (NewBreaker opts)"
  by (simp add: breaker_inv_def NewBreaker_def)

interpretation br: go_machine breaker_step breaker_inv "\<lambda>_. True"
proof unfold_locales
  fix b :: Breaker and e :: keyed_op
  assume inv: "breaker_inv b"
  obtain key tNew op where e: "e = (key, tNew, op)" by (cases e)
  from breaker_sub_inv [OF inv] obtain s where s: "breaker_sub b key tNew = Inr s" "sb_inv s" by blast
  from sub_step_spec [OF s(2), of op] obtain s' x where "sub_step s op = Inr (s', x)" "sb_inv s'" by blast
  with s inv show "\<exists>b' x. breaker_step b e = Inr (b', x) \<and> breaker_inv b'"
    by (auto simp: e breaker_step_sub breaker_inv_def)
qed

text \<open>
  The calls for one key, and their answers, are a run of that key's own breaker: circuits do
  not influence each other, whatever the interleaving.
\<close>

definition of_key :: "string \<Rightarrow> keyed_op list \<Rightarrow> keyed_op list" where
  "of_key k es = filter (\<lambda>e. fst e = k) es"

definition answers_of :: "string \<Rightarrow> keyed_op list \<Rightarrow> bool option list \<Rightarrow> bool option list" where
  "answers_of k es ys = map snd (filter (\<lambda>(e, y). fst e = k) (zip es ys))"

definition ops_of :: "keyed_op list \<Rightarrow> breaker_op list" where
  "ops_of es = map (\<lambda>(k, t, e). e) es"

lemma keyed_run:
  assumes "go_run breaker_step b es = Inr (b', ys)"
  shows "br_opts b' = br_opts b \<and>
    (of_key k es = [] \<longrightarrow> breakers b' k = breakers b k) \<and>
    (\<forall>t e rest. of_key k es = (k, t, e) # rest \<longrightarrow>
      (\<exists>s s'. breaker_sub b k t = Inr s \<and> breakers b' k = Some s' \<and>
        go_run sub_step s (ops_of (of_key k es)) = Inr (s', answers_of k es ys)))"
  using assms
proof (induction es arbitrary: b ys)
  case Nil
  then show ?case by (simp add: of_key_def)
next
  case (Cons e es)
  obtain key tNew op where e: "e = (key, tNew, op)" by (cases e)
  from Cons.prems obtain b1 x xs where b1: "breaker_step b e = Inr (b1, x)"
    "go_run breaker_step b1 es = Inr (b', xs)" "ys = x # xs" by (rule go_run_ConsE)
  from b1(1) obtain sb sb' where sb: "breaker_sub b key tNew = Inr sb" "sub_step sb op = Inr (sb', x)"
    "b1 = b\<lparr>breakers := (breakers b)(key \<mapsto> sb')\<rparr>"
    by (auto simp: e breaker_step_sub go_bind_Inr_iff)
  note IH = Cons.IH [OF b1(2)]
  show ?case
  proof (cases "key = k")
    case False
    with sb have "breaker_sub b1 k t = breaker_sub b k t" for t
      by (cases "breakers b k") (simp_all add: breaker_sub_def)
    with IH False sb(3) b1(3) show ?thesis by (simp add: of_key_def answers_of_def e)
  next
    case True
    with sb have sub: "breaker_sub b1 k t = Inr sb'" for t by (simp add: breaker_sub_def)
    show ?thesis
    proof (cases "of_key k es")
      case Nil
      then have "answers_of k es xs = []"
        by (auto simp: of_key_def answers_of_def filter_empty_conv dest: set_zip_leftD)
      with Nil IH sb True b1(3) show ?thesis
        by (auto simp: of_key_def answers_of_def ops_of_def e)
    next
      case (Cons a rest)
      then have "a \<in> set (of_key k es)" by simp
      then have "fst a = k" by (simp add: of_key_def)
      with Cons IH sub sb(2) obtain s' where "breakers b' k = Some s'"
        "go_run sub_step sb' (ops_of (of_key k es)) = Inr (s', answers_of k es xs)"
        by (cases a) auto
      with sb True IH b1(3) show ?thesis
        by (simp add: of_key_def answers_of_def ops_of_def e)
    qed
  qed
qed

end
