(* ===== verification/Circular_Queue_AI.thy ===== *)
theory Circular_Queue_AI
  imports Bounded_Fifo
begin

section \<open>The second ring buffer\<close>

text \<open>
  \<open>pkg/datastruct/queue/ai_implementation/circular_queue.go\<close>: a ring buffer that counts its
  values in \<open>size\<close> instead of keeping a free slot, reports errors instead of booleans, and
  rewinds to slot 0 when it becomes empty. The read-write mutex makes every method atomic,
  so a method is one function here.
\<close>

datatype aq_error = ErrInvalidCapacity | ErrQueueFull | ErrQueueEmpty

record 'a AQueue =
  aq_buffer :: "'a list"
  aq_head :: int
  aq_tail :: int
  aq_size :: int
  aq_capacity :: int

definition aq_New :: "'a \<Rightarrow> int \<Rightarrow> (aq_error + 'a AQueue) go" where
  "aq_New zero cap =
     (if cap \<le> 0 then Inr (Inl ErrInvalidCapacity)
      else go_bind (go_make zero cap)
        (\<lambda>xs. Inr (Inr \<lparr>aq_buffer = xs, aq_head = 0, aq_tail = 0, aq_size = 0, aq_capacity = cap\<rparr>)))"

definition aq_Enqueue :: "'a AQueue \<Rightarrow> 'a \<Rightarrow> ('a AQueue \<times> aq_error option) go" where
  "aq_Enqueue q value =
     (if aq_size q = aq_capacity q then Inr (q, Some ErrQueueFull)
      else go_bind (go_store (aq_buffer q) (aq_tail q) value) (\<lambda>xs.
           go_bind (go_rem (aq_tail q + 1) (aq_capacity q)) (\<lambda>t.
           Inr (q\<lparr>aq_buffer := xs, aq_tail := t, aq_size := aq_size q + 1\<rparr>, None))))"

definition aq_Dequeue :: "'a \<Rightarrow> 'a AQueue \<Rightarrow> ('a AQueue \<times> 'a \<times> aq_error option) go" where
  "aq_Dequeue zero q =
     (if aq_size q = 0 then Inr (q, zero, Some ErrQueueEmpty)
      else go_bind (go_index (aq_buffer q) (aq_head q)) (\<lambda>value.
           go_bind (go_rem (aq_head q + 1) (aq_capacity q)) (\<lambda>h.
           let q' = q\<lparr>aq_head := h, aq_size := aq_size q - 1\<rparr>
           in Inr (if aq_size q' = 0 then q'\<lparr>aq_head := 0, aq_tail := 0\<rparr> else q', value, None))))"

definition aq_Peek :: "'a \<Rightarrow> 'a AQueue \<Rightarrow> ('a \<times> aq_error option) go" where
  "aq_Peek zero q =
     (if aq_size q = 0 then Inr (zero, Some ErrQueueEmpty)
      else go_bind (go_index (aq_buffer q) (aq_head q)) (\<lambda>v. Inr (v, None)))"

definition aq_Len :: "'a AQueue \<Rightarrow> int" where "aq_Len q = aq_size q"
definition aq_Cap :: "'a AQueue \<Rightarrow> int" where "aq_Cap q = aq_capacity q"
definition aq_IsEmpty :: "'a AQueue \<Rightarrow> bool" where "aq_IsEmpty q \<longleftrightarrow> aq_size q = 0"
definition aq_IsFull :: "'a AQueue \<Rightarrow> bool" where "aq_IsFull q \<longleftrightarrow> aq_size q = aq_capacity q"

definition aq_Clear :: "'a \<Rightarrow> 'a AQueue \<Rightarrow> 'a AQueue" where
  "aq_Clear zero q = q\<lparr>aq_head := 0, aq_tail := 0, aq_size := 0,
     aq_buffer := map (\<lambda>_. zero) (aq_buffer q)\<rparr>"

subsection \<open>Invariant and abstraction\<close>

definition aq_inv :: "'a AQueue \<Rightarrow> bool" where
  "aq_inv q \<longleftrightarrow> 1 \<le> aq_capacity q \<and> int (length (aq_buffer q)) = aq_capacity q
     \<and> 0 \<le> aq_head q \<and> aq_head q < aq_capacity q
     \<and> 0 \<le> aq_size q \<and> aq_size q \<le> aq_capacity q
     \<and> aq_tail q = (aq_head q + aq_size q) mod aq_capacity q"

definition aq_slot :: "'a AQueue \<Rightarrow> nat \<Rightarrow> 'a" where
  "aq_slot q i = aq_buffer q ! nat ((aq_head q + int i) mod aq_capacity q)"

definition aq_contents :: "'a AQueue \<Rightarrow> 'a list" where
  "aq_contents q = map (aq_slot q) [0..<nat (aq_size q)]"

definition aq_cap :: "'a AQueue \<Rightarrow> nat" where
  "aq_cap q = nat (aq_capacity q)"

lemma length_aq_contents [simp]: "length (aq_contents q) = nat (aq_size q)"
  by (simp add: aq_contents_def)

lemma aq_New_inv:
  "0 < cap \<Longrightarrow> \<exists>q. aq_New zero cap = Inr (Inr q) \<and> aq_inv q \<and> aq_contents q = [] \<and> aq_cap q = nat cap"
  by (auto simp: aq_New_def go_make_def aq_inv_def aq_contents_def aq_cap_def)

lemma aq_Enqueue_room:
  assumes inv: "aq_inv q" and room: "length (aq_contents q) < aq_cap q"
  shows "\<exists>q'. aq_Enqueue q x = Inr (q', None) \<and> aq_inv q' \<and>
    aq_contents q' = aq_contents q @ [x] \<and> aq_cap q' = aq_cap q"
proof -
  let ?c = "aq_capacity q" and ?n = "nat (aq_size q)" and ?t = "aq_tail q"
  let ?q' = "q\<lparr>aq_buffer := (aq_buffer q)[nat ?t := x], aq_tail := (?t + 1) mod ?c,
    aq_size := aq_size q + 1\<rparr>"
  from inv have c: "0 < ?c" "int (length (aq_buffer q)) = ?c" "0 \<le> aq_size q"
    and t: "?t = (aq_head q + int ?n) mod ?c" by (auto simp: aq_inv_def)
  have t01: "0 \<le> ?t" "?t < ?c" using c t by simp_all
  have small: "aq_size q < ?c" using room c by (simp add: aq_cap_def)
  have enq: "aq_Enqueue q x = Inr (?q', None)"
    using c t01 small by (simp add: aq_Enqueue_def)
  have inv': "aq_inv ?q'"
    using inv small t by (simp add: aq_inv_def mod_simps algebra_simps)
  have slot: "aq_slot ?q' i = (if i = ?n then x else aq_slot q i)" if "i \<le> ?n" for i
  proof -
    define j where "j = (aq_head q + int i) mod ?c"
    have j: "0 \<le> j" using c by (simp add: j_def)
    have "j = ?t \<longleftrightarrow> i = ?n"
    proof
      assume "j = ?t"
      then have "?c dvd (aq_head q + int ?n) - (aq_head q + int i)"
        unfolding j_def t by (intro mod_eq_dvd_iff [THEN iffD1]) simp
      then have "?c dvd int ?n - int i" by simp
      moreover have "0 \<le> int ?n - int i" "int ?n - int i < ?c" using that small c by auto
      ultimately have "int ?n = int i"
        using zdvd_not_zless [of "int ?n - int i" ?c] by linarith
      then show "i = ?n" by (simp only: of_nat_eq_iff)
    qed (simp add: j_def t)
    then have tj: "(nat ?t = nat j) = (i = ?n)"
      using j t01 by (metis eq_nat_nat_iff)
    have "aq_slot ?q' i = (aq_buffer q)[nat ?t := x] ! nat j"
      by (simp add: aq_slot_def j_def)
    also have "\<dots> = (if nat ?t = nat j then x else aq_buffer q ! nat j)"
      by (rule nth_list_update) (use c t01 in \<open>simp add: nat_less_iff\<close>)
    also have "\<dots> = (if i = ?n then x else aq_slot q i)"
      unfolding tj by (simp only: aq_slot_def j_def)
    finally show ?thesis .
  qed
  have "aq_contents ?q' = aq_contents q @ [x]"
    using c slot by (auto simp: aq_contents_def nat_add_distrib nth_append intro!: nth_equalityI)
  with enq inv' show ?thesis by (auto simp: aq_cap_def)
qed

lemma aq_Enqueue_full:
  "aq_inv q \<Longrightarrow> length (aq_contents q) = aq_cap q \<Longrightarrow> aq_Enqueue q x = Inr (q, Some ErrQueueFull)"
  by (auto simp: aq_inv_def aq_cap_def aq_Enqueue_def)

lemma aq_Dequeue_empty:
  "aq_inv q \<Longrightarrow> aq_contents q = [] \<Longrightarrow> aq_Dequeue zero q = Inr (q, zero, Some ErrQueueEmpty)"
  by (auto simp: aq_inv_def aq_contents_def aq_Dequeue_def)

lemma aq_Dequeue_cons:
  assumes inv: "aq_inv q" and ne: "aq_contents q = x # xs"
  shows "\<exists>q'. aq_Dequeue zero q = Inr (q', x, None) \<and> aq_inv q' \<and>
    aq_contents q' = xs \<and> aq_cap q' = aq_cap q"
proof -
  let ?c = "aq_capacity q" and ?h = "(aq_head q + 1) mod aq_capacity q"
  let ?q' = "if aq_size q = 1 then q\<lparr>aq_size := 0, aq_head := 0, aq_tail := 0\<rparr>
             else q\<lparr>aq_head := ?h, aq_size := aq_size q - 1\<rparr>"
  from inv have c: "0 < ?c" "int (length (aq_buffer q)) = ?c" "0 \<le> aq_head q" "aq_head q < ?c"
    "0 \<le> aq_size q" and t: "aq_tail q = (aq_head q + aq_size q) mod ?c"
    by (auto simp: aq_inv_def)
  have len: "nat (aq_size q) = Suc (length xs)" using ne length_aq_contents [of q] by simp
  have x: "aq_buffer q ! nat (aq_head q) = x"
    using ne len c by (simp add: aq_contents_def aq_slot_def upt_conv_Cons del: upt_Suc)
  have deq: "aq_Dequeue zero q = Inr (?q', x, None)"
    using c x len by (auto simp: aq_Dequeue_def Let_def)
  have slot: "(?h + int i) mod ?c = (aq_head q + int (Suc i)) mod ?c" for i
    using mod_add_left_eq [of "aq_head q + 1" ?c "int i"] by (simp add: algebra_simps)
  have "(aq_head q + aq_size q) mod ?c = (?h + (aq_size q - 1)) mod ?c"
    using mod_add_left_eq [of "aq_head q + 1" ?c "aq_size q - 1"] by (simp add: algebra_simps)
  then have inv': "aq_inv ?q'" using inv len t by (auto simp: aq_inv_def)
  have "aq_contents ?q' = map (\<lambda>i. aq_slot q (Suc i)) [0..<length xs]"
    using len slot by (auto simp: aq_contents_def aq_slot_def nat_diff_distrib')
  also have "\<dots> = tl (aq_contents q)"
    using len by (simp add: aq_contents_def map_Suc_upt [symmetric] upt_conv_Cons o_def del: upt_Suc)
  finally have "aq_contents ?q' = xs" using ne by simp
  with deq inv' show ?thesis by (auto simp: aq_cap_def)
qed

lemma aq_Peek_contents:
  "aq_inv q \<Longrightarrow> aq_Peek zero q =
     Inr (case aq_contents q of [] \<Rightarrow> (zero, Some ErrQueueEmpty) | x # _ \<Rightarrow> (x, None))"
  by (auto simp: aq_Peek_def aq_inv_def aq_contents_def aq_slot_def upt_conv_Cons simp del: upt_Suc)

lemma aq_Clear_contents:
  "aq_inv q \<Longrightarrow> aq_inv (aq_Clear zero q) \<and> aq_contents (aq_Clear zero q) = []
     \<and> aq_cap (aq_Clear zero q) = aq_cap q"
  by (simp add: aq_inv_def aq_Clear_def aq_contents_def aq_cap_def)

subsection \<open>The queue keeps the contract\<close>

text \<open>The contract speaks of booleans and options where this queue returns an error.\<close>

definition aq_enq :: "'a AQueue \<Rightarrow> 'a \<Rightarrow> ('a AQueue \<times> bool) go" where
  "aq_enq q x = go_bind (aq_Enqueue q x) (\<lambda>(q', e). Inr (q', e = None))"

definition aq_deq :: "'a \<Rightarrow> 'a AQueue \<Rightarrow> ('a AQueue \<times> 'a option) go" where
  "aq_deq zero q =
     go_bind (aq_Dequeue zero q) (\<lambda>(q', v, e). Inr (q', if e = None then Some v else None))"

interpretation aq: bounded_fifo aq_enq "aq_deq zero" aq_Len aq_contents aq_cap aq_inv
  for zero
proof unfold_locales
  fix q :: "'a AQueue" and x xs
  assume inv: "aq_inv q"
  show "length (aq_contents q) < aq_cap q \<Longrightarrow> \<exists>q'. aq_enq q x = Inr (q', True) \<and> aq_inv q' \<and>
      aq_contents q' = aq_contents q @ [x] \<and> aq_cap q' = aq_cap q"
    using aq_Enqueue_room [OF inv, of x] by (auto simp: aq_enq_def)
  show "length (aq_contents q) = aq_cap q \<Longrightarrow> aq_enq q x = Inr (q, False)"
    using aq_Enqueue_full [OF inv, of x] by (simp add: aq_enq_def)
  show "aq_contents q = [] \<Longrightarrow> aq_deq zero q = Inr (q, None)"
    using aq_Dequeue_empty [OF inv, of zero] by (simp add: aq_deq_def)
  show "aq_contents q = x # xs \<Longrightarrow> \<exists>q'. aq_deq zero q = Inr (q', Some x) \<and> aq_inv q' \<and>
      aq_contents q' = xs \<and> aq_cap q' = aq_cap q"
    using aq_Dequeue_cons [OF inv, of x xs zero] by (auto simp: aq_deq_def)
  show "aq_Len q = int (length (aq_contents q))" "length (aq_contents q) \<le> aq_cap q"
    using inv by (auto simp: aq_inv_def aq_Len_def aq_cap_def)
qed

end
