(* ===== verification/Breaker_Properties.thy ===== *)
theory Breaker_Properties
  imports Breaker Circular_Queue_AI
begin

section \<open>What the breaker promises\<close>

text \<open>
  The properties of the queues, the window counter and the circuit breaker, each a few steps
  over the lemmas of the component theories. Where a property needs a concrete breaker, the
  witness uses \<open>sample_sub\<close>: a breaker with a window of two slices and two probes.
\<close>

definition sample_options :: Options where
  "sample_options = \<lparr>opt_windowCapacity = 2, opt_halfOpenAllowed = 2, opt_minRequestCount = 1,
     opt_failureRateThreshold = F_Fin (1 / 2), opt_halfOpenMaxDuration = 60, opt_openDuration = 60\<rparr>"

definition sample_window :: "StatisticalUnit option list \<Rightarrow> int \<Rightarrow> StatisticalUnit \<Rightarrow> counter" where
  "sample_window us n cur = \<lparr>current = cur,
     units = \<lparr>elements = us, front = 0, rear = n, capacity = 3\<rparr>\<rparr>"

definition sample_sub :: "State \<Rightarrow> int \<Rightarrow> int \<Rightarrow> counter \<Rightarrow> subBreaker" where
  "sample_sub q used succ c = \<lparr>state = q, openUntil = 60 * time_Second, halfOpenSince = 0,
     probeUsed = used, probeSuccess = succ, lastTick = 0, sb_settings = newSettings sample_options,
     windowCounter = c\<rparr>"

lemma sample_options_good: "good_options sample_options"
  by (simp add: good_options_def sample_options_def time_Second_def)

lemmas sample_defs = sample_window_def sample_sub_def sample_options_def newSettings_def i64_def
  time_Second_def zero_unit_def

lemmas sample_inv_defs = sample_defs sb_inv_def counter_inv_def cq_inv_def cq_contents_def
  cq_Size_def cq_slot_def balanced_def

lemma sample_empty_inv:
  "0 \<le> used \<Longrightarrow> used \<le> 2 \<Longrightarrow> 0 \<le> succ \<Longrightarrow> succ < 2 \<Longrightarrow>
     sb_inv (sample_sub q used succ (sample_window [None, None, None] 0 zero_unit))"
  by (simp add: sample_inv_defs)

subsection \<open>Queues and counter\<close>

text \<open>
  The two ring buffers are interchangeable. Made with the same positive capacity, both
  run any sequence of enqueues, dequeues and size queries without a panic and give exactly
  the answers of a list that holds at most that many values, oldest first.
\<close>

lemma queues_same_answers:
  assumes "0 < n" "n < 2 ^ 63 - 1"
  shows "\<exists>p q p' q'. NewCircularQueue zero n = Inr p \<and> aq_New zero n = Inr (Inr q)
    \<and> go_run (fifo_step cq_Enqueue (cq_deq zero) cq_Size) p es = Inr (p', spec_run (nat n) es)
    \<and> go_run (fifo_step aq_enq (aq_deq zero) aq_Len) q es = Inr (q', spec_run (nat n) es)"
proof -
  from assms NewCircularQueue_inv [of n zero] obtain p where p: "NewCircularQueue zero n = Inr p"
    "cq_inv p" "cq_contents p = []" "cq_cap p = nat n" by auto
  from aq_New_inv [OF assms(1), of zero] obtain q where q: "aq_New zero n = Inr (Inr q)"
    "aq_inv q" "aq_contents q = []" "aq_cap q = nat n" by auto
  from cq.run_spec [OF p(2,3), of zero es] aq.run_spec [OF q(2,3), of zero es] p q show ?thesis by auto
qed

text \<open>
  C2: The window counter keeps the list of finished slices and the current slice. From a
  fresh counter, any sequence of its operations returns (no panic, no nil slice in a
  summary), answers like the abstract window, and keeps every total equal to the sum of
  successes, business failures, network failures and timeouts.
\<close>

theorem counter_refines_window:
  assumes "0 \<le> n" "n < 2 ^ 63 - 1"
  shows "\<exists>c c' ys. NewCounter n = Inr c \<and> go_run counter_step c es = Inr (c', ys)
    \<and> pure_run window_step (nat n, [], zero_unit) es = (window_of c', ys)
    \<and> length (slices c') \<le> nat n \<and> list_all balanced (current c' # slices c')"
proof -
  from NewCounter_inv [OF assms] obtain c where c: "NewCounter n = Inr c" "counter_inv c"
    "window_of c = (nat n, [], zero_unit)" by blast
  from counter.run_refines [OF c(2), of es] c(3) obtain c' ys where
    r: "go_run counter_step c es = Inr (c', ys)" "counter_inv c'"
      "pure_run window_step (nat n, [], zero_unit) es = (window_of c', ys)"
    by (auto simp: list_all_def)
  have "fst (fst (pure_run window_step w es)) = fst w" for w
  proof (induction es arbitrary: w)
    case (Cons e es)
    obtain w1 x where w1: "window_step w e = (w1, x)" by (cases "window_step w e")
    moreover have "fst (fst (window_step w e)) = fst w" by (cases w; cases e) simp_all
    moreover obtain w2 ys where "pure_run window_step w1 es = (w2, ys)"
      by (cases "pure_run window_step w1 es")
    ultimately show ?case using Cons.IH [of w1] by simp
  qed simp
  from this [of "(nat n, [], zero_unit)"] r(3) have "window_cap c' = nat n" by (simp add: window_of_def)
  with c r slices_bound [OF r(2)] counter_invD(3,4) [OF r(2)] show ?thesis
    by (auto simp: list_all_iff)
qed

theorem counter_refines_window_witness:
  "\<exists>c c'. NewCounter 2 = Inr c \<and>
     go_run counter_step c [CRecord SUCCESS, CFlush, CRecord TIMEOUT, CSummary]
       = Inr (c', [None, None, None, Some \<lparr>Total = 2, Success = 1, Timeout = 1,
           BusinessFailure = 0, NetworkFailure = 0\<rparr>])"
  using counter_refines_window [of 2 "[CRecord SUCCESS, CFlush, CRecord TIMEOUT, CSummary]"]
  by (auto simp: push_slice_def units_sum_def unit_add_def zero_unit_def)

text \<open>
  C31: A full window is frozen. Flushing into a full window keeps the oldest slices and loses
  the newest: however many slices are finished afterwards, the finished slices stay what
  they were, until a reset. (The comments promise the opposite, a window that drops its
  oldest slice.)
\<close>

theorem full_window_keeps_oldest:
  assumes "counter_inv c" "length (slices c) = window_cap c" "CReset \<notin> set es"
  shows "\<exists>c' ys. go_run counter_step c es = Inr (c', ys) \<and> slices c' = slices c"
proof -
  from counter.run_refines [OF assms(1), of es] obtain c' ys where
    "go_run counter_step c es = Inr (c', ys)" "pure_run window_step (window_of c) es = (window_of c', ys)"
    by (auto simp: list_all_def)
  with full_window_run [OF assms(2,3), of "current c"] show ?thesis by (auto simp: window_of_def)
qed

theorem full_window_keeps_oldest_witness:
  "let old = zero_unit\<lparr>Timeout := 1, Total := 1\<rparr>;
       c = sample_window [None, Some old, Some old] 2 zero_unit
   in \<exists>c' ys. go_run counter_step c
        [CRecord SUCCESS, CFlush, CRecord SUCCESS, CFlush, CRecord SUCCESS, CFlush, CSummary] = Inr (c', ys)
      \<and> slices c' = [old, old]"
proof -
  let ?old = "zero_unit\<lparr>Timeout := 1, Total := 1\<rparr>"
  let ?c = "sample_window [None, Some ?old, Some ?old] 2 zero_unit"
  have nums: "[0..<2] = [0, Suc 0]" by (simp add: upt_rec)
  have "counter_inv ?c" "slices ?c = [?old, ?old]" "window_cap ?c = 2"
    by (simp_all add: sample_inv_defs slices_def window_cap_def cq_cap_def nums)
  with full_window_keeps_oldest [of ?c
      "[CRecord SUCCESS, CFlush, CRecord SUCCESS, CFlush, CRecord SUCCESS, CFlush, CSummary]"]
  show ?thesis by (simp add: Let_def)
qed

subsection \<open>One circuit\<close>

text \<open>
  C1: With usable options the breaker of an endpoint never panics, and any sequence of
  admissions and results gives the answers of the specification, a machine over the mode
  (admitting, rejecting until, probing since) and the abstract window; the window and the
  probe counters stay within their bounds.
\<close>

theorem sub_breaker_refines:
  assumes "good_options opts"
  shows "\<exists>s s' ys. newSubBreaker opts t = Inr s \<and> go_run sub_step s es = Inr (s', ys) \<and> sb_inv s'
    \<and> pure_run view_step
        \<lparr>v_settings = newSettings opts, v_last = t,
         v_window = (nat (opt_windowCapacity opts), [], zero_unit), v_mode = Admitting\<rparr> es
      = (view_of s', ys)"
proof -
  from newSubBreaker_inv [OF assms, of t] obtain s where s: "newSubBreaker opts t = Inr s" "sb_inv s"
    "sb_settings s = newSettings opts" "mode_of s = Admitting" "lastTick s = t"
    "window_of (windowCounter s) = (nat (opt_windowCapacity opts), [], zero_unit)"
    by (auto simp: state_mode_iff(1))
  from sb.run_refines [OF s(2), of es] s show ?thesis
    by (auto simp: view_of_def list_all_def)
qed

theorem sub_breaker_refines_witness:
  "\<exists>s s'. newSubBreaker sample_options 0 = Inr s \<and>
     go_run sub_step s [OAllowed 1, ORecord 2 TIMEOUT, ORecord 3 SUCCESS] = Inr (s', [Some True, None, None])
     \<and> sb_inv s'"
  using sub_breaker_refines [OF sample_options_good, of 0
      "[OAllowed 1, ORecord 2 TIMEOUT, ORecord 3 SUCCESS]"]
  by (auto simp: sample_defs view_tick_def time_Sub_def window_sum_def units_sum_def unit_add_def
      trips_def Let_def)

text \<open>
  The state graph. Whatever is called, a breaker moves only along these edges: closed to
  open when an admission is refused, open to half-open when an admission comes after the
  deadline, half-open to open when the probing time is over or a probe fails by network or
  timeout, half-open to closed on a recorded success.
\<close>

lemma sub_breaker_edges:
  assumes "sb_inv s" "sub_step s e = Inr (s', x)" "state s' \<noteq> state s"
  shows "(state s = StateClosed \<and> state s' = StateOpen \<and> (\<exists>now. e = OAllowed now \<and> x = Some False))
    \<or> (state s = StateOpen \<and> state s' = StateHalfOpen \<and> (\<exists>now. e = OAllowed now \<and> openUntil s < now))
    \<or> (state s = StateHalfOpen \<and> state s' = StateOpen \<and>
        (\<exists>now. e = OAllowed now \<and> st_halfOpenMaxDuration (sb_settings s) < time_Sub now (halfOpenSince s)
           \<or> e = ORecord now NETWORK_FAILURE \<or> e = ORecord now TIMEOUT))
    \<or> (state s = StateHalfOpen \<and> state s' = StateClosed \<and> (\<exists>now. e = ORecord now SUCCESS))"
  using step_edge [OF assms(1,2)]
proof cases
  case (trip now)
  with closed_decision [OF assms(1), of now] assms(2) show ?thesis
    by (auto split: if_splits dest!: mode_of_D simp del: sub_step.simps)
next
  case (probe now)
  with open_step [OF assms(1), of e] assms(2) show ?thesis
    by (auto simp: not_less [symmetric] simp del: sub_step.simps)
next
  case (expire now)
  then have m: "mode_of s = Probing (halfOpenSince s) (probeUsed s) (probeSuccess s)"
    "mode_of s' = Rejecting (openUntil s')" by (simp_all add: state_mode_iff)
  with expire allowed_mode [OF assms(1), of now] assms(2) show ?thesis
    by (auto simp: mode_probe_def split: if_splits simp del: sub_step.simps)
qed (use assms(3) in auto)

text \<open>
  While the circuit is open nothing passes: as long as every call comes no later than the
  deadline, every admission is refused, the recorded results change nothing, and the breaker
  is still open with the same deadline.
\<close>

lemma open_rejects:
  assumes "sb_inv s" "state s = StateOpen" "\<forall>e \<in> set es. op_time e \<le> openUntil s"
  shows "\<exists>s' ys. go_run sub_step s es = Inr (s', ys) \<and> Some True \<notin> set ys
    \<and> state s' = StateOpen \<and> openUntil s' = openUntil s"
  using open_run [OF assms] by blast

text \<open>
  C8: Probes are limited: over any stretch in which the breaker stays half-open, the
  admissions it grants never exceed the configured number, and its two counters count
  exactly the granted admissions and the recorded successes.
\<close>

theorem half_open_quota:
  assumes "sb_inv s" "stays StateHalfOpen s es"
  shows "\<exists>s' ys. go_run sub_step s es = Inr (s', ys)
    \<and> probeUsed s' = probeUsed s + int (count_list ys (Some True))
    \<and> probeSuccess s' = probeSuccess s + int (length (filter is_success es))
    \<and> int (count_list ys (Some True)) \<le> st_halfOpenAllowed (sb_settings s)
    \<and> int (length (filter is_success es)) < st_halfOpenAllowed (sb_settings s)"
proof -
  from stays_state [OF assms(2)] assms(1) have "0 \<le> probeUsed s" "0 \<le> probeSuccess s"
    by (simp_all add: sb_inv_def)
  moreover from probing_run [OF assms] obtain s' ys where
    r: "go_run sub_step s es = Inr (s', ys)" "sb_inv s'" "state s' = StateHalfOpen"
      "sb_settings s' = sb_settings s" "probeUsed s' = probeUsed s + int (count_list ys (Some True))"
      "probeSuccess s' = probeSuccess s + int (length (filter is_success es))" by blast
  moreover from r(2-4) have "probeUsed s' \<le> st_halfOpenAllowed (sb_settings s)"
    "probeSuccess s' < st_halfOpenAllowed (sb_settings s)" by (simp_all add: sb_inv_def)
  ultimately show ?thesis by auto
qed

theorem half_open_quota_witness:
  "\<exists>s' ys. go_run sub_step (sample_sub StateHalfOpen 0 0 (sample_window [None, None, None] 0 zero_unit))
      [OAllowed 1, OAllowed 2, OAllowed 3] = Inr (s', ys) \<and> int (count_list ys (Some True)) \<le> 2"
proof -
  let ?s = "sample_sub StateHalfOpen 0 0 (sample_window [None, None, None] 0 zero_unit)"
  have inv: "sb_inv ?s" by (simp add: sample_empty_inv)
  have "stays StateHalfOpen ?s [OAllowed 1, OAllowed 2, OAllowed 3]"
    by (simp add: allowed_def advance_def allowed_halfOpen_def time_Sub_def sample_defs Let_def)
  from half_open_quota [OF inv this] show ?thesis
    by (auto simp: sample_defs simp del: go_run.simps)
qed

text \<open>
  C9: A circuit closes only when it has earned it: the step from half-open to closed is a
  recorded success, the one that completes the configured number of successes, and the
  window then starts empty.
\<close>

theorem heals_with_quota:
  assumes "sb_inv s" "stays StateHalfOpen s es" "probeSuccess s = 0"
    and "go_run sub_step s (es @ [e]) = Inr (s', ys)" "state s' = StateClosed"
  shows "is_success e \<and> int (length (filter is_success es)) + 1 = st_halfOpenAllowed (sb_settings s)
    \<and> slices (windowCounter s') = [] \<and> current (windowCounter s') = zero_unit"
proof -
  from probing_run [OF assms(1,2)] obtain s1 ys1 where
    r: "go_run sub_step s es = Inr (s1, ys1)" "sb_inv s1" "state s1 = StateHalfOpen"
      "sb_settings s1 = sb_settings s"
      "probeSuccess s1 = probeSuccess s + int (length (filter is_success es))" by blast
  from assms(4) r(1) obtain x where "sub_step s1 e = Inr (s', x)"
    by (auto simp: go_run_append go_bind_Inr_iff simp del: sub_step.simps)
  from heal_step [OF r(2,3) this assms(5)] r assms(3) show ?thesis by simp
qed

theorem heals_with_quota_witness:
  "let s = sample_sub StateHalfOpen 0 0 (sample_window [None, None, None] 0 zero_unit);
       es = [OAllowed 1, ORecord 2 SUCCESS, OAllowed 3]
   in \<exists>s' ys. go_run sub_step s (es @ [ORecord 4 SUCCESS]) = Inr (s', ys)
     \<and> state s' = StateClosed \<and> slices (windowCounter s') = []"
proof -
  let ?s = "sample_sub StateHalfOpen 0 0 (sample_window [None, None, None] 0 zero_unit)"
  let ?es = "[OAllowed 1, ORecord 2 SUCCESS, OAllowed 3]"
  note eval = allowed_def sb_record_def advance_def allowed_halfOpen_def time_Sub_def sample_defs
    counter_Record_defs Let_def
  have inv: "sb_inv ?s" by (simp add: sample_empty_inv)
  have stays: "stays StateHalfOpen ?s ?es" by (simp add: eval)
  have zero: "probeSuccess ?s = 0" by (simp add: sample_sub_def)
  obtain s' ys where run: "go_run sub_step ?s (?es @ [ORecord 4 SUCCESS]) = Inr (s', ys)"
    "state s' = StateClosed" by (simp add: eval)
  from heals_with_quota [OF inv stays zero run] run show ?thesis
    unfolding Let_def by blast
qed



text \<open>
  Probes that end in a business failure use up the quota without counting. Once every
  probe is used and only business failures come back, no admission is granted until the
  probing time is over, and the breaker stays exactly as it is.
\<close>

lemma exhausted_probes_block:
  assumes "sb_inv s" "state s = StateHalfOpen" "probeUsed s = st_halfOpenAllowed (sb_settings s)"
    and "\<forall>e \<in> set es. waits (halfOpenSince s) (st_halfOpenMaxDuration (sb_settings s)) e"
  shows "\<exists>s' ys. go_run sub_step s es = Inr (s', ys) \<and> Some True \<notin> set ys \<and> mode_of s' = mode_of s"
  using exhausted_run [OF assms] by blast

lemma exhausted_probes_block_sample:
  "\<exists>s' ys. go_run sub_step (sample_sub StateHalfOpen 2 1 (sample_window [None, None, None] 0 zero_unit))
      [ORecord 1 BUSINESS_FAILURE, OAllowed (60 * time_Second)] = Inr (s', ys) \<and> Some True \<notin> set ys"
proof -
  let ?s = "sample_sub StateHalfOpen 2 1 (sample_window [None, None, None] 0 zero_unit)"
  have "sb_inv ?s" by (simp add: sample_empty_inv)
  moreover have "state ?s = StateHalfOpen" "probeUsed ?s = st_halfOpenAllowed (sb_settings ?s)"
    "\<forall>e \<in> set [ORecord 1 BUSINESS_FAILURE, OAllowed (60 * time_Second)].
       waits (halfOpenSince ?s) (st_halfOpenMaxDuration (sb_settings ?s)) e"
    by (simp_all add: sample_defs time_Sub_def)
  ultimately show ?thesis
    using exhausted_probes_block [of ?s "[ORecord 1 BUSINESS_FAILURE, OAllowed (60 * time_Second)]"]
    by blast
qed

text \<open>
  C19: The decision of a closed circuit with the default threshold 0.5 is exact, the
  floating-point division included: an admission is refused, and the circuit opens for the
  configured time, precisely when the window holds at least the minimum number of requests
  and more than half of them are network failures or timeouts. Business failures count in
  the total only.
\<close>

theorem closed_decision_exact:
  assumes "sb_inv s" "state s = StateClosed"
    and "st_failureRateThreshold (sb_settings s) = F_Fin (1 / 2)"
    and "u = window_sum (window_at now s)" "small_unit u"
  shows "\<exists>s' b. sub_step s (OAllowed now) = Inr (s', Some b)
    \<and> (b \<longleftrightarrow> \<not> (st_minRequestCount (sb_settings s) \<le> sint (Total u)
              \<and> sint (Total u) < 2 * (uint (NetworkFailure u) + uint (Timeout u))))
    \<and> sint (Total u) = uint (Success u) + uint (BusinessFailure u) + uint (NetworkFailure u) + uint (Timeout u)
    \<and> mode_of s' = (if b then Admitting else Rejecting (now + st_openDuration (sb_settings s)))"
proof -
  have bal: "balanced u" using window_at_balanced [OF assms(1), of now] assms(4) by simp
  from trips_half [OF bal assms(5,3)] closed_decision [OF assms(1,2), of now]
    small_unit_counts(1) [OF bal assms(5)] assms(4) show ?thesis by auto
qed

theorem closed_decision_exact_witness:
  "let u = \<lparr>Total = 3, Success = 1, Timeout = 2, BusinessFailure = 0, NetworkFailure = 0\<rparr>;
       s = sample_sub StateClosed 0 0 (sample_window [None, None, None] 0 u)
   in \<exists>s'. sub_step s (OAllowed 5) = Inr (s', Some False) \<and> mode_of s' = Rejecting (5 + 60 * time_Second)"
proof -
  let ?u = "\<lparr>Total = 3, Success = 1, Timeout = 2, BusinessFailure = 0, NetworkFailure = 0\<rparr> :: StatisticalUnit"
  let ?s = "sample_sub StateClosed 0 0 (sample_window [None, None, None] 0 ?u)"
  have inv: "sb_inv ?s" and st: "state ?s = StateClosed"
    and th: "st_failureRateThreshold (sb_settings ?s) = F_Fin (1 / 2)"
    by (simp_all add: sample_inv_defs)
  have u: "?u = window_sum (window_at 5 ?s)"
    by (simp add: window_at_def view_tick_def view_of_def window_of_def window_sum_def units_sum_def
        unit_add_def slices_def cq_contents_def cq_Size_def time_Sub_def sample_defs Let_def)
  have small: "small_unit ?u" by (simp add: small_unit_def)
  from closed_decision_exact [OF inv st th u small] show ?thesis
    by (auto simp: sample_defs simp del: sub_step.simps)
qed

text \<open>
  Time moves the window by whole intervals. When at least one interval has passed since
  the last tick, the window gains one empty slice for every further interval of the gap and
  then the slice that was being filled, what does not fit is cut off at the newest end, and
  a new slice begins.
\<close>

lemma advance_shifts_window:
  assumes "sb_inv s" "st_interval (sb_settings s) \<le> time_Sub now (lastTick s)"
  shows "\<exists>s'. advance s now = Inr s' \<and> sb_inv s' \<and> lastTick s' = now \<and> mode_of s' = mode_of s
    \<and> current (windowCounter s') = zero_unit
    \<and> slices (windowCounter s') = take (window_cap (windowCounter s))
        (slices (windowCounter s)
         @ replicate (nat (time_Sub now (lastTick s) div st_interval (sb_settings s)) - 1) zero_unit
         @ [current (windowCounter s)])"
  using advance_shift [OF assms] by blast

text \<open>
  Window sizes the breaker does not survive. With size 0 or -1 a breaker is made, and
  the first call of any kind ends in a division by zero (size 0) or in the modulus of an
  empty ring buffer (size -1); a smaller size already panics when the breaker is made.
\<close>

lemma bad_window_panics:
  assumes "- (2 ^ 63) \<le> opt_windowCapacity opts" "opt_windowCapacity opts \<le> 0" "t \<le> op_time e"
  shows "go_bind (newSubBreaker opts t) (\<lambda>s. sub_step s e)
    = Inl (if opt_windowCapacity opts \<le> - 2 then MakeSliceLenOutOfRange else IntegerDivideByZero)"
proof (cases "opt_windowCapacity opts \<le> - 2")
  case True
  with new_negative_panics [OF assms(1) True, of t] show ?thesis by simp
next
  case False
  with assms(2) have "opt_windowCapacity opts = 0 \<or> opt_windowCapacity opts = - 1" by arith
  from zero_window_panics [OF this assms(3)] obtain s where
    "newSubBreaker opts t = Inr s" "sub_step s e = Inl IntegerDivideByZero" by blast
  with False show ?thesis by simp
qed

lemma bad_window_panics_sample:
  "go_bind (newSubBreaker (breaker_NewOptions\<lparr>opt_windowCapacity := 0\<rparr>) 0) (\<lambda>s. sub_step s (OAllowed 1))
     = Inl IntegerDivideByZero
   \<and> newSubBreaker (breaker_NewOptions\<lparr>opt_windowCapacity := - 3\<rparr>) 0 = Inl MakeSliceLenOutOfRange"
  using bad_window_panics [of "breaker_NewOptions\<lparr>opt_windowCapacity := 0\<rparr>" 0 "OAllowed 1"]
    bad_window_panics [of "breaker_NewOptions\<lparr>opt_windowCapacity := - 3\<rparr>" 0 "OAllowed 1"]
  by (simp add: breaker_NewOptions_def go_bind_Inl_iff del: sub_step.simps)
     (simp add: newSubBreaker_def NewCounter_def NewCircularQueue_def go_make_def i64_def)

subsection \<open>All circuits\<close>

text \<open>
  C26: Circuits are independent. With usable options no sequence of calls for any endpoints
  makes the proxy's breaker panic, and what the calls for one endpoint see and leave behind
  is exactly the run of that endpoint's own breaker, made at its first call, whatever calls
  for other endpoints come in between.
\<close>

theorem circuits_are_independent:
  assumes "good_options opts" "of_key k es = (k, t, e) # rest"
  shows "\<exists>b' ys s s'. go_run breaker_step (NewBreaker opts) es = Inr (b', ys)
    \<and> newSubBreaker opts t = Inr s
    \<and> go_run sub_step s (ops_of (of_key k es)) = Inr (s', answers_of k es ys)
    \<and> breakers b' k = Some s'"
proof -
  from br.run_total [OF NewBreaker_inv [OF assms(1)], of es] obtain b' ys where
    run: "go_run breaker_step (NewBreaker opts) es = Inr (b', ys)" by (auto simp: list_all_def)
  with keyed_run [OF run, of k] assms(2) show ?thesis
    by (auto simp: breaker_sub_def NewBreaker_def)
qed

theorem circuits_are_independent_witness:
  "\<exists>b' ys s s'. go_run breaker_step (NewBreaker sample_options)
       [(''a:80'', 0, OAllowed 1), (''b:80'', 2, ORecord 2 TIMEOUT), (''a:80'', 0, ORecord 3 SUCCESS)]
     = Inr (b', ys) \<and> newSubBreaker sample_options 2 = Inr s
    \<and> go_run sub_step s [ORecord 2 TIMEOUT] = Inr (s', [ys ! 1]) \<and> breakers b' ''b:80'' = Some s'"
proof -
  let ?es = "[(''a:80'', 0, OAllowed 1), (''b:80'', 2, ORecord 2 TIMEOUT), (''a:80'', 0, ORecord 3 SUCCESS)]"
  have k: "of_key ''b:80'' ?es = (''b:80'', 2, ORecord 2 TIMEOUT) # []" by (simp add: of_key_def)
  from circuits_are_independent [OF sample_options_good k] obtain b' ys s s' where
    r: "go_run breaker_step (NewBreaker sample_options) ?es = Inr (b', ys)"
      "newSubBreaker sample_options 2 = Inr s"
      "go_run sub_step s (ops_of (of_key ''b:80'' ?es)) = Inr (s', answers_of ''b:80'' ?es ys)"
      "breakers b' ''b:80'' = Some s'" by blast
  from go_run_length [OF r(1)] obtain y0 y1 y2 where "ys = [y0, y1, y2]"
    by (auto simp: length_Suc_conv)
  then have "answers_of ''b:80'' ?es ys = [ys ! 1]" by (simp add: answers_of_def)
  with r k show ?thesis by (auto simp: ops_of_def simp del: go_run.simps)
qed

end
