(* ===== verification/General_Cache.thy ===== *)
theory General_Cache
  imports Prelude
begin

section \<open>The generic cache\<close>

text \<open>
  \<open>pkg/cache/general_cache.go\<close>: a string-keyed map behind a read-write mutex. Every method
  holds the lock for its whole body, so a method is one function on the map. \<open>Add\<close> never
  overwrites, \<open>Update\<close> never inserts. The value returned for a missing key is the zero value
  of the element type, an argument here (for the pointers the program stores, \<open>nil\<close>).
\<close>

type_synonym 'a GeneralCache = "string \<rightharpoonup> 'a"

definition NewGeneralCache :: "'a GeneralCache" where
  "NewGeneralCache = Map.empty"

definition gc_Add :: "'a GeneralCache \<Rightarrow> string \<Rightarrow> 'a \<Rightarrow> 'a GeneralCache \<times> 'a \<times> bool" where
  "gc_Add c key value = (case c key of Some old \<Rightarrow> (c, old, False) | None \<Rightarrow> (c(key \<mapsto> value), value, True))"

definition gc_Update :: "'a \<Rightarrow> 'a GeneralCache \<Rightarrow> string \<Rightarrow> 'a \<Rightarrow> 'a GeneralCache \<times> 'a \<times> bool" where
  "gc_Update zero c key value = (case c key of None \<Rightarrow> (c, zero, False) | Some old \<Rightarrow> (c(key \<mapsto> value), value, True))"

definition gc_Delete :: "'a \<Rightarrow> 'a GeneralCache \<Rightarrow> string \<Rightarrow> 'a GeneralCache \<times> 'a \<times> bool" where
  "gc_Delete zero c key = (case c key of None \<Rightarrow> (c, zero, False) | Some old \<Rightarrow> (c(key := None), old, True))"

definition gc_Get :: "'a \<Rightarrow> 'a GeneralCache \<Rightarrow> string \<Rightarrow> 'a \<times> bool" where
  "gc_Get zero c key = (case c key of None \<Rightarrow> (zero, False) | Some v \<Rightarrow> (v, True))"

lemmas gc_defs = gc_Add_def gc_Update_def gc_Delete_def gc_Get_def

subsection \<open>Operations of concurrent clients\<close>

text \<open>
  The informer callbacks, the worker and the webhook call the cache from their own
  goroutines. The lock makes the calls a sequence, in some order.
\<close>

datatype 'a cache_op = CAdd string 'a | CUpdate string 'a | CDelete string | CGet string

fun cache_step :: "'a \<Rightarrow> 'a GeneralCache \<Rightarrow> 'a cache_op \<Rightarrow> ('a GeneralCache \<times> ('a \<times> bool)) go" where
  "cache_step zero c (CAdd k v) = Inr (gc_Add c k v)"
| "cache_step zero c (CUpdate k v) = Inr (gc_Update zero c k v)"
| "cache_step zero c (CDelete k) = Inr (gc_Delete zero c k)"
| "cache_step zero c (CGet k) = Inr (c, gc_Get zero c k)"

fun op_key :: "'a cache_op \<Rightarrow> string" where
  "op_key (CAdd k v) = k"
| "op_key (CUpdate k v) = k"
| "op_key (CDelete k) = k"
| "op_key (CGet k) = k"

text \<open>One entry of the cache as a cell: absent, or present with a value.\<close>

fun cell_step :: "'a \<Rightarrow> 'a option \<Rightarrow> 'a cache_op \<Rightarrow> 'a option \<times> ('a \<times> bool)" where
  "cell_step zero None (CAdd k v) = (Some v, (v, True))"
| "cell_step zero (Some old) (CAdd k v) = (Some old, (old, False))"
| "cell_step zero None (CUpdate k v) = (None, (zero, False))"
| "cell_step zero (Some old) (CUpdate k v) = (Some v, (v, True))"
| "cell_step zero None (CDelete k) = (None, (zero, False))"
| "cell_step zero (Some old) (CDelete k) = (None, (old, True))"
| "cell_step zero None (CGet k) = (None, (zero, False))"
| "cell_step zero (Some v) (CGet k) = (Some v, (v, True))"

lemma cache_step_cell:
  "cache_step zero c e = Inr (c(op_key e := fst (cell_step zero (c (op_key e)) e)),
     snd (cell_step zero (c (op_key e)) e))"
  by (cases e; cases "c (op_key e)") (simp_all add: gc_defs fun_upd_idem)

lemma cell_step_frame: "op_key e \<noteq> k \<Longrightarrow> cache_step zero c e = Inr (c', x) \<Longrightarrow> c' k = c k"
  by (auto simp: cache_step_cell)

definition key_ops :: "string \<Rightarrow> 'a cache_op list \<Rightarrow> 'a cache_op list" where
  "key_ops k es = filter (\<lambda>e. op_key e = k) es"

definition key_answers :: "string \<Rightarrow> 'a cache_op list \<Rightarrow> 'b list \<Rightarrow> 'b list" where
  "key_answers k es ys = map snd (filter (\<lambda>(e, y). op_key e = k) (zip es ys))"

lemma cache_run_cells:
  "\<exists>c' ys. go_run (cache_step zero) c es = Inr (c', ys) \<and>
     (\<forall>k. pure_run (cell_step zero) (c k) (key_ops k es) = (c' k, key_answers k es ys))"
proof (induction es arbitrary: c)
  case (Cons e es)
  obtain v x where vx: "cell_step zero (c (op_key e)) e = (v, x)" by (cases "cell_step zero (c (op_key e)) e")
  then have step: "cache_step zero c e = Inr (c(op_key e := v), x)" by (simp add: cache_step_cell)
  from Cons.IH [of "c(op_key e := v)"] obtain c' ys where
    run: "go_run (cache_step zero) (c(op_key e := v)) es = Inr (c', ys)"
      "\<And>k. pure_run (cell_step zero) ((c(op_key e := v)) k) (key_ops k es) = (c' k, key_answers k es ys)"
    by blast
  have "pure_run (cell_step zero) (c k) (key_ops k (e # es)) = (c' k, key_answers k (e # es) (x # ys))" for k
    using run(2) [of k] vx by (cases "op_key e = k") (auto simp: key_ops_def key_answers_def)
  with step run(1) show ?case by (auto simp del: cache_step.simps)
qed (simp add: key_ops_def key_answers_def)

end
