(* ===== verification/Ctl_Types.thy ===== *)
theory Ctl_Types
  imports Prelude
begin

section \<open>Kubernetes objects as the controller sees them\<close>

text \<open>
  The controller reads and writes objects of the Kubernetes API. The records keep the fields
  the code touches; what the code only carries along is kept in its JSON form
  (\<open>cc_rest\<close>, \<open>wl_rest\<close>), empty for a value the code builds itself.
\<close>

datatype json =
    JNull
  | JBool bool
  | JNum int
  | JStr string
  | JArr "json list"
  | JObj "(string \<times> json) list"

text \<open>\<open>corev1.Container\<close>.\<close>

record CoreContainer =
  cc_Name :: string
  cc_Image :: string
  cc_Command :: "string list"
  cc_Resources :: json
  cc_rest :: "(string \<times> json) list"

text \<open>
  The custom resource of \<open>internal/resources/container.go\<close>: the object's metadata and the
  specification of one container.
\<close>

record ContainerSpec =
  spec_Name :: string
  spec_Image :: string
  spec_Command :: "string list"
  spec_Resources :: json

record Container =
  co_Name :: string
  co_Namespace :: string
  co_Spec :: ContainerSpec

definition ToCoreV1Container :: "Container \<Rightarrow> CoreContainer" where
  "ToCoreV1Container c = \<lparr>cc_Name = spec_Name (co_Spec c), cc_Image = spec_Image (co_Spec c),
     cc_Command = spec_Command (co_Spec c), cc_Resources = spec_Resources (co_Spec c), cc_rest = []\<rparr>"

text \<open>\<open>discoveryv1.EndpointSlice\<close>; a missing label reads as the empty string.\<close>

record Endpoint =
  ep_Addresses :: "string list"
  ep_TargetRef :: "string option"

record EndpointSlice =
  es_Name :: string
  es_Labels :: "(string \<times> string) list"
  es_Endpoints :: "Endpoint list"

definition label_of :: "(string \<times> string) list \<Rightarrow> string \<Rightarrow> string" where
  "label_of ls k = (case map_of ls k of None \<Rightarrow> '''' | Some v \<Rightarrow> v)"

definition service_label :: string where
  "service_label = ''kubernetes.io/service-name''"

definition es_service :: "EndpointSlice \<Rightarrow> string" where
  "es_service es = label_of (es_Labels es) service_label"

text \<open>
  A value of type \<open>any\<close>, as informer callbacks receive it and caches return it: an
  unstructured object (its pointer may be nil), the tombstone
  \<open>cache.DeletedFinalStateUnknown\<close> around another value, an endpoint slice, a container, or
  something else.
\<close>

datatype any_obj =
    AnyUnstructured "json option"
  | AnyDeletedFinalStateUnknown any_obj
  | AnyEndpointSlice EndpointSlice
  | AnyContainer Container
  | AnyOther

definition toContainerUnstructured :: "any_obj \<Rightarrow> json option" where
  "toContainerUnstructured obj =
     (case obj of
        AnyUnstructured t \<Rightarrow> t
      | AnyDeletedFinalStateUnknown t \<Rightarrow> (case t of AnyUnstructured u \<Rightarrow> u | _ \<Rightarrow> None)
      | _ \<Rightarrow> None)"

text \<open>
  \<open>runtime.DefaultUnstructuredConverter.FromUnstructured\<close> and \<open>GetNamespace\<close> are code of the
  Kubernetes libraries: arguments.
\<close>

definition ParseContainer :: "(json \<Rightarrow> string + Container) \<Rightarrow> any_obj \<Rightarrow> Container option" where
  "ParseContainer fromUnstructured obj =
     (case toContainerUnstructured obj of
        None \<Rightarrow> None
      | Some u \<Rightarrow> (case fromUnstructured u of Inl err \<Rightarrow> None | Inr c \<Rightarrow> Some c))"

definition object_Namespace :: "(json \<Rightarrow> string) \<Rightarrow> any_obj \<Rightarrow> string" where
  "object_Namespace getNamespace obj =
     (case toContainerUnstructured obj of None \<Rightarrow> ''default'' | Some u \<Rightarrow> getNamespace u)"

lemma ParseContainer_tombstone:
  "ParseContainer f (AnyDeletedFinalStateUnknown (AnyUnstructured u)) = ParseContainer f (AnyUnstructured u)"
  by (simp add: ParseContainer_def toContainerUnstructured_def)

text \<open>\<open>appsv1.Deployment\<close> and \<open>appsv1.StatefulSet\<close>: the pod template's containers and the labels.\<close>

record Workload =
  wl_Namespace :: string
  wl_Name :: string
  wl_Labels :: "(string \<times> string) list"
  wl_InitContainers :: "CoreContainer list"
  wl_Containers :: "CoreContainer list"
  wl_rest :: "(string \<times> json) list"

definition zero_workload :: Workload where
  "zero_workload = \<lparr>wl_Namespace = '''', wl_Name = '''', wl_Labels = [],
     wl_InitContainers = [], wl_Containers = [], wl_rest = []\<rparr>"

definition wl_key :: "Workload \<Rightarrow> string \<times> string" where
  "wl_key w = (wl_Namespace w, wl_Name w)"

end
