(* ===== verification/Containers.thy ===== *)
theory Containers
  imports Ctl_Types
begin

section \<open>Editing the containers of a workload\<close>

text \<open>
  The controller carries this code twice: in \<open>internal/ctrl/worker/crd_worker.go\<close> (prefix
  \<open>wk_\<close>) and in \<open>internal/ctrl/reconciler/container_updated.go\<close> and \<open>container_removed.go\<close>
  (prefix \<open>rc_\<close>), the second with checks for a nil workload. The update replaces the first
  container of that name in place and stops; the removal drops every container of that name.
\<close>

fun wk_containersWithOneUpdated :: "CoreContainer list \<Rightarrow> CoreContainer \<Rightarrow> CoreContainer list" where
  "wk_containersWithOneUpdated [] newContainer = []"
| "wk_containersWithOneUpdated (c # cs) newContainer =
     (if cc_Name c = cc_Name newContainer then newContainer # cs
      else c # wk_containersWithOneUpdated cs newContainer)"

fun wk_containersWithOneRemoved :: "CoreContainer list \<Rightarrow> string \<Rightarrow> CoreContainer list" where
  "wk_containersWithOneRemoved [] containerName = []"
| "wk_containersWithOneRemoved (c # cs) containerName =
     (if cc_Name c \<noteq> containerName then c # wk_containersWithOneRemoved cs containerName
      else wk_containersWithOneRemoved cs containerName)"

definition wk_deployWithContainerUpdated :: "Workload \<Rightarrow> CoreContainer \<Rightarrow> Workload" where
  "wk_deployWithContainerUpdated deploy newContainer =
     deploy\<lparr>wl_InitContainers := wk_containersWithOneUpdated (wl_InitContainers deploy) newContainer,
            wl_Containers := wk_containersWithOneUpdated (wl_Containers deploy) newContainer\<rparr>"

definition wk_statefulsetWithContainerUpdated :: "Workload \<Rightarrow> CoreContainer \<Rightarrow> Workload" where
  "wk_statefulsetWithContainerUpdated sts newContainer =
     sts\<lparr>wl_InitContainers := wk_containersWithOneUpdated (wl_InitContainers sts) newContainer,
         wl_Containers := wk_containersWithOneUpdated (wl_Containers sts) newContainer\<rparr>"

definition wk_deployWithContainerRemoved :: "Workload \<Rightarrow> string \<Rightarrow> Workload" where
  "wk_deployWithContainerRemoved deploy containerName =
     deploy\<lparr>wl_InitContainers := wk_containersWithOneRemoved (wl_InitContainers deploy) containerName,
            wl_Containers := wk_containersWithOneRemoved (wl_Containers deploy) containerName\<rparr>"

definition wk_statefulsetWithContainerRemoved :: "Workload \<Rightarrow> string \<Rightarrow> Workload" where
  "wk_statefulsetWithContainerRemoved sts containerName =
     sts\<lparr>wl_InitContainers := wk_containersWithOneRemoved (wl_InitContainers sts) containerName,
         wl_Containers := wk_containersWithOneRemoved (wl_Containers sts) containerName\<rparr>"

subsection \<open>The reconciler's variants\<close>

text \<open>\<open>for i, container := range containers\<close> with an assignment to \<open>containers[i]\<close>: a loop over the index.\<close>

fun rc_update_from :: "CoreContainer list \<Rightarrow> nat \<Rightarrow> CoreContainer list \<Rightarrow> CoreContainer \<Rightarrow> CoreContainer list" where
  "rc_update_from containers i [] newContainer = containers"
| "rc_update_from containers i (container # rest) newContainer =
     (if cc_Name container = cc_Name newContainer then containers[i := newContainer]
      else rc_update_from containers (Suc i) rest newContainer)"

definition rc_containersWithOneUpdated :: "CoreContainer list \<Rightarrow> CoreContainer \<Rightarrow> CoreContainer list" where
  "rc_containersWithOneUpdated containers newContainer = rc_update_from containers 0 containers newContainer"

definition rc_containersWithOneRemoved :: "CoreContainer list \<Rightarrow> string \<Rightarrow> CoreContainer list" where
  "rc_containersWithOneRemoved containers containerName =
     foldl (\<lambda>newContainers container.
        if cc_Name container \<noteq> containerName then newContainers @ [container] else newContainers)
       [] containers"

text \<open>A nil workload stays nil in an update and becomes an empty one in a removal.\<close>

definition rc_deployWithContainerUpdated :: "Workload option \<Rightarrow> CoreContainer \<Rightarrow> Workload option" where
  "rc_deployWithContainerUpdated deploy newContainer =
     (case deploy of None \<Rightarrow> None | Some d \<Rightarrow>
        Some (d\<lparr>wl_InitContainers := rc_containersWithOneUpdated (wl_InitContainers d) newContainer,
                wl_Containers := rc_containersWithOneUpdated (wl_Containers d) newContainer\<rparr>))"

definition rc_statefulsetWithContainerUpdated :: "Workload option \<Rightarrow> CoreContainer \<Rightarrow> Workload option" where
  "rc_statefulsetWithContainerUpdated sts newContainer =
     (case sts of None \<Rightarrow> None | Some s \<Rightarrow>
        Some (s\<lparr>wl_InitContainers := rc_containersWithOneUpdated (wl_InitContainers s) newContainer,
                wl_Containers := rc_containersWithOneUpdated (wl_Containers s) newContainer\<rparr>))"

definition rc_deployWithContainerRemoved :: "Workload option \<Rightarrow> string \<Rightarrow> Workload option" where
  "rc_deployWithContainerRemoved deploy containerName =
     (case deploy of None \<Rightarrow> Some zero_workload | Some d \<Rightarrow>
        Some (d\<lparr>wl_InitContainers := rc_containersWithOneRemoved (wl_InitContainers d) containerName,
                wl_Containers := rc_containersWithOneRemoved (wl_Containers d) containerName\<rparr>))"

definition rc_statefulsetWithContainerRemoved :: "Workload option \<Rightarrow> string \<Rightarrow> Workload option" where
  "rc_statefulsetWithContainerRemoved sts containerName =
     (case sts of None \<Rightarrow> Some zero_workload | Some s \<Rightarrow>
        Some (s\<lparr>wl_InitContainers := rc_containersWithOneRemoved (wl_InitContainers s) containerName,
                wl_Containers := rc_containersWithOneRemoved (wl_Containers s) containerName\<rparr>))"

subsection \<open>What the edits do\<close>

lemma removed_filter:
  "wk_containersWithOneRemoved cs n = filter (\<lambda>c. cc_Name c \<noteq> n) cs"
  by (induction cs) simp_all

lemma rc_removed_filter:
  "rc_containersWithOneRemoved cs n = filter (\<lambda>c. cc_Name c \<noteq> n) cs"
proof -
  have "foldl (\<lambda>ns c. if cc_Name c \<noteq> n then ns @ [c] else ns) acc cs
      = acc @ filter (\<lambda>c. cc_Name c \<noteq> n) cs" for acc
    by (induction cs arbitrary: acc) simp_all
  then show ?thesis by (simp add: rc_containersWithOneRemoved_def)
qed

lemma rc_update_from_append:
  "rc_update_from (pre @ cs) (length pre) cs c = pre @ wk_containersWithOneUpdated cs c"
proof (induction cs arbitrary: pre)
  case (Cons d cs)
  from Cons [of "pre @ [d]"] show ?case by (simp add: list_update_append)
qed simp

lemma rc_updated_eq: "rc_containersWithOneUpdated cs c = wk_containersWithOneUpdated cs c"
  using rc_update_from_append [of "[]" cs c] by (simp add: rc_containersWithOneUpdated_def)

lemma updated_split:
  "wk_containersWithOneUpdated cs c =
     (if cc_Name c \<in> cc_Name ` set cs
      then takeWhile (\<lambda>d. cc_Name d \<noteq> cc_Name c) cs @ c # tl (dropWhile (\<lambda>d. cc_Name d \<noteq> cc_Name c) cs)
      else cs)"
  by (induction cs) auto

lemma updated_names [simp]: "map cc_Name (wk_containersWithOneUpdated cs c) = map cc_Name cs"
  by (induction cs) simp_all

lemma updated_idem [simp]:
  "wk_containersWithOneUpdated (wk_containersWithOneUpdated cs c) c = wk_containersWithOneUpdated cs c"
  by (induction cs) simp_all

lemma updated_last [simp]:
  "cc_Name c = cc_Name c' \<Longrightarrow>
     wk_containersWithOneUpdated (wk_containersWithOneUpdated cs c) c' = wk_containersWithOneUpdated cs c'"
  by (induction cs) simp_all

lemma updated_commute:
  "cc_Name c \<noteq> cc_Name c' \<Longrightarrow>
     wk_containersWithOneUpdated (wk_containersWithOneUpdated cs c) c'
     = wk_containersWithOneUpdated (wk_containersWithOneUpdated cs c') c"
  by (induction cs) auto

lemma removed_updated [simp]:
  "wk_containersWithOneRemoved (wk_containersWithOneUpdated cs c) (cc_Name c)
   = wk_containersWithOneRemoved cs (cc_Name c)"
  by (induction cs) simp_all

lemma updated_removed [simp]:
  "wk_containersWithOneUpdated (wk_containersWithOneRemoved cs (cc_Name c)) c
   = wk_containersWithOneRemoved cs (cc_Name c)"
  by (induction cs) simp_all

lemma removed_idem [simp]:
  "wk_containersWithOneRemoved (wk_containersWithOneRemoved cs n) n = wk_containersWithOneRemoved cs n"
  by (simp add: removed_filter)

lemmas wk_edit_defs = wk_deployWithContainerUpdated_def wk_statefulsetWithContainerUpdated_def
  wk_deployWithContainerRemoved_def wk_statefulsetWithContainerRemoved_def

lemma edit_frame [simp]:
  "wl_key (wk_deployWithContainerUpdated w c) = wl_key w"
  "wl_key (wk_statefulsetWithContainerUpdated w c) = wl_key w"
  "wl_key (wk_deployWithContainerRemoved w n) = wl_key w"
  "wl_key (wk_statefulsetWithContainerRemoved w n) = wl_key w"
  "wl_Labels (wk_deployWithContainerUpdated w c) = wl_Labels w"
  "wl_Labels (wk_statefulsetWithContainerUpdated w c) = wl_Labels w"
  "wl_Labels (wk_deployWithContainerRemoved w n) = wl_Labels w"
  "wl_Labels (wk_statefulsetWithContainerRemoved w n) = wl_Labels w"
  by (simp_all add: wk_edit_defs wl_key_def)

lemma rc_edits_eq:
  "rc_deployWithContainerUpdated (Some w) c = Some (wk_deployWithContainerUpdated w c)"
  "rc_statefulsetWithContainerUpdated (Some w) c = Some (wk_statefulsetWithContainerUpdated w c)"
  "rc_deployWithContainerRemoved (Some w) n = Some (wk_deployWithContainerRemoved w n)"
  "rc_statefulsetWithContainerRemoved (Some w) n = Some (wk_statefulsetWithContainerRemoved w n)"
  by (simp_all add: wk_edit_defs rc_deployWithContainerUpdated_def rc_statefulsetWithContainerUpdated_def
      rc_deployWithContainerRemoved_def rc_statefulsetWithContainerRemoved_def rc_updated_eq
      rc_removed_filter removed_filter)

end
