(* ===== verification/Kube_Api.thy ===== *)
theory Kube_Api
  imports Containers
begin

section \<open>The Kubernetes client and the work queue as parameters\<close>

text \<open>
  The controller talks to the API server through \<open>kubernetes.Interface\<close> and keeps its events
  in a \<open>workqueue.TypedRateLimitingInterface\<close>. Both are library code: the model takes them as
  records of functions over states of their own. A namespace, a label key (the selector
  "label exists") and a workload go in; the new state and the result or an error come out.
\<close>

record 'k kube_client =
  kc_ListDeployments :: "'k \<Rightarrow> string \<Rightarrow> string \<Rightarrow> 'k \<times> (string + Workload list)"
  kc_ListStatefulSets :: "'k \<Rightarrow> string \<Rightarrow> string \<Rightarrow> 'k \<times> (string + Workload list)"
  kc_UpdateDeployment :: "'k \<Rightarrow> string \<Rightarrow> Workload \<Rightarrow> 'k \<times> string option"
  kc_UpdateStatefulSet :: "'k \<Rightarrow> string \<Rightarrow> Workload \<Rightarrow> 'k \<times> string option"

record 'q work_queue =
  wq_Add :: "'q \<Rightarrow> string \<Rightarrow> 'q"
  wq_AddRateLimited :: "'q \<Rightarrow> string \<Rightarrow> 'q"
  wq_Forget :: "'q \<Rightarrow> string \<Rightarrow> 'q"
  wq_Done :: "'q \<Rightarrow> string \<Rightarrow> 'q"
  wq_NumRequeues :: "'q \<Rightarrow> string \<Rightarrow> int"
  wq_Get :: "'q \<Rightarrow> 'q \<times> string \<times> bool"

subsection \<open>Documented behaviour\<close>

text \<open>
  What the API documents, seen through two observers that give the stored deployment and
  stateful set of a namespace and name: a list call changes nothing and returns, once each,
  the stored objects of the namespace (of all namespaces for the empty one) that carry the
  label; an update that reports success stores the object under its namespace and name.
  Nothing is said about a call that fails.
\<close>

type_synonym 'k observer = "'k \<Rightarrow> string \<times> string \<Rightarrow> Workload option"

definition selected :: "string \<Rightarrow> string \<Rightarrow> Workload \<Rightarrow> bool" where
  "selected ns label w \<longleftrightarrow> (ns = '''' \<or> wl_Namespace w = ns) \<and> map_of (wl_Labels w) label \<noteq> None"

definition well_stored :: "(string \<times> string \<Rightarrow> Workload option) \<Rightarrow> bool" where
  "well_stored st \<longleftrightarrow> (\<forall>key w. st key = Some w \<longrightarrow> wl_key w = key)"

definition lists_stored :: "(string \<times> string \<Rightarrow> Workload option) \<Rightarrow> string \<Rightarrow> string \<Rightarrow> Workload list \<Rightarrow> bool" where
  "lists_stored st ns label ws \<longleftrightarrow> distinct (map wl_key ws)
     \<and> (\<forall>w. w \<in> set ws \<longleftrightarrow> st (wl_key w) = Some w \<and> selected ns label w)"

definition kube_contract :: "'k kube_client \<Rightarrow> 'k observer \<Rightarrow> 'k observer \<Rightarrow> bool" where
  "kube_contract kc deps sts \<longleftrightarrow>
     (\<forall>k ns l k' r. kc_ListDeployments kc k ns l = (k', r) \<longrightarrow> deps k' = deps k \<and> sts k' = sts k
        \<and> (\<forall>ws. r = Inr ws \<longrightarrow> lists_stored (deps k) ns l ws))
   \<and> (\<forall>k ns l k' r. kc_ListStatefulSets kc k ns l = (k', r) \<longrightarrow> deps k' = deps k \<and> sts k' = sts k
        \<and> (\<forall>ws. r = Inr ws \<longrightarrow> lists_stored (sts k) ns l ws))
   \<and> (\<forall>k w k'. kc_UpdateDeployment kc k (wl_Namespace w) w = (k', None) \<longrightarrow>
        deps k' = (deps k)(wl_key w \<mapsto> w) \<and> sts k' = sts k)
   \<and> (\<forall>k w k'. kc_UpdateStatefulSet kc k (wl_Namespace w) w = (k', None) \<longrightarrow>
        sts k' = (sts k)(wl_key w \<mapsto> w) \<and> deps k' = deps k)"

text \<open>The queue counts rate-limited additions of a key until it is forgotten.\<close>

definition queue_contract :: "'q work_queue \<Rightarrow> bool" where
  "queue_contract wq \<longleftrightarrow>
     (\<forall>q key. wq_NumRequeues wq (wq_AddRateLimited wq q key) key = wq_NumRequeues wq q key + 1)
   \<and> (\<forall>q key. wq_NumRequeues wq (wq_Forget wq q key) key = 0)
   \<and> (\<forall>q key. wq_NumRequeues wq (wq_Done wq q key) key = wq_NumRequeues wq q key)"

text \<open>
  A failed update has left the object as it was, or was carried out although its answer was
  lost (a time-out); in either case it concerns that object only.
\<close>

definition kube_atomic :: "'k kube_client \<Rightarrow> 'k observer \<Rightarrow> 'k observer \<Rightarrow> bool" where
  "kube_atomic kc deps sts \<longleftrightarrow>
     (\<forall>k w k' err. kc_UpdateDeployment kc k (wl_Namespace w) w = (k', Some err) \<longrightarrow>
        sts k' = sts k \<and> (deps k' = deps k \<or> deps k' = (deps k)(wl_key w \<mapsto> w)))
   \<and> (\<forall>k w k' err. kc_UpdateStatefulSet kc k (wl_Namespace w) w = (k', Some err) \<longrightarrow>
        deps k' = deps k \<and> (sts k' = sts k \<or> sts k' = (sts k)(wl_key w \<mapsto> w)))"

text \<open>An API server that answers every call.\<close>

definition kube_up :: "'k kube_client \<Rightarrow> bool" where
  "kube_up kc \<longleftrightarrow>
     (\<forall>k ns l. (\<exists>k' ws. kc_ListDeployments kc k ns l = (k', Inr ws)) \<and> (\<exists>k' ws. kc_ListStatefulSets kc k ns l = (k', Inr ws)))
   \<and> (\<forall>k ns w. (\<exists>k'. kc_UpdateDeployment kc k ns w = (k', None)) \<and> (\<exists>k'. kc_UpdateStatefulSet kc k ns w = (k', None)))"

text \<open>
  What is still to be done, seen through an observer: the keys that were added (at once or
  after their delay) and not taken since, of a queue that accepts keys. \<open>Get\<close> takes one of
  them and reports a shutdown
  only when there is none.
\<close>

definition pending_contract :: "'q work_queue \<Rightarrow> ('q \<Rightarrow> string set) \<Rightarrow> bool" where
  "pending_contract wq pend \<longleftrightarrow>
     (\<forall>q key. pend (wq_Add wq q key) = insert key (pend q))
   \<and> (\<forall>q key. pend (wq_AddRateLimited wq q key) = insert key (pend q))
   \<and> (\<forall>q key. pend (wq_Forget wq q key) = pend q)
   \<and> (\<forall>q key. pend (wq_Done wq q key) = pend q)
   \<and> (\<forall>q q' key shutdown. wq_Get wq q = (q', key, shutdown) \<longrightarrow>
        (if shutdown then pend q = {} \<and> pend q' = {} else key \<in> pend q \<and> pend q' = pend q - {key}))"

lemma kube_upD:
  assumes "kube_up kc"
  shows "\<exists>k' ws. kc_ListDeployments kc k ns l = (k', Inr ws)" "\<exists>k' ws. kc_ListStatefulSets kc k ns l = (k', Inr ws)"
    "\<exists>k'. kc_UpdateDeployment kc k ns w = (k', None)" "\<exists>k'. kc_UpdateStatefulSet kc k ns w = (k', None)"
  using assms by (simp_all add: kube_up_def)

lemma kube_contractD:
  assumes "kube_contract kc deps sts"
  shows "kc_ListDeployments kc k ns l = (k', r) \<Longrightarrow> deps k' = deps k \<and> sts k' = sts k"
    "kc_ListDeployments kc k ns l = (k', Inr ws) \<Longrightarrow> lists_stored (deps k) ns l ws"
    "kc_ListStatefulSets kc k ns l = (k', r) \<Longrightarrow> deps k' = deps k \<and> sts k' = sts k"
    "kc_ListStatefulSets kc k ns l = (k', Inr ws) \<Longrightarrow> lists_stored (sts k) ns l ws"
    "kc_UpdateDeployment kc k (wl_Namespace w) w = (k', None) \<Longrightarrow>
       deps k' = (deps k)(wl_key w \<mapsto> w) \<and> sts k' = sts k"
    "kc_UpdateStatefulSet kc k (wl_Namespace w) w = (k', None) \<Longrightarrow>
       sts k' = (sts k)(wl_key w \<mapsto> w) \<and> deps k' = deps k"
  using assms unfolding kube_contract_def by blast+

subsection \<open>A client that keeps a log\<close>

text \<open>
  \<open>logged\<close> wraps any client: its state also keeps every update call with its result. It says
  what the controller attempts, whatever the API server answers.
\<close>

datatype update_call = UpdatedDeployment Workload "string option" | UpdatedStatefulSet Workload "string option"

fun call_error :: "update_call \<Rightarrow> string option" where
  "call_error (UpdatedDeployment w e) = e"
| "call_error (UpdatedStatefulSet w e) = e"

definition logged :: "'k kube_client \<Rightarrow> ('k \<times> update_call list) kube_client" where
  "logged kc = \<lparr>
     kc_ListDeployments = (\<lambda>(k, log) ns l. let (k', r) = kc_ListDeployments kc k ns l in ((k', log), r)),
     kc_ListStatefulSets = (\<lambda>(k, log) ns l. let (k', r) = kc_ListStatefulSets kc k ns l in ((k', log), r)),
     kc_UpdateDeployment = (\<lambda>(k, log) ns w.
        let (k', e) = kc_UpdateDeployment kc k ns w in ((k', log @ [UpdatedDeployment w e]), e)),
     kc_UpdateStatefulSet = (\<lambda>(k, log) ns w.
        let (k', e) = kc_UpdateStatefulSet kc k ns w in ((k', log @ [UpdatedStatefulSet w e]), e))\<rparr>"

subsection \<open>A concrete client and queue\<close>

text \<open>
  An API server that stores two lists of workloads (the first entry of a key counts) and
  always succeeds, and a queue that is a list of keys and a count per key. They show that the
  documented behaviour is possible; the witnesses use them.
\<close>

type_synonym plain_state = "Workload list \<times> Workload list"

definition stored :: "Workload list \<Rightarrow> string \<times> string \<Rightarrow> Workload option" where
  "stored ws key = map_of (map (\<lambda>w. (wl_key w, w)) ws) key"

definition plain_list :: "Workload list \<Rightarrow> string \<Rightarrow> string \<Rightarrow> Workload list" where
  "plain_list ws ns l = remdups (filter (\<lambda>w. stored ws (wl_key w) = Some w \<and> selected ns l w) ws)"

definition plain_kube :: "plain_state kube_client" where
  "plain_kube = \<lparr>
     kc_ListDeployments = (\<lambda>k ns l. (k, Inr (plain_list (fst k) ns l))),
     kc_ListStatefulSets = (\<lambda>k ns l. (k, Inr (plain_list (snd k) ns l))),
     kc_UpdateDeployment = (\<lambda>k ns w. ((w # fst k, snd k), None)),
     kc_UpdateStatefulSet = (\<lambda>k ns w. ((fst k, w # snd k), None))\<rparr>"

type_synonym plain_queue = "string list \<times> (string \<Rightarrow> int)"

definition plain_work_queue :: "plain_queue work_queue" where
  "plain_work_queue = \<lparr>
     wq_Add = (\<lambda>(ks, n) key. (if key \<in> set ks then ks else ks @ [key], n)),
     wq_AddRateLimited = (\<lambda>(ks, n) key. (if key \<in> set ks then ks else ks @ [key], n(key := n key + 1))),
     wq_Forget = (\<lambda>(ks, n) key. (ks, n(key := 0))),
     wq_Done = (\<lambda>q key. q),
     wq_NumRequeues = (\<lambda>(ks, n) key. n key),
     wq_Get = (\<lambda>(ks, n). case ks of [] \<Rightarrow> ((ks, n), '''', True) | key # rest \<Rightarrow> ((removeAll key rest, n), key, False))\<rparr>"

lemma stored_mem: "stored ws key = Some w \<Longrightarrow> w \<in> set ws \<and> wl_key w = key"
  by (auto simp: stored_def dest: map_of_SomeD)

lemma stored_Cons [simp]: "stored (w # ws) = (stored ws)(wl_key w \<mapsto> w)"
  by (auto simp: stored_def)

lemma plain_list_stored: "lists_stored (stored ws) ns l (plain_list ws ns l)"
proof -
  have "inj_on wl_key (set (plain_list ws ns l))"
    by (rule inj_onI) (auto simp: plain_list_def)
  then show ?thesis
    by (auto simp: lists_stored_def distinct_map plain_list_def dest: stored_mem)
qed

lemma plain_kube_contract: "kube_contract plain_kube (\<lambda>k. stored (fst k)) (\<lambda>k. stored (snd k))"
  by (auto simp: kube_contract_def plain_kube_def plain_list_stored)

lemma plain_queue_contract: "queue_contract plain_work_queue"
  by (auto simp: queue_contract_def plain_work_queue_def)

lemma plain_kube_atomic: "kube_atomic plain_kube deps sts"
  by (simp add: kube_atomic_def plain_kube_def)

lemma plain_kube_up: "kube_up plain_kube"
  by (simp add: kube_up_def plain_kube_def)

lemma plain_queue_pending: "pending_contract plain_work_queue (\<lambda>q. set (fst q))"
  by (auto simp: pending_contract_def plain_work_queue_def split: list.splits if_splits)

end
