(* ===== verification/Event_Key.thy ===== *)
theory Event_Key
  imports Prelude
begin

section \<open>Events of the work queue\<close>

text \<open>
  \<open>internal/ctrl/worker/event.go\<close>: an event is written into a queue key
  \<open>type/namespace/name\<close> and read back with \<open>strings.SplitN(key, "/", 3)\<close>. An \<open>EventType\<close> is a
  string; three values are named.
\<close>

definition EventTypeAdd :: string where "EventTypeAdd = ''Add''"
definition EventTypeUpdate :: string where "EventTypeUpdate = ''Update''"
definition EventTypeDelete :: string where "EventTypeDelete = ''Delete''"

record CRDWorkerEvent =
  ev_Type :: string
  ev_ContainerName :: string
  ev_Namespace :: string

definition event_key :: "CRDWorkerEvent \<Rightarrow> string" where
  "event_key e = ev_Type e @ ''/'' @ ev_Namespace e @ ''/'' @ ev_ContainerName e"

text \<open>\<open>strings.SplitN(s, sep, n)\<close> for a one-character separator and \<open>n \<ge> 0\<close>.\<close>

fun splitN :: "nat \<Rightarrow> char \<Rightarrow> string \<Rightarrow> string list" where
  "splitN 0 c s = []"
| "splitN (Suc 0) c s = [s]"
| "splitN (Suc (Suc n)) c s =
     (if c \<in> set s
      then takeWhile (\<lambda>x. x \<noteq> c) s # splitN (Suc n) c (tl (dropWhile (\<lambda>x. x \<noteq> c) s))
      else [s])"

definition parseEventKey :: "string \<Rightarrow> string + CRDWorkerEvent" where
  "parseEventKey key =
     (case splitN 3 CHR ''/'' key of
        [t, ns, name] \<Rightarrow> Inr \<lparr>ev_Type = t, ev_ContainerName = name, ev_Namespace = ns\<rparr>
      | _ \<Rightarrow> Inl (''invalid event key '' @ key))"

lemma takeWhile_sep: "c \<notin> set s \<Longrightarrow> takeWhile (\<lambda>x. x \<noteq> c) (s @ c # t) = s"
  by (induction s) auto

lemma dropWhile_sep: "c \<notin> set s \<Longrightarrow> dropWhile (\<lambda>x. x \<noteq> c) (s @ c # t) = c # t"
  by (induction s) auto

lemma splitN_sep: "c \<notin> set s \<Longrightarrow> splitN (Suc (Suc n)) c (s @ c # t) = s # splitN (Suc n) c t"
  by (simp add: takeWhile_sep dropWhile_sep)

lemma splitN_three:
  "splitN 3 c s = (if c \<in> set s then
      (let a = takeWhile (\<lambda>x. x \<noteq> c) s; r = tl (dropWhile (\<lambda>x. x \<noteq> c) s) in
       if c \<in> set r then [a, takeWhile (\<lambda>x. x \<noteq> c) r, tl (dropWhile (\<lambda>x. x \<noteq> c) r)] else [a, r])
     else [s])"
  by (simp add: numeral_3_eq_3 Let_def)

lemma split_first:
  "c \<in> set s \<Longrightarrow> s = takeWhile (\<lambda>x. x \<noteq> c) s @ c # tl (dropWhile (\<lambda>x. x \<noteq> c) s)"
  by (induction s) auto

text \<open>A key is read back as written exactly when type and namespace have no slash.\<close>

lemma parse_key:
  assumes "CHR ''/'' \<notin> set (ev_Type e)" "CHR ''/'' \<notin> set (ev_Namespace e)"
  shows "parseEventKey (event_key e) = Inr e"
proof -
  have "splitN 3 CHR ''/'' (event_key e) = [ev_Type e, ev_Namespace e, ev_ContainerName e]"
    using splitN_sep [OF assms(1), of 1] splitN_sep [OF assms(2), of 0]
    by (simp add: event_key_def numeral_3_eq_3 One_nat_def)
  then show ?thesis by (simp add: parseEventKey_def)
qed

lemma parse_sound:
  assumes "parseEventKey key = Inr e"
  shows "event_key e = key \<and> CHR ''/'' \<notin> set (ev_Type e) \<and> CHR ''/'' \<notin> set (ev_Namespace e)"
proof -
  let ?c = "CHR ''/''" and ?r = "tl (dropWhile (\<lambda>x. x \<noteq> CHR ''/'') key)"
  from assms have a: "?c \<in> set key" "?c \<in> set ?r"
    and e: "ev_Type e = takeWhile (\<lambda>x. x \<noteq> ?c) key" "ev_Namespace e = takeWhile (\<lambda>x. x \<noteq> ?c) ?r"
      "ev_ContainerName e = tl (dropWhile (\<lambda>x. x \<noteq> ?c) ?r)"
    by (auto simp: parseEventKey_def splitN_three Let_def split: if_splits)
  have "key = ev_Type e @ ?c # ev_Namespace e @ ?c # ev_ContainerName e"
    using split_first [OF a(1)] split_first [OF a(2)] e by simp
  moreover have "?c \<notin> set (ev_Type e)" "?c \<notin> set (ev_Namespace e)"
    unfolding e by (auto dest: set_takeWhileD)
  ultimately show ?thesis by (simp add: event_key_def)
qed

lemma event_key_inj:
  assumes "CHR ''/'' \<notin> set (ev_Type e)" "CHR ''/'' \<notin> set (ev_Namespace e)"
    and "CHR ''/'' \<notin> set (ev_Type e')" "CHR ''/'' \<notin> set (ev_Namespace e')"
    and eq: "event_key e = event_key e'"
  shows "e = e'"
proof -
  have "(Inr e :: string + CRDWorkerEvent) = Inr e'"
    using parse_key [OF assms(1,2)] parse_key [OF assms(3,4)] unfolding eq by (rule trans [OF sym])
  then show ?thesis by (rule sum.inject(2) [THEN iffD1])
qed

end
