(* ===== verification/CRD_Worker.thy ===== *)
theory CRD_Worker
  imports General_Cache Kube_Api Event_Key
begin

section \<open>Handlers and worker of the custom resource\<close>

text \<open>
  \<open>internal/ctrl/worker/crd_handlers.go\<close> and \<open>crd_worker.go\<close>. The informer's callbacks update
  the shared cache and enqueue an event key; the worker takes a key, reads the cache and
  edits every labelled deployment and stateful set of the namespace. The cache holds
  pointers (\<open>None\<close> is nil). The five-second contexts of the API calls are part of the client:
  a call that times out is a call that returns an error.
\<close>

type_synonym container_cache = "CoreContainer option GeneralCache"

record ('q, 'k) crd_state =
  cs_cache :: container_cache
  cs_queue :: 'q
  cs_kube :: 'k

record CRDWorker =
  w_label :: string
  w_maxRetries :: int

text \<open>
  A new worker: its queue, empty, is the library's; the handlers it makes share cache and
  queue with it.
\<close>

definition NewCRDWorker ::
  "container_cache \<Rightarrow> string \<Rightarrow> 'k \<Rightarrow> int \<Rightarrow> 'q \<Rightarrow> CRDWorker \<times> ('q, 'k) crd_state" where
  "NewCRDWorker c label kubeClient maxRetries newQueue =
     (\<lparr>w_label = label, w_maxRetries = maxRetries\<rparr>, \<lparr>cs_cache = c, cs_queue = newQueue, cs_kube = kubeClient\<rparr>)"

subsection \<open>The handlers\<close>

definition crd_enqueue :: "'q work_queue \<Rightarrow> ('q, 'k) crd_state \<Rightarrow> CRDWorkerEvent \<Rightarrow> ('q, 'k) crd_state" where
  "crd_enqueue wq s event = s\<lparr>cs_queue := wq_Add wq (cs_queue s) (event_key event)\<rparr>"

definition crd_OnAdded ::
  "'q work_queue \<Rightarrow> (json \<Rightarrow> string + Container) \<Rightarrow> ('q, 'k) crd_state \<Rightarrow> any_obj \<Rightarrow> ('q, 'k) crd_state" where
  "crd_OnAdded wq fu s obj =
     (case ParseContainer fu obj of
        None \<Rightarrow> s
      | Some container \<Rightarrow>
          let coreContainer = ToCoreV1Container container;
              (c, old, existed) = gc_Add (cs_cache s) (cc_Name coreContainer) (Some coreContainer)
          in crd_enqueue wq (s\<lparr>cs_cache := c\<rparr>) \<lparr>ev_Type = EventTypeAdd,
               ev_ContainerName = cc_Name coreContainer, ev_Namespace = co_Namespace container\<rparr>)"

definition crd_OnUpdated ::
  "'q work_queue \<Rightarrow> (json \<Rightarrow> string + Container) \<Rightarrow> ('q, 'k) crd_state \<Rightarrow> any_obj \<Rightarrow> ('q, 'k) crd_state" where
  "crd_OnUpdated wq fu s newObj =
     (case ParseContainer fu newObj of
        None \<Rightarrow> s
      | Some container \<Rightarrow>
          let coreContainer = ToCoreV1Container container;
              (c, old, ok) = gc_Update None (cs_cache s) (cc_Name coreContainer) (Some coreContainer)
          in if \<not> ok then s
             else crd_enqueue wq (s\<lparr>cs_cache := c\<rparr>) \<lparr>ev_Type = EventTypeUpdate,
               ev_ContainerName = cc_Name coreContainer, ev_Namespace = co_Namespace container\<rparr>)"

definition crd_OnDeleted ::
  "'q work_queue \<Rightarrow> (json \<Rightarrow> string + Container) \<Rightarrow> ('q, 'k) crd_state \<Rightarrow> any_obj \<Rightarrow> ('q, 'k) crd_state" where
  "crd_OnDeleted wq fu s obj =
     (case ParseContainer fu obj of
        None \<Rightarrow> s
      | Some container \<Rightarrow>
          let coreContainer = ToCoreV1Container container;
              (c, old, ok) = gc_Delete None (cs_cache s) (cc_Name coreContainer)
          in if \<not> ok then s
             else crd_enqueue wq (s\<lparr>cs_cache := c\<rparr>) \<lparr>ev_Type = EventTypeDelete,
               ev_ContainerName = cc_Name coreContainer, ev_Namespace = co_Namespace container\<rparr>)"

subsection \<open>The worker\<close>

text \<open>\<open>errors.Join\<close> of a list without nil: no error for the empty list.\<close>

fun join_lines :: "string list \<Rightarrow> string" where
  "join_lines [] = ''''"
| "join_lines [e] = e"
| "join_lines (e # es) = e @ [CHR 0x0A] @ join_lines es"

definition errors_Join :: "string list \<Rightarrow> string option" where
  "errors_Join errs = (if errs = [] then None else Some (join_lines errs))"

lemma errors_Join_None [simp]: "errors_Join errs = None \<longleftrightarrow> errs = []"
  by (simp add: errors_Join_def)

definition wk_listDeployments :: "'k kube_client \<Rightarrow> string \<Rightarrow> 'k \<Rightarrow> string \<Rightarrow> 'k \<times> (string + Workload list)" where
  "wk_listDeployments kc label k namespace = kc_ListDeployments kc k namespace label"

definition wk_listStatefulSets :: "'k kube_client \<Rightarrow> string \<Rightarrow> 'k \<Rightarrow> string \<Rightarrow> 'k \<times> (string + Workload list)" where
  "wk_listStatefulSets kc label k namespace = kc_ListStatefulSets kc k namespace label"

definition wk_updateDeployment :: "'k kube_client \<Rightarrow> 'k \<Rightarrow> Workload \<Rightarrow> 'k \<times> string option" where
  "wk_updateDeployment kc k dep = kc_UpdateDeployment kc k (wl_Namespace dep) dep"

definition wk_updateStatefulSet :: "'k kube_client \<Rightarrow> 'k \<Rightarrow> Workload \<Rightarrow> 'k \<times> string option" where
  "wk_updateStatefulSet kc k sts = kc_UpdateStatefulSet kc k (wl_Namespace sts) sts"

definition workload_error :: "string \<Rightarrow> Workload \<Rightarrow> string \<Rightarrow> string" where
  "workload_error what w err = ''update '' @ what @ '' '' @ wl_Namespace w @ ''/'' @ wl_Name w @ '': '' @ err"

definition list_error :: "string \<Rightarrow> string \<Rightarrow> string \<Rightarrow> string" where
  "list_error what namespace err = ''list '' @ what @ '' in namespace '' @ namespace @ '': '' @ err"

text \<open>The loop over the listed items: edit, update, collect the error and go on.\<close>

fun update_items ::
  "('k \<Rightarrow> Workload \<Rightarrow> 'k \<times> string option) \<Rightarrow> string \<Rightarrow> (Workload \<Rightarrow> Workload go)
   \<Rightarrow> 'k \<Rightarrow> string list \<Rightarrow> Workload list \<Rightarrow> ('k \<times> string list) go" where
  "update_items upd what edit k errs [] = Inr (k, errs)"
| "update_items upd what edit k errs (item # items) =
     go_bind (edit item) (\<lambda>updated.
       case upd k updated of
         (k', None) \<Rightarrow> update_items upd what edit k' errs items
       | (k', Some err) \<Rightarrow> update_items upd what edit k' (errs @ [workload_error what updated err]) items)"

definition wk_reconcileUpdate ::
  "'k kube_client \<Rightarrow> string \<Rightarrow> container_cache \<Rightarrow> 'k \<Rightarrow> string \<Rightarrow> string \<Rightarrow> ('k \<times> string option) go" where
  "wk_reconcileUpdate kc label cache k containerName namespace =
     (let (container, ok) = gc_Get None cache containerName in
      if \<not> ok then Inr (k, None)
      else case wk_listDeployments kc label k namespace of
        (k1, Inl err) \<Rightarrow> Inr (k1, Some (list_error ''deployments'' namespace err))
      | (k1, Inr deployments) \<Rightarrow>
          go_bind (update_items (wk_updateDeployment kc) ''deployment''
              (\<lambda>d. go_bind (go_deref container) (\<lambda>c. Inr (wk_deployWithContainerUpdated d c))) k1 [] deployments)
          (\<lambda>(k2, errs). case wk_listStatefulSets kc label k2 namespace of
             (k3, Inl err) \<Rightarrow> Inr (k3, Some (list_error ''statefulsets'' namespace err))
           | (k3, Inr statefulSets) \<Rightarrow>
               go_bind (update_items (wk_updateStatefulSet kc) ''statefulset''
                   (\<lambda>d. go_bind (go_deref container) (\<lambda>c. Inr (wk_statefulsetWithContainerUpdated d c))) k3 errs statefulSets)
               (\<lambda>(k4, errs'). Inr (k4, errors_Join errs'))))"

definition wk_reconcileDelete ::
  "'k kube_client \<Rightarrow> string \<Rightarrow> 'k \<Rightarrow> string \<Rightarrow> string \<Rightarrow> ('k \<times> string option) go" where
  "wk_reconcileDelete kc label k containerName namespace =
     (case wk_listDeployments kc label k namespace of
        (k1, Inl err) \<Rightarrow> Inr (k1, Some (list_error ''deployments'' namespace err))
      | (k1, Inr deployments) \<Rightarrow>
          go_bind (update_items (wk_updateDeployment kc) ''deployment''
              (\<lambda>d. Inr (wk_deployWithContainerRemoved d containerName)) k1 [] deployments)
          (\<lambda>(k2, errs). case wk_listStatefulSets kc label k2 namespace of
             (k3, Inl err) \<Rightarrow> Inr (k3, Some (list_error ''statefulsets'' namespace err))
           | (k3, Inr statefulSets) \<Rightarrow>
               go_bind (update_items (wk_updateStatefulSet kc) ''statefulset''
                   (\<lambda>d. Inr (wk_statefulsetWithContainerRemoved d containerName)) k3 errs statefulSets)
               (\<lambda>(k4, errs'). Inr (k4, errors_Join errs'))))"

definition wk_processEvent ::
  "'k kube_client \<Rightarrow> string \<Rightarrow> container_cache \<Rightarrow> 'k \<Rightarrow> CRDWorkerEvent \<Rightarrow> ('k \<times> string option) go" where
  "wk_processEvent kc label cache k event =
     (if ev_Type event = EventTypeAdd then Inr (k, None)
      else if ev_Type event = EventTypeUpdate
        then wk_reconcileUpdate kc label cache k (ev_ContainerName event) (ev_Namespace event)
      else if ev_Type event = EventTypeDelete
        then wk_reconcileDelete kc label k (ev_ContainerName event) (ev_Namespace event)
      else Inr (k, None))"

definition wk_shouldRetry :: "CRDWorker \<Rightarrow> int \<Rightarrow> bool" where
  "wk_shouldRetry w numRequeues = (if w_maxRetries w < 0 then True else numRequeues < w_maxRetries w)"

definition wk_process ::
  "'k kube_client \<Rightarrow> 'q work_queue \<Rightarrow> CRDWorker \<Rightarrow> ('q, 'k) crd_state \<Rightarrow> string \<Rightarrow> ('q, 'k) crd_state go" where
  "wk_process kc wq w s key =
     go_bind
       (case parseEventKey key of
          Inl err \<Rightarrow> Inr (s\<lparr>cs_queue := wq_Forget wq (cs_queue s) key\<rparr>)
        | Inr event \<Rightarrow>
            go_bind (wk_processEvent kc (w_label w) (cs_cache s) (cs_kube s) event) (\<lambda>(k, err).
              let s1 = s\<lparr>cs_kube := k\<rparr> in
              if err \<noteq> None \<and> wk_shouldRetry w (wq_NumRequeues wq (cs_queue s1) key)
              then Inr (s1\<lparr>cs_queue := wq_AddRateLimited wq (cs_queue s1) key\<rparr>)
              else Inr (s1\<lparr>cs_queue := wq_Forget wq (cs_queue s1) key\<rparr>)))
       (\<lambda>s2. Inr (s2\<lparr>cs_queue := wq_Done wq (cs_queue s2) key\<rparr>))"

text \<open>
  The loop of a worker goroutine; it ends when the queue reports shutdown. \<open>Get\<close> is the
  queue's. A round takes one key; the number bounds the rounds, \<open>None\<close> means that there would
  have been more.
\<close>

definition wk_round ::
  "'k kube_client \<Rightarrow> 'q work_queue \<Rightarrow> CRDWorker \<Rightarrow> ('q, 'k) crd_state \<Rightarrow> (('q, 'k) crd_state \<times> bool) go" where
  "wk_round kc wq w s =
     (let (q, key, shutdown) = wq_Get wq (cs_queue s); s1 = s\<lparr>cs_queue := q\<rparr> in
      if shutdown then Inr (s1, True)
      else go_bind (wk_process kc wq w s1 key) (\<lambda>s2. Inr (s2, False)))"

fun wk_runWorker ::
  "nat \<Rightarrow> 'k kube_client \<Rightarrow> 'q work_queue \<Rightarrow> CRDWorker \<Rightarrow> ('q, 'k) crd_state \<Rightarrow> ('q, 'k) crd_state option go" where
  "wk_runWorker 0 kc wq w s = Inr None"
| "wk_runWorker (Suc n) kc wq w s =
     go_bind (wk_round kc wq w s) (\<lambda>(s', shutdown).
       if shutdown then Inr (Some s') else wk_runWorker n kc wq w s')"

end
