(* ===== verification/CRD_Worker_Facts.thy ===== *)
theory CRD_Worker_Facts
  imports CRD_Worker
begin

section \<open>Lemmas on the worker\<close>

text \<open>
  Update and removal run the same two loops with different edits. \<open>reconcile_with\<close> is that
  common shape with pure edits; the lemmas on it give what a reconcile stores, what it
  attempts, and when it reports success.
\<close>

fun update_all ::
  "('k \<Rightarrow> Workload \<Rightarrow> 'k \<times> string option) \<Rightarrow> string \<Rightarrow> (Workload \<Rightarrow> Workload)
   \<Rightarrow> 'k \<Rightarrow> string list \<Rightarrow> Workload list \<Rightarrow> 'k \<times> string list" where
  "update_all upd what f k errs [] = (k, errs)"
| "update_all upd what f k errs (w # ws) =
     (case upd k (f w) of
        (k', None) \<Rightarrow> update_all upd what f k' errs ws
      | (k', Some err) \<Rightarrow> update_all upd what f k' (errs @ [workload_error what (f w) err]) ws)"

definition reconcile_with ::
  "'k kube_client \<Rightarrow> string \<Rightarrow> 'k \<Rightarrow> string \<Rightarrow> (Workload \<Rightarrow> Workload) \<Rightarrow> (Workload \<Rightarrow> Workload) \<Rightarrow> 'k \<times> string option" where
  "reconcile_with kc label k ns fd fs =
     (case kc_ListDeployments kc k ns label of
        (k1, Inl err) \<Rightarrow> (k1, Some (list_error ''deployments'' ns err))
      | (k1, Inr ds) \<Rightarrow>
          let (k2, errs) = update_all (wk_updateDeployment kc) ''deployment'' fd k1 [] ds in
          (case kc_ListStatefulSets kc k2 ns label of
             (k3, Inl err) \<Rightarrow> (k3, Some (list_error ''statefulsets'' ns err))
           | (k3, Inr ss) \<Rightarrow>
               let (k4, errs') = update_all (wk_updateStatefulSet kc) ''statefulset'' fs k3 errs ss
               in (k4, errors_Join errs')))"

lemma update_items_pure:
  "(\<And>w. edit w = Inr (f w)) \<Longrightarrow> update_items upd what edit k errs ws = Inr (update_all upd what f k errs ws)"
  by (induction ws arbitrary: k errs) (simp_all split: prod.splits option.splits)

lemma reconcileUpdate_eq:
  assumes "cache name = Some (Some c)"
  shows "wk_reconcileUpdate kc label cache k name ns = Inr (reconcile_with kc label k ns
    (\<lambda>d. wk_deployWithContainerUpdated d c) (\<lambda>d. wk_statefulsetWithContainerUpdated d c))"
proof -
  have d: "update_items upd what (\<lambda>d. Inr (wk_deployWithContainerUpdated d c)) k errs ws
      = Inr (update_all upd what (\<lambda>d. wk_deployWithContainerUpdated d c) k errs ws)" for upd :: "'a \<Rightarrow> _" and what k errs ws
    by (rule update_items_pure) simp
  have s: "update_items upd what (\<lambda>d. Inr (wk_statefulsetWithContainerUpdated d c)) k errs ws
      = Inr (update_all upd what (\<lambda>d. wk_statefulsetWithContainerUpdated d c) k errs ws)" for upd :: "'a \<Rightarrow> _" and what k errs ws
    by (rule update_items_pure) simp
  show ?thesis
    by (simp add: wk_reconcileUpdate_def reconcile_with_def gc_Get_def assms d s
        wk_listDeployments_def wk_listStatefulSets_def split: prod.splits sum.splits)
qed

lemma reconcileUpdate_miss: "cache name = None \<Longrightarrow> wk_reconcileUpdate kc label cache k name ns = Inr (k, None)"
  by (simp add: wk_reconcileUpdate_def gc_Get_def)

lemma reconcileDelete_eq:
  "wk_reconcileDelete kc label k name ns = Inr (reconcile_with kc label k ns
    (\<lambda>d. wk_deployWithContainerRemoved d name) (\<lambda>d. wk_statefulsetWithContainerRemoved d name))"
proof -
  have d: "update_items upd what (\<lambda>d. Inr (wk_deployWithContainerRemoved d name)) k errs ws
      = Inr (update_all upd what (\<lambda>d. wk_deployWithContainerRemoved d name) k errs ws)" for upd :: "'a \<Rightarrow> _" and what k errs ws
    by (rule update_items_pure) simp
  have s: "update_items upd what (\<lambda>d. Inr (wk_statefulsetWithContainerRemoved d name)) k errs ws
      = Inr (update_all upd what (\<lambda>d. wk_statefulsetWithContainerRemoved d name) k errs ws)" for upd :: "'a \<Rightarrow> _" and what k errs ws
    by (rule update_items_pure) simp
  show ?thesis
    by (simp add: wk_reconcileDelete_def reconcile_with_def d s
        wk_listDeployments_def wk_listStatefulSets_def split: prod.splits sum.splits)
qed

subsection \<open>What a successful reconcile stores\<close>

lemma update_all_errs:
  "update_all upd what f k errs ws = (k', errs') \<Longrightarrow> \<exists>more. errs' = errs @ more"
  by (induction ws arbitrary: k errs) (fastforce split: prod.splits option.splits)+

lemma update_all_stored:
  assumes step: "\<And>k w k'. upd k w = (k', None) \<Longrightarrow> st k' = (st k)(wl_key w \<mapsto> w) \<and> other k' = other k"
    and key: "\<And>w. wl_key (f w) = wl_key w"
  shows "update_all upd what f k [] ws = (k', []) \<Longrightarrow> distinct (map wl_key ws) \<Longrightarrow>
    (\<forall>w \<in> set ws. st k (wl_key w) = Some w) \<Longrightarrow>
    other k' = other k \<and>
    st k' = (\<lambda>key. if key \<in> wl_key ` set ws then map_option f (st k key) else st k key)"
proof (induction ws arbitrary: k)
  case (Cons w ws)
  obtain k1 e where u: "upd k (f w) = (k1, e)" by (cases "upd k (f w)")
  with Cons.prems(1) have e: "e = None"
    using update_all_errs [of upd what f k1 "[workload_error what (f w) err]" ws k' "[]" for err]
    by (cases e) auto
  with step [of k "f w"] u key have k1: "st k1 = (st k)(wl_key w \<mapsto> f w)" "other k1 = other k" by auto
  have still: "\<forall>v \<in> set ws. st k1 (wl_key v) = Some v"
  proof
    fix v
    assume v: "v \<in> set ws"
    then have "wl_key v \<in> wl_key ` set ws" by (rule imageI)
    with Cons.prems(2) have "wl_key v \<noteq> wl_key w" by auto
    with v Cons.prems(3) k1(1) show "st k1 (wl_key v) = Some v" by simp
  qed
  have rest: "update_all upd what f k1 [] ws = (k', [])" "distinct (map wl_key ws)"
    using Cons.prems u e by simp_all
  note ih = Cons.IH [OF rest still, THEN conjunct1] Cons.IH [OF rest still, THEN conjunct2]
  show ?case
  proof
    show "other k' = other k" using ih(1) k1(2) by simp
    show "st k' = (\<lambda>key. if key \<in> wl_key ` set (w # ws) then map_option f (st k key) else st k key)"
    proof
      fix key
      show "st k' key = (if key \<in> wl_key ` set (w # ws) then map_option f (st k key) else st k key)"
        using Cons.prems(2,3) k1(1) by (auto simp: ih(2))
    qed
  qed
qed simp

text \<open>The stored objects after an edit of the selected ones.\<close>

definition edited ::
  "(string \<times> string \<Rightarrow> Workload option) \<Rightarrow> string \<Rightarrow> string \<Rightarrow> (Workload \<Rightarrow> Workload) \<Rightarrow> string \<times> string \<Rightarrow> Workload option" where
  "edited st ns label f key = map_option (\<lambda>w. if selected ns label w then f w else w) (st key)"

lemma edited_lists:
  assumes "lists_stored st ns label ws" "well_stored st"
  shows "(\<lambda>key. if key \<in> wl_key ` set ws then map_option f (st key) else st key) = edited st ns label f"
proof
  fix key
  show "(if key \<in> wl_key ` set ws then map_option f (st key) else st key) = edited st ns label f key"
  proof (cases "st key")
    case (Some w)
    with assms(2) have k: "wl_key w = key" unfolding well_stored_def by blast
    have "key \<in> wl_key ` set ws \<longleftrightarrow> selected ns label w"
    proof
      assume "key \<in> wl_key ` set ws"
      then obtain v where "v \<in> set ws" "wl_key v = key" by blast
      with assms(1) Some show "selected ns label w" by (auto simp: lists_stored_def)
    next
      assume "selected ns label w"
      with assms(1) Some k have "w \<in> set ws" by (auto simp: lists_stored_def)
      with k show "key \<in> wl_key ` set ws" by blast
    qed
    with Some show ?thesis by (simp add: edited_def)
  qed (simp add: edited_def)
qed

lemma well_stored_edited:
  "well_stored st \<Longrightarrow> (\<And>w. wl_key (f w) = wl_key w) \<Longrightarrow> well_stored (edited st ns label f)"
  by (auto simp: well_stored_def edited_def)

lemma edited_idem:
  assumes "\<And>w. f (f w) = f w" "\<And>w. selected ns label (f w) = selected ns label w"
  shows "edited (edited st ns label f) ns label f = edited st ns label f"
proof
  fix key
  show "edited (edited st ns label f) ns label f key = edited st ns label f key"
    using assms by (cases "st key") (simp_all add: edited_def)
qed

lemma selected_edit:
  "wl_key w' = wl_key w \<Longrightarrow> wl_Labels w' = wl_Labels w \<Longrightarrow> selected ns label w' = selected ns label w"
  by (simp add: selected_def wl_key_def)

lemma reconcile_with_stores:
  assumes kc: "kube_contract kc deps sts"
    and ws: "well_stored (deps k)" "well_stored (sts k)"
    and key: "\<And>w. wl_key (fd w) = wl_key w" "\<And>w. wl_key (fs w) = wl_key w"
    and run: "reconcile_with kc label k ns fd fs = (k', None)"
  shows "deps k' = edited (deps k) ns label fd \<and> sts k' = edited (sts k) ns label fs"
proof -
  note K = kube_contractD [OF kc]
  have upd: "wk_updateDeployment kc k w = (k', None) \<Longrightarrow> deps k' = (deps k)(wl_key w \<mapsto> w) \<and> sts k' = sts k"
    "wk_updateStatefulSet kc k w = (k', None) \<Longrightarrow> sts k' = (sts k)(wl_key w \<mapsto> w) \<and> deps k' = deps k" for k w k'
    using K(5,6) by (simp_all add: wk_updateDeployment_def wk_updateStatefulSet_def)
  obtain k1 r where l1: "kc_ListDeployments kc k ns label = (k1, r)" by (cases "kc_ListDeployments kc k ns label")
  with run obtain ds where r: "r = Inr ds" by (cases r) (auto simp: reconcile_with_def)
  obtain k2 errs where u1: "update_all (wk_updateDeployment kc) ''deployment'' fd k1 [] ds = (k2, errs)"
    by (cases "update_all (wk_updateDeployment kc) ''deployment'' fd k1 [] ds")
  obtain k3 r' where l2: "kc_ListStatefulSets kc k2 ns label = (k3, r')" by (cases "kc_ListStatefulSets kc k2 ns label")
  with run l1 r u1 obtain ss where r': "r' = Inr ss" by (cases r') (auto simp: reconcile_with_def)
  obtain k4 errs' where u2: "update_all (wk_updateStatefulSet kc) ''statefulset'' fs k3 errs ss = (k4, errs')"
    by (cases "update_all (wk_updateStatefulSet kc) ''statefulset'' fs k3 errs ss")
  from run l1 r u1 l2 r' u2 have fin: "errs' = []" "k' = k4" by (auto simp: reconcile_with_def)
  with update_all_errs [OF u2] have errs: "errs = []" by simp
  from K(1) [OF l1] K(2) [OF l1 [unfolded r]] have a1: "deps k1 = deps k" "sts k1 = sts k"
    "lists_stored (deps k) ns label ds" by simp_all
  from K(3) [OF l2] K(4) [OF l2 [unfolded r']] have a2: "deps k3 = deps k2" "sts k3 = sts k2"
    "lists_stored (sts k2) ns label ss" by simp_all
  from update_all_stored [where st = deps and other = sts, OF upd(1) key(1) u1 [unfolded errs]] a1
  have b1: "sts k2 = sts k" "deps k2 = (\<lambda>key. if key \<in> wl_key ` set ds then map_option fd (deps k key) else deps k key)"
    by (auto simp: lists_stored_def)
  from update_all_stored [where st = sts and other = deps, OF upd(2) key(2) u2 [unfolded errs fin]] a2
  have b2: "deps k4 = deps k2" "sts k4 = (\<lambda>key. if key \<in> wl_key ` set ss then map_option fs (sts k2 key) else sts k2 key)"
    by (auto simp: lists_stored_def)
  show ?thesis
    using b1 b2 fin edited_lists [OF a1(3) ws(1), of fd] edited_lists [OF a2(3), of fs] ws(2) by simp
qed

text \<open>With an API server that answers every call, a reconcile succeeds.\<close>

lemma reconcile_up:
  assumes "kube_up kc"
  shows "\<exists>k'. reconcile_with kc label k ns fd fs = (k', None)"
proof -
  have all: "\<exists>k'. update_all upd what f k [] ws = (k', [])"
    if "\<And>k w. \<exists>k'. upd k w = (k', None)" for upd :: "'a \<Rightarrow> _" and what f k ws
  proof (induction ws arbitrary: k)
    case (Cons w ws)
    from that [of k "f w"] obtain k1 where "upd k (f w) = (k1, None)" by blast
    with Cons.IH [of k1] show ?case by simp
  qed simp
  obtain k1 ds where l1: "kc_ListDeployments kc k ns label = (k1, Inr ds)"
    using kube_upD(1) [OF assms] by blast
  obtain k2 where k2: "update_all (wk_updateDeployment kc) ''deployment'' fd k1 [] ds = (k2, [])"
    using all [of "wk_updateDeployment kc" "''deployment''" fd k1 ds] kube_upD(3) [OF assms] by (auto simp: wk_updateDeployment_def)
  obtain k3 ss where l2: "kc_ListStatefulSets kc k2 ns label = (k3, Inr ss)"
    using kube_upD(2) [OF assms] by blast
  obtain k4 where "update_all (wk_updateStatefulSet kc) ''statefulset'' fs k3 [] ss = (k4, [])"
    using all [of "wk_updateStatefulSet kc" "''statefulset''" fs k3 ss] kube_upD(4) [OF assms] by (auto simp: wk_updateStatefulSet_def)
  with l1 k2 l2 show ?thesis by (simp add: reconcile_with_def)
qed

subsection \<open>What a reconcile attempts\<close>

fun call_workload :: "update_call \<Rightarrow> bool \<times> Workload" where
  "call_workload (UpdatedDeployment w e) = (True, w)"
| "call_workload (UpdatedStatefulSet w e) = (False, w)"

lemma update_all_logged:
  assumes upd: "\<And>k log w. upd (k, log) w = (let (k', e) = u k w in ((k', log @ [mk w e]), e))"
    and mk: "\<And>w e. call_error (mk w e) = e" "\<And>w e. call_workload (mk w e) = (b, w)"
  shows "\<exists>k' calls errs'. update_all upd what f (k, log) errs ws = ((k', log @ calls), errs')
    \<and> map call_workload calls = map (\<lambda>w. (b, f w)) ws
    \<and> (errs' = [] \<longleftrightarrow> errs = [] \<and> (\<forall>c \<in> set calls. call_error c = None))"
proof (induction ws arbitrary: k log errs)
  case (Cons w ws)
  obtain k1 e where u: "u k (f w) = (k1, e)" by (cases "u k (f w)")
  define errs1 where "errs1 = (case e of None \<Rightarrow> errs | Some err \<Rightarrow> errs @ [workload_error what (f w) err])"
  from Cons.IH [of k1 "log @ [mk (f w) e]" errs1] obtain k' calls errs' where
    ih: "update_all upd what f (k1, log @ [mk (f w) e]) errs1 ws = ((k', (log @ [mk (f w) e]) @ calls), errs')"
      "map call_workload calls = map (\<lambda>w. (b, f w)) ws"
      "errs' = [] \<longleftrightarrow> errs1 = [] \<and> (\<forall>c \<in> set calls. call_error c = None)" by blast
  have run: "update_all upd what f (k, log) errs (w # ws) = ((k', log @ mk (f w) e # calls), errs')"
    using u upd ih(1) by (cases e) (simp_all add: errs1_def)
  have errs: "errs' = [] \<longleftrightarrow> errs = [] \<and> (\<forall>c \<in> set (mk (f w) e # calls). call_error c = None)"
    using ih(3) mk by (cases e) (simp_all add: errs1_def)
  have calls: "map call_workload (mk (f w) e # calls) = map (\<lambda>w. (b, f w)) (w # ws)"
    using ih(2) mk by simp
  from run calls errs show ?case by (intro exI conjI)
qed simp

lemma logged_updates:
  "wk_updateDeployment (logged kc) (k, log) w =
     (let (k', e) = wk_updateDeployment kc k w in ((k', log @ [UpdatedDeployment w e]), e))"
  "wk_updateStatefulSet (logged kc) (k, log) w =
     (let (k', e) = wk_updateStatefulSet kc k w in ((k', log @ [UpdatedStatefulSet w e]), e))"
  by (simp_all add: wk_updateDeployment_def wk_updateStatefulSet_def logged_def)

lemma reconcile_with_attempts:
  assumes ds: "kc_ListDeployments kc k ns label = (k1, Inr ds)"
    and ss: "\<And>k2. \<exists>k3. kc_ListStatefulSets kc k2 ns label = (k3, Inr ss)"
  shows "\<exists>k' calls r. reconcile_with (logged kc) label (k, log) ns fd fs = ((k', log @ calls), r)
    \<and> map call_workload calls = map (\<lambda>d. (True, fd d)) ds @ map (\<lambda>s. (False, fs s)) ss
    \<and> (r = None \<longleftrightarrow> (\<forall>c \<in> set calls. call_error c = None))"
proof -
  from update_all_logged [where upd = "wk_updateDeployment (logged kc)" and u = "wk_updateDeployment kc"
      and mk = UpdatedDeployment, OF logged_updates(1) call_error.simps(1) call_workload.simps(1),
      of "''deployment''" fd k1 log "[]" ds]
  obtain k2 calls1 errs1 where
    a: "update_all (wk_updateDeployment (logged kc)) ''deployment'' fd (k1, log) [] ds = ((k2, log @ calls1), errs1)"
      "map call_workload calls1 = map (\<lambda>d. (True, fd d)) ds"
      "errs1 = [] \<longleftrightarrow> (\<forall>c \<in> set calls1. call_error c = None)" by blast
  from ss [of k2] obtain k3 where l2: "kc_ListStatefulSets kc k2 ns label = (k3, Inr ss)" by blast
  from update_all_logged [where upd = "wk_updateStatefulSet (logged kc)" and u = "wk_updateStatefulSet kc"
      and mk = UpdatedStatefulSet, OF logged_updates(2) call_error.simps(2) call_workload.simps(2),
      of "''statefulset''" fs k3 "log @ calls1" errs1 ss]
  obtain k4 calls2 errs2 where
    b: "update_all (wk_updateStatefulSet (logged kc)) ''statefulset'' fs (k3, log @ calls1) errs1 ss
        = ((k4, (log @ calls1) @ calls2), errs2)"
      "map call_workload calls2 = map (\<lambda>s. (False, fs s)) ss"
      "errs2 = [] \<longleftrightarrow> errs1 = [] \<and> (\<forall>c \<in> set calls2. call_error c = None)" by blast
  have run: "reconcile_with (logged kc) label (k, log) ns fd fs = ((k4, log @ calls1 @ calls2), errors_Join errs2)"
    using ds l2 a(1) b(1) by (simp add: reconcile_with_def logged_def)
  have calls: "map call_workload (calls1 @ calls2) = map (\<lambda>d. (True, fd d)) ds @ map (\<lambda>s. (False, fs s)) ss"
    using a(2) b(2) by simp
  have "errors_Join errs2 = None \<longleftrightarrow> (\<forall>c \<in> set (calls1 @ calls2). call_error c = None)"
    using a(3) b(3) by auto
  with run calls show ?thesis by (intro exI conjI)
qed

subsection \<open>Retries\<close>

lemma process_queue:
  assumes "parseEventKey key = Inr event"
    and "wk_processEvent kc (w_label w) (cs_cache s) (cs_kube s) event = Inr (k', err)"
  shows "wk_process kc wq w s key = Inr (s\<lparr>cs_kube := k',
    cs_queue := wq_Done wq
      (if err \<noteq> None \<and> wk_shouldRetry w (wq_NumRequeues wq (cs_queue s) key)
       then wq_AddRateLimited wq (cs_queue s) key else wq_Forget wq (cs_queue s) key) key\<rparr>)"
  using assms by (simp add: wk_process_def Let_def)

lemma succ_mod: "0 < m \<Longrightarrow> (a + 1) mod m = (if a mod m < m - 1 then a mod m + 1 else 0)" for a m :: int
proof -
  assume m: "0 < m"
  have "(a + 1) mod m = (a mod m + 1) mod m" by (simp add: mod_simps)
  moreover have "a mod m < m" using m by simp
  moreover from this have "a mod m = m - 1" if "\<not> a mod m < m - 1" using that by simp
  ultimately show ?thesis using m by (auto simp: mod_pos_pos_trivial)
qed

text \<open>A key whose reconcile never succeeds: the number of requeues after \<open>n\<close> attempts.\<close>

lemma failing_attempts:
  assumes qc: "queue_contract wq" and key: "parseEventKey key = Inr event"
    and fails: "\<And>k. \<exists>k' e. wk_processEvent kc (w_label w) c k event = Inr (k', Some e)"
    and retries: "0 \<le> w_maxRetries w"
  shows "cs_cache s = c \<Longrightarrow> wq_NumRequeues wq (cs_queue s) key = 0 \<Longrightarrow>
    \<exists>s'. go_fold (\<lambda>s _. wk_process kc wq w s key) s [0..<n] = Inr s' \<and> cs_cache s' = c
      \<and> wq_NumRequeues wq (cs_queue s') key = int n mod (w_maxRetries w + 1)"
proof (induction n)
  case (Suc n)
  then obtain s1 where s1: "go_fold (\<lambda>s _. wk_process kc wq w s key) s [0..<n] = Inr s1" "cs_cache s1 = c"
    "wq_NumRequeues wq (cs_queue s1) key = int n mod (w_maxRetries w + 1)" by blast
  from fails [of "cs_kube s1"] obtain k' e where
    "wk_processEvent kc (w_label w) (cs_cache s1) (cs_kube s1) event = Inr (k', Some e)" using s1(2) by blast
  note p = process_queue [OF key this, of wq]
  have next_mod: "int (Suc n) mod (w_maxRetries w + 1) =
      (if int n mod (w_maxRetries w + 1) < w_maxRetries w then int n mod (w_maxRetries w + 1) + 1 else 0)"
    using succ_mod [of "w_maxRetries w + 1" "int n"] retries by (simp add: add.commute)
  obtain s2 where s2: "wk_process kc wq w s1 key = Inr s2" "cs_cache s2 = c"
    "wq_NumRequeues wq (cs_queue s2) key =
       (if int n mod (w_maxRetries w + 1) < w_maxRetries w then int n mod (w_maxRetries w + 1) + 1 else 0)"
    using p qc s1(2,3) retries by (simp add: wk_shouldRetry_def queue_contract_def)
  with s1 next_mod show ?case by (simp add: go_fold_snoc)
qed simp

lemma failing_forever:
  assumes qc: "queue_contract wq" and key: "parseEventKey key = Inr event"
    and fails: "\<And>k. \<exists>k' e. wk_processEvent kc (w_label w) c k event = Inr (k', Some e)"
    and retries: "w_maxRetries w < 0"
  shows "cs_cache s = c \<Longrightarrow> 
    \<exists>s'. go_fold (\<lambda>s _. wk_process kc wq w s key) s [0..<n] = Inr s' \<and> cs_cache s' = c
      \<and> wq_NumRequeues wq (cs_queue s') key = wq_NumRequeues wq (cs_queue s) key + int n"
proof (induction n)
  case (Suc n)
  then obtain s1 where s1: "go_fold (\<lambda>s _. wk_process kc wq w s key) s [0..<n] = Inr s1" "cs_cache s1 = c"
    "wq_NumRequeues wq (cs_queue s1) key = wq_NumRequeues wq (cs_queue s) key + int n" by blast
  from fails [of "cs_kube s1"] obtain k' e where
    "wk_processEvent kc (w_label w) (cs_cache s1) (cs_kube s1) event = Inr (k', Some e)" using s1(2) by blast
  note p = process_queue [OF key this, of wq]
  from p qc s1 retries show ?case by (simp add: go_fold_snoc wk_shouldRetry_def queue_contract_def)
qed simp

end
