(* ===== verification/CRD_Reconciler.thy ===== *)
theory CRD_Reconciler
  imports CRD_Worker_Facts
begin

section \<open>The synchronous reconciler of the custom resource\<close>

text \<open>
  \<open>internal/ctrl/reconciler/container_reconciler.go\<close> with \<open>updateDeployment\<close> and
  \<open>updateStatefulSet\<close> of \<open>container_updated.go\<close>: the older path, without a queue. It updates
  the cache and edits the workloads in the informer's callback; an error is only logged, and
  a failed list of deployments does not stop the stateful sets.
\<close>

record 'k crr_state =
  kv :: container_cache
  crr_kube :: 'k

text \<open>The label the reconciler selects by, and its state; the queue field is never set.\<close>

definition NewCustomResourcesReconciler :: "container_cache \<Rightarrow> string \<Rightarrow> 'k \<Rightarrow> string \<times> 'k crr_state" where
  "NewCustomResourcesReconciler kv_cache label kubeClient = (label, \<lparr>kv = kv_cache, crr_kube = kubeClient\<rparr>)"

definition rc_updateDeployment :: "'k kube_client \<Rightarrow> 'k \<Rightarrow> Workload option \<Rightarrow> ('k \<times> string option) go" where
  "rc_updateDeployment kc k dep = go_bind (go_deref dep) (\<lambda>d. Inr (kc_UpdateDeployment kc k (wl_Namespace d) d))"

definition rc_updateStatefulSet :: "'k kube_client \<Rightarrow> 'k \<Rightarrow> Workload option \<Rightarrow> ('k \<times> string option) go" where
  "rc_updateStatefulSet kc k sts = go_bind (go_deref sts) (\<lambda>s. Inr (kc_UpdateStatefulSet kc k (wl_Namespace s) s))"

definition rc_listDeployments :: "'k kube_client \<Rightarrow> string \<Rightarrow> 'k \<Rightarrow> string \<Rightarrow> 'k \<times> (string + Workload list)" where
  "rc_listDeployments kc label k nameSpace = kc_ListDeployments kc k nameSpace label"

definition rc_listStatefulSets :: "'k kube_client \<Rightarrow> string \<Rightarrow> 'k \<Rightarrow> string \<Rightarrow> 'k \<times> (string + Workload list)" where
  "rc_listStatefulSets kc label k nameSpace = kc_ListStatefulSets kc k nameSpace label"

text \<open>The two blocks "list, then edit and update every item", shared by update and deletion.\<close>

definition rc_sync_block ::
  "'k \<times> (string + Workload list) \<Rightarrow> ('k \<Rightarrow> Workload option \<Rightarrow> ('k \<times> string option) go)
   \<Rightarrow> (Workload option \<Rightarrow> Workload option) \<Rightarrow> 'k go" where
  "rc_sync_block listed upd edit =
     (case listed of
        (k, Inl err) \<Rightarrow> Inr k
      | (k, Inr items) \<Rightarrow> go_fold (\<lambda>k item. go_bind (upd k (edit (Some item))) (\<lambda>(k', err). Inr k')) k items)"

definition crr_OnAdded :: "(json \<Rightarrow> string + Container) \<Rightarrow> 'k crr_state \<Rightarrow> any_obj \<Rightarrow> 'k crr_state" where
  "crr_OnAdded fu r obj =
     (case ParseContainer fu obj of
        None \<Rightarrow> r
      | Some customContainer \<Rightarrow>
          let coreContainer = ToCoreV1Container customContainer;
              (c, old, ok) = gc_Add (kv r) (cc_Name coreContainer) (Some coreContainer)
          in r\<lparr>kv := c\<rparr>)"

definition crr_OnUpdated ::
  "'k kube_client \<Rightarrow> string \<Rightarrow> (json \<Rightarrow> string + Container) \<Rightarrow> 'k crr_state \<Rightarrow> any_obj \<Rightarrow> 'k crr_state go" where
  "crr_OnUpdated kc label fu r newObj =
     (case ParseContainer fu newObj of
        None \<Rightarrow> Inr r
      | Some newContainer \<Rightarrow>
          let coreContainer = ToCoreV1Container newContainer;
              (c, old, ok) = gc_Update None (kv r) (cc_Name coreContainer) (Some coreContainer);
              nameSpace = co_Namespace newContainer
          in if \<not> ok then Inr r
             else go_bind (rc_sync_block (rc_listDeployments kc label (crr_kube r) nameSpace)
                      (rc_updateDeployment kc) (\<lambda>d. rc_deployWithContainerUpdated d coreContainer)) (\<lambda>k1.
                  go_bind (rc_sync_block (rc_listStatefulSets kc label k1 nameSpace)
                      (rc_updateStatefulSet kc) (\<lambda>d. rc_statefulsetWithContainerUpdated d coreContainer)) (\<lambda>k2.
                  Inr (r\<lparr>kv := c, crr_kube := k2\<rparr>))))"

definition crr_OnDeleted ::
  "'k kube_client \<Rightarrow> string \<Rightarrow> (json \<Rightarrow> string + Container) \<Rightarrow> 'k crr_state \<Rightarrow> any_obj \<Rightarrow> 'k crr_state go" where
  "crr_OnDeleted kc label fu r obj =
     (case ParseContainer fu obj of
        None \<Rightarrow> Inr r
      | Some container \<Rightarrow>
          let coreContainer = ToCoreV1Container container;
              (c, old, ok) = gc_Delete None (kv r) (cc_Name coreContainer);
              nameSpace = co_Namespace container;
              containerName = spec_Name (co_Spec container)
          in if \<not> ok then Inr r
             else go_bind (rc_sync_block (rc_listDeployments kc label (crr_kube r) nameSpace)
                      (rc_updateDeployment kc) (\<lambda>d. rc_deployWithContainerRemoved d containerName)) (\<lambda>k1.
                  go_bind (rc_sync_block (rc_listStatefulSets kc label k1 nameSpace)
                      (rc_updateStatefulSet kc) (\<lambda>d. rc_statefulsetWithContainerRemoved d containerName)) (\<lambda>k2.
                  Inr (r\<lparr>kv := c, crr_kube := k2\<rparr>))))"

subsection \<open>Against the worker\<close>

lemma update_all_state: "fst (update_all upd what f k errs ws) = foldl (\<lambda>k w. fst (upd k (f w))) k ws"
  by (induction ws arbitrary: k errs) (simp_all split: prod.splits option.splits)

lemma sync_block_eq:
  assumes "\<And>k w. upd k (edit (Some w)) = Inr (updw k (f w))"
  shows "rc_sync_block (k, Inr ws) upd edit = Inr (fst (update_all updw what f k errs ws))"
proof -
  have "go_fold (\<lambda>k item. go_bind (upd k (edit (Some item))) (\<lambda>(k', err). Inr k')) k ws
      = Inr (foldl (\<lambda>k w. fst (updw k (f w))) k ws)"
    by (rule go_fold_Inr) (simp add: assms split: prod.splits)
  then show ?thesis by (simp add: rc_sync_block_def update_all_state)
qed

lemma rc_upd_eq:
  "rc_updateDeployment kc k (rc_deployWithContainerUpdated (Some d) c)
     = Inr (wk_updateDeployment kc k (wk_deployWithContainerUpdated d c))"
  "rc_updateStatefulSet kc k (rc_statefulsetWithContainerUpdated (Some d) c)
     = Inr (wk_updateStatefulSet kc k (wk_statefulsetWithContainerUpdated d c))"
  "rc_updateDeployment kc k (rc_deployWithContainerRemoved (Some d) n)
     = Inr (wk_updateDeployment kc k (wk_deployWithContainerRemoved d n))"
  "rc_updateStatefulSet kc k (rc_statefulsetWithContainerRemoved (Some d) n)
     = Inr (wk_updateStatefulSet kc k (wk_statefulsetWithContainerRemoved d n))"
  by (simp_all add: rc_edits_eq rc_updateDeployment_def rc_updateStatefulSet_def
      wk_updateDeployment_def wk_updateStatefulSet_def)

text \<open>When the deployments can be listed, both paths leave the same objects behind.\<close>

lemma sync_reconcile:
  assumes ds: "kc_ListDeployments kc k ns label = (k1, Inr ds)"
    and d: "\<And>k w. rc_updateDeployment kc k (ed (Some w)) = Inr (wk_updateDeployment kc k (fd w))"
    and s: "\<And>k w. rc_updateStatefulSet kc k (es (Some w)) = Inr (wk_updateStatefulSet kc k (fs w))"
  shows "go_bind (rc_sync_block (rc_listDeployments kc label k ns) (rc_updateDeployment kc) ed)
      (\<lambda>k1. rc_sync_block (rc_listStatefulSets kc label k1 ns) (rc_updateStatefulSet kc) es)
    = Inr (fst (reconcile_with kc label k ns fd fs))"
proof -
  obtain k2 errs where u: "update_all (wk_updateDeployment kc) ''deployment'' fd k1 [] ds = (k2, errs)"
    by (cases "update_all (wk_updateDeployment kc) ''deployment'' fd k1 [] ds")
  from sync_block_eq [of "rc_updateDeployment kc" ed "wk_updateDeployment kc" fd k1 ds "''deployment''" "[]", OF d]
  have b1: "rc_sync_block (rc_listDeployments kc label k ns) (rc_updateDeployment kc) ed = Inr k2"
    by (simp add: rc_listDeployments_def ds u)
  obtain k3 r where l: "kc_ListStatefulSets kc k2 ns label = (k3, r)" by (cases "kc_ListStatefulSets kc k2 ns label")
  show ?thesis
  proof (cases r)
    case (Inl err)
    with b1 ds u l show ?thesis by (simp add: reconcile_with_def rc_listStatefulSets_def rc_sync_block_def)
  next
    case (Inr ss)
    from sync_block_eq [of "rc_updateStatefulSet kc" es "wk_updateStatefulSet kc" fs k3 ss "''statefulset''" errs, OF s]
    have "rc_sync_block (rc_listStatefulSets kc label k2 ns) (rc_updateStatefulSet kc) es
        = Inr (fst (update_all (wk_updateStatefulSet kc) ''statefulset'' fs k3 errs ss))"
      by (simp add: rc_listStatefulSets_def l Inr)
    with b1 ds u l Inr show ?thesis by (simp add: reconcile_with_def split: prod.splits)
  qed
qed

end
