(* ===== verification/CRD_Machine.thy ===== *)
theory CRD_Machine
  imports CRD_Reconciler
begin

section \<open>Handlers and worker interleaved\<close>

text \<open>
  The informer calls the handlers one after the other from one goroutine, the worker runs in
  another. They share the cache and the queue, each with its own lock; the model interleaves
  whole callbacks with whole passes of the worker. The invariant: no nil pointer in the cache,
  and an entry's key is the name of its container.
\<close>

datatype crd_op = CrdAdded any_obj | CrdUpdated any_obj | CrdDeleted any_obj | CrdProcess string

fun crd_step ::
  "'k kube_client \<Rightarrow> 'q work_queue \<Rightarrow> (json \<Rightarrow> string + Container) \<Rightarrow> CRDWorker
   \<Rightarrow> ('q, 'k) crd_state \<Rightarrow> crd_op \<Rightarrow> (('q, 'k) crd_state \<times> unit) go" where
  "crd_step kc wq fu w s (CrdAdded obj) = Inr (crd_OnAdded wq fu s obj, ())"
| "crd_step kc wq fu w s (CrdUpdated obj) = Inr (crd_OnUpdated wq fu s obj, ())"
| "crd_step kc wq fu w s (CrdDeleted obj) = Inr (crd_OnDeleted wq fu s obj, ())"
| "crd_step kc wq fu w s (CrdProcess key) = go_bind (wk_process kc wq w s key) (\<lambda>s'. Inr (s', ()))"

definition cache_ok :: "container_cache \<Rightarrow> bool" where
  "cache_ok c \<longleftrightarrow> (\<forall>name p. c name = Some p \<longrightarrow> (\<exists>v. p = Some v \<and> cc_Name v = name))"

definition crd_inv :: "('q, 'k) crd_state \<Rightarrow> bool" where
  "crd_inv s \<longleftrightarrow> cache_ok (cs_cache s)"

lemma cache_okD: "cache_ok c \<Longrightarrow> c name = Some p \<Longrightarrow> \<exists>v. p = Some v \<and> cc_Name v = name"
  unfolding cache_ok_def by blast

lemma handlers_cache:
  "cs_cache (crd_OnAdded wq fu s obj) = (case ParseContainer fu obj of None \<Rightarrow> cs_cache s
     | Some c \<Rightarrow> fst (gc_Add (cs_cache s) (cc_Name (ToCoreV1Container c)) (Some (ToCoreV1Container c))))"
  "cs_cache (crd_OnUpdated wq fu s obj) = (case ParseContainer fu obj of None \<Rightarrow> cs_cache s
     | Some c \<Rightarrow> fst (gc_Update None (cs_cache s) (cc_Name (ToCoreV1Container c)) (Some (ToCoreV1Container c))))"
  "cs_cache (crd_OnDeleted wq fu s obj) = (case ParseContainer fu obj of None \<Rightarrow> cs_cache s
     | Some c \<Rightarrow> fst (gc_Delete None (cs_cache s) (cc_Name (ToCoreV1Container c))))"
  by (simp_all add: crd_OnAdded_def crd_OnUpdated_def crd_OnDeleted_def crd_enqueue_def gc_defs Let_def
      split: option.splits prod.splits)

lemma cache_ok_ops:
  assumes "cache_ok c"
  shows "cache_ok (fst (gc_Add c (cc_Name v) (Some v)))"
    "cache_ok (fst (gc_Update None c (cc_Name v) (Some v)))"
    "cache_ok (fst (gc_Delete None c n))"
  using assms by (auto simp: cache_ok_def gc_defs split: option.splits)

lemma processEvent_total:
  assumes "cache_ok c"
  shows "\<exists>k' err. wk_processEvent kc label c k event = Inr (k', err)"
proof -
  obtain k' err where "wk_reconcileUpdate kc label c k (ev_ContainerName event) (ev_Namespace event) = Inr (k', err)"
  proof (cases "c (ev_ContainerName event)")
    case None
    with that show ?thesis by (simp add: reconcileUpdate_miss)
  next
    case (Some p)
    with cache_okD [OF assms] obtain v where "c (ev_ContainerName event) = Some (Some v)" by blast
    from reconcileUpdate_eq [where cache = c and name = "ev_ContainerName event" and c = v, OF this,
        of kc label k "ev_Namespace event"] that show ?thesis
      by (metis surj_pair)
  qed
  moreover obtain k'' err' where
    "wk_reconcileDelete kc label k (ev_ContainerName event) (ev_Namespace event) = Inr (k'', err')"
    unfolding reconcileDelete_eq by (metis surj_pair)
  ultimately show ?thesis by (auto simp: wk_processEvent_def)
qed

lemma process_total:
  assumes "cache_ok (cs_cache s)"
  shows "\<exists>s'. wk_process kc wq w s key = Inr s' \<and> cs_cache s' = cs_cache s"
proof (cases "parseEventKey key")
  case (Inl err)
  then show ?thesis by (simp add: wk_process_def)
next
  case (Inr event)
  from processEvent_total [OF assms, of kc "w_label w" "cs_kube s" event] obtain k' err where
    "wk_processEvent kc (w_label w) (cs_cache s) (cs_kube s) event = Inr (k', err)" by blast
  from process_queue [OF Inr this] show ?thesis by simp
qed

interpretation crd: go_machine "crd_step kc wq fu w" crd_inv "\<lambda>_. True"
  for kc :: "'k kube_client" and wq :: "'q work_queue" and fu w
proof unfold_locales
  fix s :: "('q, 'k) crd_state" and e
  assume "crd_inv s"
  then have ok: "cache_ok (cs_cache s)" by (simp add: crd_inv_def)
  show "\<exists>s' x. crd_step kc wq fu w s e = Inr (s', x) \<and> crd_inv s'"
  proof (cases e)
    case (CrdProcess key)
    with process_total [OF ok, of kc wq w key] ok show ?thesis by (auto simp: crd_inv_def)
  qed (auto simp: crd_inv_def handlers_cache ok cache_ok_ops split: option.splits)
qed

text \<open>The worker goroutine: it returns once the queue has reported shutdown.\<close>

lemma round_total:
  assumes "cache_ok (cs_cache s)"
  shows "\<exists>s' b. wk_round kc wq w s = Inr (s', b) \<and> cs_cache s' = cs_cache s"
proof -
  obtain q key shutdown where "wq_Get wq (cs_queue s) = (q, key, shutdown)" by (cases "wq_Get wq (cs_queue s)")
  moreover from assms process_total [of "s\<lparr>cs_queue := q\<rparr>" kc wq w key] obtain s1 where
    "wk_process kc wq w (s\<lparr>cs_queue := q\<rparr>) key = Inr s1" "cs_cache s1 = cs_cache s" by auto
  ultimately show ?thesis by (cases shutdown) (auto simp: wk_round_def)
qed

lemma runWorker_total:
  "cache_ok (cs_cache s) \<Longrightarrow> \<exists>r. wk_runWorker n kc wq w s = Inr r"
proof (induction n arbitrary: s)
  case (Suc n)
  from round_total [OF Suc.prems, of kc wq w] obtain s' b where
    "wk_round kc wq w s = Inr (s', b)" "cs_cache s' = cs_cache s" by blast
  with Suc.IH [of s'] Suc.prems show ?case by simp
qed simp

end
