(* ===== verification/Ctl_Properties.thy ===== *)
theory Ctl_Properties
  imports CRD_Machine
begin

section \<open>What the controller promises for the custom resource\<close>

text \<open>
  The properties of the cache, the event keys, the container edits, the worker and the older
  reconciler. The witnesses run the code against the concrete API server and queue of
  \<open>Kube_Api\<close>.
\<close>

definition sample_container :: "string \<Rightarrow> string \<Rightarrow> CoreContainer" where
  "sample_container name img = \<lparr>cc_Name = name, cc_Image = img, cc_Command = [],
     cc_Resources = JNull, cc_rest = []\<rparr>"

definition sample_workload :: "string \<Rightarrow> CoreContainer list \<Rightarrow> Workload" where
  "sample_workload name cs = \<lparr>wl_Namespace = ''ns'', wl_Name = name, wl_Labels = [(''inject'', ''car'')],
     wl_InitContainers = [], wl_Containers = cs, wl_rest = []\<rparr>"

definition sample_resource :: "string \<Rightarrow> string \<Rightarrow> Container" where
  "sample_resource name img = \<lparr>co_Name = name, co_Namespace = ''ns'',
     co_Spec = \<lparr>spec_Name = name, spec_Image = img, spec_Command = [], spec_Resources = JNull\<rparr>\<rparr>"

lemmas sample_ctl_defs = sample_container_def sample_workload_def sample_resource_def

lemmas plain_never_fails = reconcile_up [OF plain_kube_up]

subsection \<open>Cache, keys, edits\<close>

text \<open>
  The generic cache is a set of independent cells. For any interleaving of additions,
  updates, deletions and lookups, the answers and the final content for one key are those of
  a single cell to which only that key's calls are applied: an addition fills only an empty
  cell, an update changes only a full one, and each reports whether it did.
\<close>

lemma cache_is_cells:
  "\<exists>c' ys. go_run (cache_step zero) NewGeneralCache es = Inr (c', ys) \<and>
     (\<forall>k. pure_run (cell_step zero) None (key_ops k es) = (c' k, key_answers k es ys))"
  using cache_run_cells [of zero NewGeneralCache es] by (simp add: NewGeneralCache_def)

text \<open>
  C27: Queue keys carry their event. A key is read back as the event it was written from
  whenever type and namespace have no slash (the name may have), whatever is read from a key
  is written back as that key, and exactly the strings with fewer than two slashes are
  refused.
\<close>

theorem event_key_roundtrip:
  "(CHR ''/'' \<notin> set (ev_Type e) \<and> CHR ''/'' \<notin> set (ev_Namespace e) \<longrightarrow> parseEventKey (event_key e) = Inr e)
   \<and> (parseEventKey key = Inr e' \<longrightarrow> event_key e' = key)
   \<and> ((\<exists>err. parseEventKey key = Inl err) \<longleftrightarrow> length (filter (\<lambda>x. x = CHR ''/'') key) < 2)"
proof -
  let ?c = "CHR ''/''"
  have none: "filter (\<lambda>x. x = ?c) s = [] \<longleftrightarrow> ?c \<notin> set s" for s by (auto simp: filter_empty_conv)
  have "(\<exists>err. parseEventKey key = Inl err) \<longleftrightarrow> length (filter (\<lambda>x. x = ?c) key) < 2"
  proof (cases "?c \<in> set key")
    case True
    let ?r = "tl (dropWhile (\<lambda>x. x \<noteq> ?c) key)"
    have "filter (\<lambda>x. x = ?c) (takeWhile (\<lambda>x. x \<noteq> ?c) key) = []"
      by (auto simp: filter_empty_conv dest: set_takeWhileD)
    with split_first [OF True] have "filter (\<lambda>x. x = ?c) key = ?c # filter (\<lambda>x. x = ?c) ?r"
      by (metis (mono_tags, lifting) append_Nil filter.simps(2) filter_append)
    then have "length (filter (\<lambda>x. x = ?c) key) < 2 \<longleftrightarrow> ?c \<notin> set ?r"
      using none [of ?r] by simp
    with True show ?thesis by (simp add: parseEventKey_def splitN_three Let_def)
  next
    case False
    then show ?thesis using none [of key] by (simp add: parseEventKey_def splitN_three)
  qed
  with parse_key [of e] parse_sound [of key e'] show ?thesis by blast
qed

theorem event_key_roundtrip_witness:
  "parseEventKey (event_key \<lparr>ev_Type = EventTypeUpdate, ev_ContainerName = ''a/b'', ev_Namespace = ''ns''\<rparr>)
     = Inr \<lparr>ev_Type = EventTypeUpdate, ev_ContainerName = ''a/b'', ev_Namespace = ''ns''\<rparr>
   \<and> (\<exists>err. parseEventKey ''Add/default'' = Inl err)"
  using event_key_roundtrip [of "\<lparr>ev_Type = EventTypeUpdate, ev_ContainerName = ''a/b'', ev_Namespace = ''ns''\<rparr>"
      "''Add/default''"]
  by (simp add: EventTypeUpdate_def)

text \<open>
  The two copies of the container edits agree, and do this: an update replaces the first
  container of the name, keeps every other container and the order, and never adds one; a
  removal leaves exactly the containers of other names; applying an edit again changes
  nothing, and of two updates of one name the last wins.
\<close>

lemma container_edits:
  "rc_containersWithOneUpdated cs c = wk_containersWithOneUpdated cs c
   \<and> rc_containersWithOneRemoved cs n = wk_containersWithOneRemoved cs n
   \<and> wk_containersWithOneUpdated cs c =
      (if cc_Name c \<in> cc_Name ` set cs
       then takeWhile (\<lambda>d. cc_Name d \<noteq> cc_Name c) cs @ c # tl (dropWhile (\<lambda>d. cc_Name d \<noteq> cc_Name c) cs)
       else cs)
   \<and> wk_containersWithOneRemoved cs n = filter (\<lambda>d. cc_Name d \<noteq> n) cs
   \<and> wk_containersWithOneUpdated (wk_containersWithOneUpdated cs (c\<lparr>cc_Image := i\<rparr>)) c
      = wk_containersWithOneUpdated cs c
   \<and> wk_containersWithOneRemoved (wk_containersWithOneUpdated cs c) (cc_Name c)
      = wk_containersWithOneRemoved cs (cc_Name c)"
  by (intro conjI rc_updated_eq updated_split removed_filter removed_updated)
     (simp_all add: rc_removed_filter removed_filter [symmetric])

subsection \<open>The worker\<close>

text \<open>
  C4: A successful update reconcile makes the cluster agree with the cache. If the reconcile
  of a cached container reports no error, then in the namespace every deployment and stateful
  set with the label has its containers of that name replaced, every other object is
  untouched, and a second reconcile would store the same objects.
\<close>

theorem update_reconcile_converges:
  assumes "kube_contract kc deps sts" "well_stored (deps k)" "well_stored (sts k)"
    and "cache name = Some (Some c)"
    and "wk_reconcileUpdate kc label cache k name ns = Inr (k', None)"
  shows "deps k' = edited (deps k) ns label (\<lambda>d. wk_deployWithContainerUpdated d c)
    \<and> sts k' = edited (sts k) ns label (\<lambda>d. wk_statefulsetWithContainerUpdated d c)
    \<and> edited (deps k') ns label (\<lambda>d. wk_deployWithContainerUpdated d c) = deps k'
    \<and> edited (sts k') ns label (\<lambda>d. wk_statefulsetWithContainerUpdated d c) = sts k'"
proof -
  let ?fd = "\<lambda>d. wk_deployWithContainerUpdated d c" and ?fs = "\<lambda>d. wk_statefulsetWithContainerUpdated d c"
  from assms(5) reconcileUpdate_eq [where cache = cache and name = name and c = c, OF assms(4), of kc label k ns]
  have "reconcile_with kc label k ns ?fd ?fs = (k', None)" by simp
  from reconcile_with_stores [OF assms(1-3) edit_frame(1,2) this]
  have a: "deps k' = edited (deps k) ns label ?fd" and b: "sts k' = edited (sts k) ns label ?fs" by simp_all
  have i1: "edited (edited st ns label ?fd) ns label ?fd = edited st ns label ?fd" for st
    by (rule edited_idem, simp add: wk_edit_defs, rule selected_edit) simp_all
  have i2: "edited (edited st ns label ?fs) ns label ?fs = edited st ns label ?fs" for st
    by (rule edited_idem, simp add: wk_edit_defs, rule selected_edit) simp_all
  show ?thesis unfolding a b by (intro conjI refl i1 i2)
qed

theorem update_reconcile_converges_witness:
  "let old = sample_workload ''web'' [sample_container ''app'' ''a'', sample_container ''car'' ''v1''];
       new = sample_workload ''web'' [sample_container ''app'' ''a'', sample_container ''car'' ''v2''];
       cache = [''car'' \<mapsto> Some (sample_container ''car'' ''v2'')]
   in \<exists>k'. wk_reconcileUpdate plain_kube ''inject'' cache ([old], []) ''car'' ''ns'' = Inr (k', None)
        \<and> stored (fst k') (''ns'', ''web'') = Some new"
proof -
  let ?c = "sample_container ''car'' ''v2''"
  let ?old = "sample_workload ''web'' [sample_container ''app'' ''a'', sample_container ''car'' ''v1'']"
  let ?new = "sample_workload ''web'' [sample_container ''app'' ''a'', ?c]"
  let ?cache = "[''car'' \<mapsto> Some ?c] :: container_cache"
  have w: "well_stored (stored (fst ([?old], [])))" "well_stored (stored (snd ([?old], [])))"
    by (auto simp: well_stored_def stored_def split: if_splits)
  have c: "?cache ''car'' = Some (Some ?c)" by simp
  obtain k' where r: "wk_reconcileUpdate plain_kube ''inject'' ?cache ([?old], []) ''car'' ''ns'' = Inr (k', None)"
    using reconcileUpdate_eq [where cache = ?cache and name = "''car''" and c = ?c, OF c]
      plain_never_fails by metis
  have "edited (stored [?old]) ''ns'' ''inject'' (\<lambda>d. wk_deployWithContainerUpdated d ?c) (''ns'', ''web'') = Some ?new"
    by (simp add: edited_def stored_def selected_def wl_key_def wk_deployWithContainerUpdated_def sample_ctl_defs)
  moreover from update_reconcile_converges [OF plain_kube_contract w c r]
  have "stored (fst k') = edited (stored [?old]) ''ns'' ''inject'' (\<lambda>d. wk_deployWithContainerUpdated d ?c)"
    by (simp only: fst_conv)
  ultimately have "stored (fst k') (''ns'', ''web'') = Some ?new" by (simp only:)
  with r show ?thesis unfolding Let_def by blast
qed

text \<open>
  C25: One failing workload does not stop the others. When both lists succeed, an update
  reconcile submits every listed deployment and then every listed stateful set exactly once,
  in the order of the lists and with the container replaced, whatever the earlier updates
  answered; and it reports success exactly when every one of these calls succeeded.
\<close>

theorem update_reconcile_attempts_all:
  assumes "cache name = Some (Some c)"
    and "kc_ListDeployments kc k ns label = (k1, Inr ds)"
    and "\<And>k2. \<exists>k3. kc_ListStatefulSets kc k2 ns label = (k3, Inr ss)"
  shows "\<exists>k' calls r. wk_reconcileUpdate (logged kc) label cache (k, []) name ns = Inr ((k', calls), r)
    \<and> map call_workload calls = map (\<lambda>d. (True, wk_deployWithContainerUpdated d c)) ds
        @ map (\<lambda>s. (False, wk_statefulsetWithContainerUpdated s c)) ss
    \<and> (r = None \<longleftrightarrow> (\<forall>call \<in> set calls. call_error call = None))"
  using reconcile_with_attempts [OF assms(2,3), of "[]" "\<lambda>d. wk_deployWithContainerUpdated d c"
      "\<lambda>s. wk_statefulsetWithContainerUpdated s c"]
    reconcileUpdate_eq [where cache = cache and name = name and c = c, OF assms(1), of "logged kc" label "(k, [])" ns]
  by auto

theorem update_reconcile_attempts_all_witness:
  "let a = sample_workload ''a'' [sample_container ''car'' ''v1''];
       b = sample_workload ''b'' [];
       kc = plain_kube\<lparr>kc_UpdateDeployment := (\<lambda>k ns w. (k, Some ''conflict'')),
              kc_ListStatefulSets := (\<lambda>k ns l. (k, Inr [b]))\<rparr>
   in \<exists>k' calls r. wk_reconcileUpdate (logged kc) ''inject'' [''car'' \<mapsto> Some (sample_container ''car'' ''v2'')]
          (([a], []), []) ''car'' ''ns'' = Inr ((k', calls), r) \<and> length calls = 2 \<and> r \<noteq> None"
proof -
  let ?a = "sample_workload ''a'' [sample_container ''car'' ''v1'']" and ?b = "sample_workload ''b'' []"
  let ?kc = "plain_kube\<lparr>kc_UpdateDeployment := (\<lambda>k ns w. (k, Some ''conflict'')),
              kc_ListStatefulSets := (\<lambda>k ns l. (k, Inr [?b]))\<rparr>"
  let ?cache = "[''car'' \<mapsto> Some (sample_container ''car'' ''v2'')] :: container_cache"
  have c: "?cache ''car'' = Some (Some (sample_container ''car'' ''v2''))" by simp
  have d: "kc_ListDeployments ?kc ([?a], []) ''ns'' ''inject'' = (([?a], []), Inr [?a])"
    by (simp add: plain_kube_def plain_list_def selected_def sample_workload_def stored_def)
  have s: "\<And>k2. \<exists>k3. kc_ListStatefulSets ?kc k2 ''ns'' ''inject'' = (k3, Inr [?b])" by simp
  from update_reconcile_attempts_all [where cache = ?cache and name = "''car''"
      and c = "sample_container ''car'' ''v2''", OF c d s] obtain k' calls r where
    r: "wk_reconcileUpdate (logged ?kc) ''inject'' ?cache (([?a], []), []) ''car'' ''ns'' = Inr ((k', calls), r)"
      "map call_workload calls = map (\<lambda>d. (True, wk_deployWithContainerUpdated d (sample_container ''car'' ''v2''))) [?a]
        @ map (\<lambda>s. (False, wk_statefulsetWithContainerUpdated s (sample_container ''car'' ''v2''))) [?b]" by blast
  have "length calls = 2" using arg_cong [OF r(2), of length] by simp
  moreover have "r \<noteq> None"
  proof -
    from reconcileUpdate_eq [where cache = ?cache and name = "''car''", OF c, of "logged ?kc" "''inject''" "(([?a], []), [])" "''ns''"] r(1)
    have "reconcile_with (logged ?kc) ''inject'' (([?a], []), []) ''ns''
       (\<lambda>d. wk_deployWithContainerUpdated d (sample_container ''car'' ''v2''))
       (\<lambda>d. wk_statefulsetWithContainerUpdated d (sample_container ''car'' ''v2'')) = ((k', calls), r)" by simp
    then show ?thesis
      using d by (auto simp: errors_Join_def reconcile_with_def logged_def wk_updateDeployment_def wk_updateStatefulSet_def
          split: prod.splits option.splits if_splits)
  qed
  ultimately show ?thesis using r(1) unfolding Let_def by blast
qed

text \<open>
  C24: Retries are bounded as configured. For an event whose reconcile keeps failing, with a
  maximum of \<open>m \<ge> 0\<close> retries the key is requeued \<open>m\<close> times and given up on at the next
  failure, its count starting anew (after \<open>n\<close> attempts the queue has counted \<open>n mod (m + 1)\<close>
  requeues); with a negative maximum it is requeued after every attempt.
\<close>

theorem retries_bounded:
  assumes "queue_contract wq" "parseEventKey key = Inr event"
    and "\<And>k. \<exists>k' e. wk_processEvent kc (w_label w) (cs_cache s) k event = Inr (k', Some e)"
    and "wq_NumRequeues wq (cs_queue s) key = 0"
  shows "\<exists>s'. go_fold (\<lambda>s _. wk_process kc wq w s key) s [0..<n] = Inr s'
    \<and> wq_NumRequeues wq (cs_queue s') key = (if 0 \<le> w_maxRetries w then int n mod (w_maxRetries w + 1) else int n)"
proof (cases "0 \<le> w_maxRetries w")
  case True
  from failing_attempts [OF assms(1,2) assms(3) True refl assms(4), of n] True show ?thesis by auto
next
  case False
  then have "w_maxRetries w < 0" by simp
  from failing_forever [OF assms(1,2) assms(3) this refl, of n] assms(4) False show ?thesis by auto
qed

definition refusing_kube :: "plain_state kube_client" where
  "refusing_kube = plain_kube\<lparr>kc_ListDeployments := (\<lambda>k ns l. (k, Inl ''timeout''))\<rparr>"

theorem retries_bounded_witness:
  "let s = \<lparr>cs_cache = Map.empty, cs_queue = ([], \<lambda>_. 0), cs_kube = ([], [])\<rparr>;
       w = \<lparr>w_label = ''inject'', w_maxRetries = 2\<rparr>
   in \<exists>s'. go_fold (\<lambda>s _. wk_process refusing_kube plain_work_queue w s ''Delete/ns/car'') s [0..<5] = Inr s'
        \<and> wq_NumRequeues plain_work_queue (cs_queue s') ''Delete/ns/car'' = 2"
proof -
  let ?s = "\<lparr>cs_cache = Map.empty, cs_queue = ([], \<lambda>_. 0), cs_kube = ([], [])\<rparr> :: (plain_queue, plain_state) crd_state"
  let ?w = "\<lparr>w_label = ''inject'', w_maxRetries = 2\<rparr>"
  let ?e = "\<lparr>ev_Type = ''Delete'', ev_ContainerName = ''car'', ev_Namespace = ''ns''\<rparr>"
  have p: "parseEventKey ''Delete/ns/car'' = Inr ?e" by (simp add: parseEventKey_def splitN_three)
  have f: "\<exists>k' e. wk_processEvent refusing_kube (w_label ?w) (cs_cache ?s) k ?e = Inr (k', Some e)" for k
    by (simp add: wk_processEvent_def EventTypeAdd_def EventTypeUpdate_def EventTypeDelete_def
        reconcileDelete_eq reconcile_with_def refusing_kube_def)
  have z: "wq_NumRequeues plain_work_queue (cs_queue ?s) ''Delete/ns/car'' = 0" by (simp add: plain_work_queue_def)
  from retries_bounded [OF plain_queue_contract p f z, of 5] show ?thesis by (simp add: Let_def)
qed


definition sample_state :: "(plain_queue, plain_state) crd_state" where
  "sample_state = \<lparr>cs_cache = [''car'' \<mapsto> Some (sample_container ''car'' ''v1'')], cs_queue = ([], \<lambda>_. 0),
     cs_kube = ([sample_workload ''web'' [sample_container ''car'' ''v1'']], [])\<rparr>"


text \<open>
  C20: Both paths to an updated container agree. When the deployments can be listed, the older
  reconciler's callback ends with the same cache and the same cluster as the handler's
  callback followed by one pass of the worker over the queued key.
\<close>

theorem reconciler_equals_worker:
  assumes "ParseContainer fu obj = Some c" "cs_cache s (spec_Name (co_Spec c)) = Some p"
    and "CHR ''/'' \<notin> set (co_Namespace c)"
    and "kc_ListDeployments kc (cs_kube s) (co_Namespace c) (w_label w) = (k1, Inr ds)"
  shows "\<exists>s' r'. wk_process kc wq w (crd_OnUpdated wq fu s obj)
        (event_key \<lparr>ev_Type = EventTypeUpdate, ev_ContainerName = spec_Name (co_Spec c), ev_Namespace = co_Namespace c\<rparr>) = Inr s'
    \<and> crr_OnUpdated kc (w_label w) fu \<lparr>kv = cs_cache s, crr_kube = cs_kube s\<rparr> obj = Inr r'
    \<and> kv r' = cs_cache s' \<and> crr_kube r' = cs_kube s'"
proof -
  let ?c = "ToCoreV1Container c" and ?ns = "co_Namespace c" and ?n = "spec_Name (co_Spec c)"
  let ?e = "\<lparr>ev_Type = EventTypeUpdate, ev_ContainerName = ?n, ev_Namespace = ?ns\<rparr>"
  let ?fd = "\<lambda>d. wk_deployWithContainerUpdated d ?c" and ?fs = "\<lambda>d. wk_statefulsetWithContainerUpdated d ?c"
  have n: "cc_Name ?c = ?n" by (simp add: ToCoreV1Container_def)
  have key: "parseEventKey (event_key ?e) = Inr ?e"
    by (rule parse_key) (use assms(3) in \<open>simp_all add: EventTypeUpdate_def\<close>)
  obtain k' err where rw: "reconcile_with kc (w_label w) (cs_kube s) ?ns ?fd ?fs = (k', err)" by force
  have h: "cs_cache (crd_OnUpdated wq fu s obj) = (cs_cache s)(?n \<mapsto> Some ?c)"
    "cs_kube (crd_OnUpdated wq fu s obj) = cs_kube s"
    using assms(1,2) n by (simp_all add: crd_OnUpdated_def gc_Update_def crd_enqueue_def Let_def)
  have "wk_processEvent kc (w_label w) (cs_cache (crd_OnUpdated wq fu s obj)) (cs_kube (crd_OnUpdated wq fu s obj)) ?e
      = Inr (k', err)"
    using reconcileUpdate_eq [where cache = "(cs_cache s)(?n \<mapsto> Some ?c)" and name = ?n and c = ?c,
        of kc "w_label w" "cs_kube s" ?ns] rw
    by (simp add: h wk_processEvent_def EventTypeAdd_def EventTypeUpdate_def)
  note pq = process_queue [OF key this, of wq]
  have "crr_OnUpdated kc (w_label w) fu \<lparr>kv = cs_cache s, crr_kube = cs_kube s\<rparr> obj
      = Inr \<lparr>kv = (cs_cache s)(?n \<mapsto> Some ?c), crr_kube = k'\<rparr>"
    using sync_reconcile [where ed = "\<lambda>d. rc_deployWithContainerUpdated d ?c" and fd = ?fd
        and es = "\<lambda>d. rc_statefulsetWithContainerUpdated d ?c" and fs = ?fs, OF assms(4) rc_upd_eq(1,2)] rw assms(1,2) n
    by (auto simp: crr_OnUpdated_def gc_Update_def go_bind_Inr_iff Let_def)
  with pq h show ?thesis by simp
qed

theorem reconciler_equals_worker_witness:
  "let w = \<lparr>w_label = ''inject'', w_maxRetries = 2\<rparr>; fu = (\<lambda>u. Inr (sample_resource ''car'' ''v2''));
       obj = AnyUnstructured (Some JNull)
   in \<exists>s' r'. wk_process plain_kube plain_work_queue w (crd_OnUpdated plain_work_queue fu sample_state obj) ''Update/ns/car'' = Inr s'
       \<and> crr_OnUpdated plain_kube ''inject'' fu \<lparr>kv = cs_cache sample_state, crr_kube = cs_kube sample_state\<rparr> obj = Inr r'
       \<and> crr_kube r' = cs_kube s'"
proof -
  let ?w = "\<lparr>w_label = ''inject'', w_maxRetries = 2\<rparr>" and ?obj = "AnyUnstructured (Some JNull)"
  let ?fu = "\<lambda>u :: json. (Inr (sample_resource ''car'' ''v2'') :: string + Container)"
  let ?c = "sample_resource ''car'' ''v2''"
  have p: "ParseContainer ?fu ?obj = Some ?c" by (simp add: ParseContainer_def toContainerUnstructured_def)
  have c: "cs_cache sample_state (spec_Name (co_Spec ?c)) = Some (Some (sample_container ''car'' ''v1''))"
    "CHR ''/'' \<notin> set (co_Namespace ?c)"
    by (simp_all add: sample_state_def sample_resource_def)
  have d: "kc_ListDeployments plain_kube (cs_kube sample_state) (co_Namespace ?c) (w_label ?w)
      = (cs_kube sample_state, Inr (plain_list (fst (cs_kube sample_state)) (co_Namespace ?c) (w_label ?w)))"
    by (simp add: plain_kube_def)
  have k: "event_key \<lparr>ev_Type = EventTypeUpdate, ev_ContainerName = spec_Name (co_Spec ?c), ev_Namespace = co_Namespace ?c\<rparr>
      = ''Update/ns/car''"
    by (simp add: event_key_def EventTypeUpdate_def sample_resource_def)
  from reconciler_equals_worker [OF p c d, of plain_work_queue, unfolded k] show ?thesis
    unfolding Let_def by auto
qed

text \<open>
  C21: Handlers and worker never panic, whatever the informer delivers, the API server answers
  and the queue holds: from an empty cache, any interleaving of callbacks (garbage and
  tombstones included) and passes of the worker over any keys returns, and the cache only
  ever holds containers under their own names.
\<close>

theorem crd_never_panics:
  "cs_cache s = NewGeneralCache \<Longrightarrow>
     \<exists>s' ys. go_run (crd_step kc wq fu w) s es = Inr (s', ys) \<and>
       (\<forall>name p. cs_cache s' name = Some p \<longrightarrow> (\<exists>c. p = Some c \<and> cc_Name c = name))"
proof -
  assume "cs_cache s = NewGeneralCache"
  then have "crd_inv s" by (simp add: crd_inv_def cache_ok_def NewGeneralCache_def)
  from crd.run_total [OF this, of es kc wq fu w] show ?thesis
    by (auto simp: list_all_def crd_inv_def cache_ok_def)
qed

theorem crd_never_panics_witness:
  "\<exists>s' ys. go_run (crd_step plain_kube plain_work_queue (\<lambda>u. Inr (sample_resource ''car'' ''v2''))
      \<lparr>w_label = ''inject'', w_maxRetries = 2\<rparr>) (sample_state\<lparr>cs_cache := NewGeneralCache\<rparr>)
      [CrdAdded AnyOther, CrdAdded (AnyUnstructured (Some JNull)), CrdProcess ''x'', CrdProcess ''Update/ns/car'',
       CrdDeleted (AnyDeletedFinalStateUnknown (AnyUnstructured (Some JNull)))] = Inr (s', ys)"
  using crd_never_panics [of "sample_state\<lparr>cs_cache := NewGeneralCache\<rparr>" plain_kube plain_work_queue
      "\<lambda>u. Inr (sample_resource ''car'' ''v2'')" "\<lparr>w_label = ''inject'', w_maxRetries = 2\<rparr>"
      "[CrdAdded AnyOther, CrdAdded (AnyUnstructured (Some JNull)), CrdProcess ''x'', CrdProcess ''Update/ns/car'',
       CrdDeleted (AnyDeletedFinalStateUnknown (AnyUnstructured (Some JNull)))]"]
  by (auto simp del: go_run.simps)

end
