(* ===== verification/CRD_Steps.thy ===== *)
theory CRD_Steps
  imports CRD_Machine
begin

section \<open>The worker's goroutine, step by step\<close>

text \<open>
  \<open>runWorker\<close> and \<open>process\<close> of \<open>internal/ctrl/worker/crd_worker.go\<close>, cut where the informer's
  goroutine can come between: after the queue has handed out a key, after the cache has been
  read (the event is reconciled with the container read then, whatever the cache holds
  later), and after the calls of the API server, before the queue is told. A key is in one
  goroutine's hands at a time, and \<open>startup.go\<close> starts one; the calls of one reconcile are one
  step, for nobody else writes the workloads' containers.
\<close>

datatype wk_pc =
    Idle
  | Took string
  | HasRead string CRDWorkerEvent container_cache
  | Tried string "string option"

record ('q, 'k) live =
  lv_crd :: "('q, 'k) crd_state"
  lv_pc :: wk_pc

text \<open>A queue that has nothing to hand out leaves the goroutine where it is.\<close>

definition worker_step ::
  "'k kube_client \<Rightarrow> 'q work_queue \<Rightarrow> CRDWorker \<Rightarrow> ('q, 'k) live \<Rightarrow> ('q, 'k) live go" where
  "worker_step kc wq w l =
     (let s = lv_crd l in
      case lv_pc l of
        Idle \<Rightarrow>
          (let (q, key, shutdown) = wq_Get wq (cs_queue s)
           in Inr \<lparr>lv_crd = s\<lparr>cs_queue := q\<rparr>, lv_pc = (if shutdown then Idle else Took key)\<rparr>)
      | Took key \<Rightarrow>
          Inr (case parseEventKey key of
              Inl err \<Rightarrow> \<lparr>lv_crd = s\<lparr>cs_queue := wq_Done wq (wq_Forget wq (cs_queue s) key) key\<rparr>, lv_pc = Idle\<rparr>
            | Inr event \<Rightarrow> \<lparr>lv_crd = s, lv_pc = HasRead key event (cs_cache s)\<rparr>)
      | HasRead key event cache \<Rightarrow>
          go_bind (wk_processEvent kc (w_label w) cache (cs_kube s) event) (\<lambda>(k, err).
            Inr \<lparr>lv_crd = s\<lparr>cs_kube := k\<rparr>, lv_pc = Tried key err\<rparr>)
      | Tried key err \<Rightarrow>
          (let q = (if err \<noteq> None \<and> wk_shouldRetry w (wq_NumRequeues wq (cs_queue s) key)
                    then wq_AddRateLimited wq (cs_queue s) key else wq_Forget wq (cs_queue s) key)
           in Inr \<lparr>lv_crd = s\<lparr>cs_queue := wq_Done wq q key\<rparr>, lv_pc = Idle\<rparr>))"

datatype sync_op = SyncAdded any_obj | SyncUpdated any_obj | SyncDeleted any_obj | SyncWorker

fun callback ::
  "'q work_queue \<Rightarrow> (json \<Rightarrow> string + Container) \<Rightarrow> ('q, 'k) crd_state \<Rightarrow> sync_op \<Rightarrow> ('q, 'k) crd_state" where
  "callback wq fu s (SyncAdded obj) = crd_OnAdded wq fu s obj"
| "callback wq fu s (SyncUpdated obj) = crd_OnUpdated wq fu s obj"
| "callback wq fu s (SyncDeleted obj) = crd_OnDeleted wq fu s obj"
| "callback wq fu s SyncWorker = s"

definition sync_step ::
  "'k kube_client \<Rightarrow> 'q work_queue \<Rightarrow> (json \<Rightarrow> string + Container) \<Rightarrow> CRDWorker
   \<Rightarrow> ('q, 'k) live \<Rightarrow> sync_op \<Rightarrow> (('q, 'k) live \<times> unit) go" where
  "sync_step kc wq fu w l op =
     (if op = SyncWorker then go_bind (worker_step kc wq w l) (\<lambda>l'. Inr (l', ()))
      else Inr (l\<lparr>lv_crd := callback wq fu (lv_crd l) op\<rparr>, ()))"

lemma sync_step_simps [simp]:
  "sync_step kc wq fu w l SyncWorker = go_bind (worker_step kc wq w l) (\<lambda>l'. Inr (l', ()))"
  "op \<noteq> SyncWorker \<Longrightarrow> sync_step kc wq fu w l op = Inr (l\<lparr>lv_crd := callback wq fu (lv_crd l) op\<rparr>, ())"
  by (simp_all add: sync_step_def)

text \<open>Steps that nothing comes between are a round of \<open>runWorker\<close>.\<close>

lemma steps_are_round:
  assumes "wk_round kc wq w s = Inr (s', b)"
  shows "\<exists>n. go_iter n (worker_step kc wq w) \<lparr>lv_crd = s, lv_pc = Idle\<rparr> = Inr \<lparr>lv_crd = s', lv_pc = Idle\<rparr>"
proof -
  obtain q key shutdown where g: "wq_Get wq (cs_queue s) = (q, key, shutdown)" by (cases "wq_Get wq (cs_queue s)")
  show ?thesis
  proof (cases shutdown)
    case True
    with g assms show ?thesis by (intro exI [of _ 1]) (simp add: worker_step_def wk_round_def)
  next
    case False
    show ?thesis
    proof (cases "parseEventKey key")
      case (Inl err)
      with False g assms show ?thesis
        by (intro exI [of _ 2]) (simp add: worker_step_def wk_round_def wk_process_def numeral_2_eq_2)
    next
      case (Inr event)
      with False g assms obtain k err where
        "wk_processEvent kc (w_label w) (cs_cache s) (cs_kube s) event = Inr (k, err)"
        by (auto simp: wk_round_def wk_process_def go_bind_Inr_iff)
      with Inr False g assms show ?thesis
        by (intro exI [of _ 4]) (auto simp: worker_step_def wk_round_def wk_process_def Let_def numeral_eq_Suc)
    qed
  qed
qed

subsection \<open>Panics and the API's stores\<close>

definition pc_ok :: "wk_pc \<Rightarrow> bool" where
  "pc_ok pc \<longleftrightarrow> (case pc of HasRead key event cache \<Rightarrow> parseEventKey key = Inr event \<and> cache_ok cache | _ \<Rightarrow> True)"

definition live_ok :: "('q, 'k) live \<Rightarrow> bool" where
  "live_ok l \<longleftrightarrow> cache_ok (cs_cache (lv_crd l)) \<and> pc_ok (lv_pc l)"

lemma callback_cache: "cache_ok (cs_cache s) \<Longrightarrow> cache_ok (cs_cache (callback wq fu s op))"
  by (cases op) (auto simp: handlers_cache cache_ok_ops split: option.splits)

lemma callback_kube [simp]: "cs_kube (callback wq fu s op) = cs_kube s"
  by (cases op) (auto simp: crd_OnAdded_def crd_OnUpdated_def crd_OnDeleted_def crd_enqueue_def Let_def
      split: option.splits prod.splits)

text \<open>The cases of a worker step; none panics.\<close>

lemma worker_cases:
  assumes "live_ok l"
  obtains (took) q key shutdown where "lv_pc l = Idle" "wq_Get wq (cs_queue (lv_crd l)) = (q, key, shutdown)"
      "worker_step kc wq w l = Inr \<lparr>lv_crd = (lv_crd l)\<lparr>cs_queue := q\<rparr>, lv_pc = (if shutdown then Idle else Took key)\<rparr>"
  | (invalid) key err where "lv_pc l = Took key" "parseEventKey key = Inl err"
      "worker_step kc wq w l = Inr \<lparr>lv_crd = (lv_crd l)\<lparr>cs_queue := wq_Done wq (wq_Forget wq (cs_queue (lv_crd l)) key) key\<rparr>, lv_pc = Idle\<rparr>"
  | (read) key event where "lv_pc l = Took key" "parseEventKey key = Inr event"
      "worker_step kc wq w l = Inr \<lparr>lv_crd = lv_crd l, lv_pc = HasRead key event (cs_cache (lv_crd l))\<rparr>"
  | (tried) key event cache k err where "lv_pc l = HasRead key event cache" "cache_ok cache" "parseEventKey key = Inr event"
      "wk_processEvent kc (w_label w) cache (cs_kube (lv_crd l)) event = Inr (k, err)"
      "worker_step kc wq w l = Inr \<lparr>lv_crd = (lv_crd l)\<lparr>cs_kube := k\<rparr>, lv_pc = Tried key err\<rparr>"
  | (told) key err q where "lv_pc l = Tried key err"
      "q = (if err \<noteq> None \<and> wk_shouldRetry w (wq_NumRequeues wq (cs_queue (lv_crd l)) key)
        then wq_AddRateLimited wq (cs_queue (lv_crd l)) key else wq_Forget wq (cs_queue (lv_crd l)) key)"
      "worker_step kc wq w l = Inr \<lparr>lv_crd = (lv_crd l)\<lparr>cs_queue := wq_Done wq q key\<rparr>, lv_pc = Idle\<rparr>"
proof (cases "lv_pc l")
  case Idle
  obtain q key shutdown where "wq_Get wq (cs_queue (lv_crd l)) = (q, key, shutdown)"
    by (cases "wq_Get wq (cs_queue (lv_crd l))")
  with Idle show ?thesis by (intro took) (simp_all add: worker_step_def Let_def)
next
  case (Took key)
  show ?thesis
  proof (cases "parseEventKey key")
    case (Inl err)
    with Took show ?thesis by (intro invalid [OF Took Inl]) (simp add: worker_step_def Let_def)
  next
    case (Inr event)
    with Took show ?thesis by (intro read [OF Took Inr]) (simp add: worker_step_def Let_def)
  qed
next
  case (HasRead key event cache)
  with assms have ok: "cache_ok cache" "parseEventKey key = Inr event" by (simp_all add: live_ok_def pc_ok_def)
  from processEvent_total [OF ok(1), of kc "w_label w" "cs_kube (lv_crd l)" event] obtain k err where
    "wk_processEvent kc (w_label w) cache (cs_kube (lv_crd l)) event = Inr (k, err)" by blast
  with HasRead ok show ?thesis by (intro tried) (simp_all add: worker_step_def Let_def)
next
  case (Tried key err)
  then show ?thesis by (intro told [OF Tried refl]) (simp add: worker_step_def Let_def)
qed

lemma sync_ok: "live_ok l \<Longrightarrow> \<exists>l'. sync_step kc wq fu w l op = Inr (l', ()) \<and> live_ok l'"
proof (cases "op = SyncWorker")
  case False
  assume "live_ok l"
  with False callback_cache show ?thesis by (auto simp: live_ok_def)
next
  case True
  assume ok: "live_ok l"
  show ?thesis unfolding True
    by (cases rule: worker_cases [OF ok, of wq kc w]) (use ok in \<open>auto simp: live_ok_def pc_ok_def\<close>)
qed

interpretation live: go_machine "sync_step kc wq fu w" live_ok "\<lambda>_. True"
  for kc :: "'k kube_client" and wq :: "'q work_queue" and fu w
  by unfold_locales (use sync_ok in blast)

end
