(* ===== verification/CRD_Convergence.thy ===== *)
theory CRD_Convergence
  imports CRD_Steps
begin

section \<open>The worker catches up with the informer\<close>

text \<open>
  Callbacks and steps of the worker's goroutine interleaved over a queue that keeps what it is
  given (\<open>pending_contract\<close>). While a container's update is on its way through queue and worker,
  or has been carried out, the cluster is in step with the cache: the invariant that every
  callback and every step, also a failing one, preserves.
\<close>

subsection \<open>Queue keys\<close>

lemma pending_contractD:
  assumes "pending_contract wq pend"
  shows "pend (wq_Add wq q key) = insert key (pend q)"
    "pend (wq_AddRateLimited wq q key) = insert key (pend q)"
    "pend (wq_Forget wq q key) = pend q" "pend (wq_Done wq q key) = pend q"
    "wq_Get wq q = (q', key, True) \<Longrightarrow> pend q = {} \<and> pend q' = {}"
    "wq_Get wq q = (q', key, False) \<Longrightarrow> key \<in> pend q \<and> pend q' = pend q - {key}"
proof -
  have get: "\<forall>q q' key shutdown. wq_Get wq q = (q', key, shutdown) \<longrightarrow>
      (if shutdown then pend q = {} \<and> pend q' = {} else key \<in> pend q \<and> pend q' = pend q - {key})"
    using assms unfolding pending_contract_def by (elim conjE)
  show "wq_Get wq q = (q', key, True) \<Longrightarrow> pend q = {} \<and> pend q' = {}"
    using get [THEN spec, of q, THEN spec, of q', THEN spec, of key, THEN spec, of True] by simp
  show "wq_Get wq q = (q', key, False) \<Longrightarrow> key \<in> pend q \<and> pend q' = pend q - {key}"
    using get [THEN spec, of q, THEN spec, of q', THEN spec, of key, THEN spec, of False] by simp
qed (use assms in \<open>simp_all add: pending_contract_def\<close>)

subsection \<open>The keys are well typed\<close>

definition typed_key :: "string \<Rightarrow> bool" where
  "typed_key key \<longleftrightarrow> (\<exists>e. parseEventKey key = Inr e \<and> ev_Type e \<in> {EventTypeAdd, EventTypeUpdate, EventTypeDelete})"

lemma typed_event_key:
  assumes "ev_Type e \<in> {EventTypeAdd, EventTypeUpdate, EventTypeDelete}"
  shows "typed_key (event_key e)"
proof -
  have t: "CHR ''/'' \<notin> set (ev_Type e)"
    using assms by (auto simp: EventTypeAdd_def EventTypeUpdate_def EventTypeDelete_def)
  obtain a b where "parseEventKey (event_key e) = Inr \<lparr>ev_Type = ev_Type e, ev_ContainerName = b, ev_Namespace = a\<rparr>"
    by (simp add: parseEventKey_def event_key_def splitN_three takeWhile_sep [OF t] dropWhile_sep [OF t] Let_def)
  with assms show ?thesis by (auto simp: typed_key_def)
qed

lemma handlers_queue:
  "\<exists>es. cs_queue (crd_OnAdded wq fu s obj) = foldl (\<lambda>q e. wq_Add wq q (event_key e)) (cs_queue s) es
     \<and> (\<forall>e \<in> set es. ev_Type e = EventTypeAdd)"
  "\<exists>es. cs_queue (crd_OnUpdated wq fu s obj) = foldl (\<lambda>q e. wq_Add wq q (event_key e)) (cs_queue s) es
     \<and> (\<forall>e \<in> set es. ev_Type e = EventTypeUpdate)"
  "\<exists>es. cs_queue (crd_OnDeleted wq fu s obj) = foldl (\<lambda>q e. wq_Add wq q (event_key e)) (cs_queue s) es
     \<and> (\<forall>e \<in> set es. ev_Type e = EventTypeDelete)"
proof -
  let ?e = "\<lambda>t c. \<lparr>ev_Type = t, ev_ContainerName = cc_Name (ToCoreV1Container c), ev_Namespace = co_Namespace c\<rparr>"
  have none: "\<exists>es. cs_queue s = foldl (\<lambda>q e. wq_Add wq q (event_key e)) (cs_queue s) es \<and> (\<forall>e \<in> set es. ev_Type e = t)" for t
    by (rule exI [of _ "[]"]) simp
  have one: "\<exists>es. wq_Add wq (cs_queue s) (event_key (?e t c)) = foldl (\<lambda>q e. wq_Add wq q (event_key e)) (cs_queue s) es
      \<and> (\<forall>e \<in> set es. ev_Type e = t)" for t c
    by (rule exI [of _ "[?e t c]"]) simp
  show "\<exists>es. cs_queue (crd_OnAdded wq fu s obj) = foldl (\<lambda>q e. wq_Add wq q (event_key e)) (cs_queue s) es
     \<and> (\<forall>e \<in> set es. ev_Type e = EventTypeAdd)"
    by (cases "ParseContainer fu obj") (simp_all add: crd_OnAdded_def crd_enqueue_def Let_def none one split: prod.splits)
  show "\<exists>es. cs_queue (crd_OnUpdated wq fu s obj) = foldl (\<lambda>q e. wq_Add wq q (event_key e)) (cs_queue s) es
     \<and> (\<forall>e \<in> set es. ev_Type e = EventTypeUpdate)"
    by (cases "ParseContainer fu obj") (simp_all add: crd_OnUpdated_def crd_enqueue_def Let_def none one split: prod.splits)
  show "\<exists>es. cs_queue (crd_OnDeleted wq fu s obj) = foldl (\<lambda>q e. wq_Add wq q (event_key e)) (cs_queue s) es
     \<and> (\<forall>e \<in> set es. ev_Type e = EventTypeDelete)"
    by (cases "ParseContainer fu obj") (simp_all add: crd_OnDeleted_def crd_enqueue_def Let_def none one split: prod.splits)
qed

lemma pend_adds:
  "pending_contract wq pend \<Longrightarrow>
     pend (foldl (\<lambda>q e. wq_Add wq q (event_key e)) q es) = event_key ` set es \<union> pend q"
  by (induction es arbitrary: q) (auto simp: pending_contractD)

lemma callback_pend:
  assumes "pending_contract wq pend"
  shows "pend (cs_queue s) \<subseteq> pend (cs_queue (callback wq fu s op))"
proof -
  note P = pend_adds [OF assms, of "cs_queue s"]
  show ?thesis
  proof (cases op)
    case (SyncAdded obj)
    with handlers_queue(1) [of wq fu s obj] P show ?thesis by force
  next
    case (SyncUpdated obj)
    with handlers_queue(2) [of wq fu s obj] P show ?thesis by force
  next
    case (SyncDeleted obj)
    with handlers_queue(3) [of wq fu s obj] P show ?thesis by force
  qed simp
qed

text \<open>Also the key in the worker's hands.\<close>

definition typed_inv :: "('q \<Rightarrow> string set) \<Rightarrow> ('q, 'k) live \<Rightarrow> bool" where
  "typed_inv pend l \<longleftrightarrow> live_ok l \<and> (\<forall>key \<in> pend (cs_queue (lv_crd l)). typed_key key)
     \<and> (case lv_pc l of Idle \<Rightarrow> True | Took key \<Rightarrow> typed_key key | HasRead key event cache \<Rightarrow> typed_key key | Tried key err \<Rightarrow> typed_key key)"

lemma callback_typed:
  assumes "pending_contract wq pend" "\<forall>key \<in> pend (cs_queue s). typed_key key"
  shows "\<forall>key \<in> pend (cs_queue (callback wq fu s op)). typed_key key"
proof -
  note P = pend_adds [OF assms(1), of "cs_queue s"]
  show ?thesis
  proof (cases op)
    case (SyncAdded obj)
    with handlers_queue(1) [of wq fu s obj] assms(2) P show ?thesis by (auto simp: typed_event_key)
  next
    case (SyncUpdated obj)
    with handlers_queue(2) [of wq fu s obj] assms(2) P show ?thesis by (auto simp: typed_event_key)
  next
    case (SyncDeleted obj)
    with handlers_queue(3) [of wq fu s obj] assms(2) P show ?thesis by (auto simp: typed_event_key)
  qed (use assms(2) in simp)
qed

lemma typed_step:
  assumes pc: "pending_contract wq pend" and inv: "typed_inv pend l"
  shows "\<exists>l'. sync_step kc wq fu w l op = Inr (l', ()) \<and> typed_inv pend l'"
proof -
  from inv have ok: "live_ok l" and t: "\<forall>key \<in> pend (cs_queue (lv_crd l)). typed_key key"
    by (simp_all add: typed_inv_def)
  from sync_ok [OF ok, of kc wq fu w op] obtain l' where l': "sync_step kc wq fu w l op = Inr (l', ())" "live_ok l'" by blast
  note P = pending_contractD [OF pc]
  show ?thesis
  proof (cases "op = SyncWorker")
    case False
    with l' callback_typed [OF pc t, of fu op] inv show ?thesis by (auto simp: typed_inv_def)
  next
    case True
    from ok show ?thesis
    proof (cases rule: worker_cases [where wq = wq and kc = kc and w = w])
      case (took q key shutdown)
      with P(5,6) [of "cs_queue (lv_crd l)" q key] l' t True show ?thesis
        by (cases shutdown) (auto simp: typed_inv_def)
    qed (use l' inv True P in \<open>auto simp: typed_inv_def split: if_splits\<close>)
  qed
qed

subsection \<open>What the API server keeps\<close>

text \<open>A property of the stored workloads that every edit keeps is kept by every reconcile, also by one that fails half-way.\<close>

definition stores_all :: "(Workload \<Rightarrow> bool) \<Rightarrow> (string \<times> string \<Rightarrow> Workload option) \<Rightarrow> bool" where
  "stores_all Q st \<longleftrightarrow> (\<forall>key w. st key = Some w \<longrightarrow> wl_key w = key \<and> Q w)"

lemma stores_all_upd: "stores_all Q st \<Longrightarrow> Q w \<Longrightarrow> stores_all Q (st(wl_key w \<mapsto> w))"
  by (simp add: stores_all_def)

lemma well_stored_iff: "well_stored st \<longleftrightarrow> stores_all (\<lambda>_. True) st"
  by (simp add: well_stored_def stores_all_def)

lemma update_all_keeps:
  assumes upd: "\<And>k w k' e. upd k w = (k', e) \<Longrightarrow>
      other k' = other k \<and> (st k' = st k \<or> st k' = (st k)(wl_key w \<mapsto> w))"
    and f: "\<And>w. Q w \<Longrightarrow> Q (f w)"
  shows "update_all upd what f k errs ws = (k', errs') \<Longrightarrow> stores_all Q (st k) \<Longrightarrow> \<forall>w \<in> set ws. Q w \<Longrightarrow>
    stores_all Q (st k') \<and> other k' = other k"
proof (induction ws arbitrary: k errs)
  case (Cons w ws)
  obtain k1 e where u: "upd k (f w) = (k1, e)" by (cases "upd k (f w)")
  have "stores_all Q (st k1)"
    using upd [OF u] Cons.prems(2,3) f stores_all_upd [of Q "st k" "f w"] by auto
  with Cons.IH [of k1] upd [OF u] u Cons.prems(1,3) show ?case by (cases e) auto
qed simp

lemma kube_atomicD:
  assumes "kube_contract kc deps sts" "kube_atomic kc deps sts"
  shows "wk_updateDeployment kc k w = (k', e) \<Longrightarrow> sts k' = sts k \<and> (deps k' = deps k \<or> deps k' = (deps k)(wl_key w \<mapsto> w))"
    "wk_updateStatefulSet kc k w = (k', e) \<Longrightarrow> deps k' = deps k \<and> (sts k' = sts k \<or> sts k' = (sts k)(wl_key w \<mapsto> w))"
proof -
  note K = kube_contractD(5,6) [OF assms(1)]
  have A: "kc_UpdateDeployment kc k (wl_Namespace w) w = (k', Some err) \<Longrightarrow>
      sts k' = sts k \<and> (deps k' = deps k \<or> deps k' = (deps k)(wl_key w \<mapsto> w))"
    "kc_UpdateStatefulSet kc k (wl_Namespace w) w = (k', Some err) \<Longrightarrow>
      deps k' = deps k \<and> (sts k' = sts k \<or> sts k' = (sts k)(wl_key w \<mapsto> w))" for err
    using assms(2) unfolding kube_atomic_def by blast+
  show "wk_updateDeployment kc k w = (k', e) \<Longrightarrow> sts k' = sts k \<and> (deps k' = deps k \<or> deps k' = (deps k)(wl_key w \<mapsto> w))"
    using K(1) A(1) by (cases e) (auto simp: wk_updateDeployment_def)
  show "wk_updateStatefulSet kc k w = (k', e) \<Longrightarrow> deps k' = deps k \<and> (sts k' = sts k \<or> sts k' = (sts k)(wl_key w \<mapsto> w))"
    using K(2) A(2) by (cases e) (auto simp: wk_updateStatefulSet_def)
qed

lemma lists_stored_all: "lists_stored st ns label ws \<Longrightarrow> stores_all Q st \<Longrightarrow> \<forall>w \<in> set ws. Q w"
  unfolding lists_stored_def stores_all_def by blast

lemma reconcile_keeps:
  assumes kc: "kube_contract kc deps sts" "kube_atomic kc deps sts"
    and f: "\<And>w. Q w \<Longrightarrow> Q (fd w)" "\<And>w. Q w \<Longrightarrow> Q (fs w)"
    and st: "stores_all Q (deps k)" "stores_all Q (sts k)"
    and run: "reconcile_with kc label k ns fd fs = (k', err)"
  shows "stores_all Q (deps k') \<and> stores_all Q (sts k')"
proof -
  note K = kube_contractD [OF kc(1)]
  obtain k1 r where l1: "kc_ListDeployments kc k ns label = (k1, r)" by (cases "kc_ListDeployments kc k ns label")
  note a1 = K(1) [OF l1]
  show ?thesis
  proof (cases r)
    case (Inl e)
    with run l1 a1 st show ?thesis by (auto simp: reconcile_with_def)
  next
    case (Inr ds)
    obtain k2 errs where u1: "update_all (wk_updateDeployment kc) ''deployment'' fd k1 [] ds = (k2, errs)"
      by (cases "update_all (wk_updateDeployment kc) ''deployment'' fd k1 [] ds")
    have "\<forall>w \<in> set ds. Q w" using lists_stored_all [OF K(2) [OF l1 [unfolded Inr]] st(1)] .
    with update_all_keeps [where st = deps and other = sts and Q = Q and upd = "wk_updateDeployment kc" and f = fd, OF kube_atomicD(1) [OF kc] f(1) u1] st a1
    have b1: "stores_all Q (deps k2)" "stores_all Q (sts k2)" by simp_all
    obtain k3 r' where l2: "kc_ListStatefulSets kc k2 ns label = (k3, r')" by (cases "kc_ListStatefulSets kc k2 ns label")
    note a2 = K(3) [OF l2]
    show ?thesis
    proof (cases r')
      case (Inl e)
      with run l1 Inr u1 l2 a2 b1 show ?thesis by (auto simp: reconcile_with_def)
    next
      case (Inr ss)
      obtain k4 errs' where u2: "update_all (wk_updateStatefulSet kc) ''statefulset'' fs k3 errs ss = (k4, errs')"
        by (cases "update_all (wk_updateStatefulSet kc) ''statefulset'' fs k3 errs ss")
      have "\<forall>w \<in> set ss. Q w" using lists_stored_all [OF K(4) [OF l2 [unfolded Inr]] b1(2)] .
      with update_all_keeps [where st = sts and other = deps and Q = Q and upd = "wk_updateStatefulSet kc" and f = fs, OF kube_atomicD(2) [OF kc] f(2) u2] b1 a2
      have "stores_all Q (sts k4)" "stores_all Q (deps k4)" by simp_all
      with run l1 \<open>r = Inr ds\<close> u1 l2 Inr u2 show ?thesis by (simp add: reconcile_with_def)
    qed
  qed
qed

subsection \<open>Workloads in step with a container\<close>

definition in_step :: "string \<Rightarrow> string \<Rightarrow> CoreContainer \<Rightarrow> Workload \<Rightarrow> bool" where
  "in_step ns label c w \<longleftrightarrow> (selected ns label w \<longrightarrow> wk_deployWithContainerUpdated w c = w)"

lemma updated_removed_commute:
  "cc_Name c \<noteq> n \<Longrightarrow> wk_containersWithOneUpdated (wk_containersWithOneRemoved cs n) c
     = wk_containersWithOneRemoved (wk_containersWithOneUpdated cs c) n"
  by (induction cs) auto

lemma selected_edits [simp]:
  "selected ns label (wk_deployWithContainerUpdated w c) = selected ns label w"
  "selected ns label (wk_deployWithContainerRemoved w n) = selected ns label w"
  by (rule selected_edit; simp)+

lemma statefulset_edits:
  "wk_statefulsetWithContainerUpdated = wk_deployWithContainerUpdated"
  "wk_statefulsetWithContainerRemoved = wk_deployWithContainerRemoved"
  by (simp_all add: fun_eq_iff wk_edit_defs)

text \<open>An update in the container's own name, an edit in another one and a removal leave the workload in step.\<close>

lemma in_step_fixed: "in_step ns label c w \<longleftrightarrow> (selected ns label w \<longrightarrow>
   wk_containersWithOneUpdated (wl_InitContainers w) c = wl_InitContainers w
   \<and> wk_containersWithOneUpdated (wl_Containers w) c = wl_Containers w)"
  by (cases w) (auto simp: in_step_def wk_deployWithContainerUpdated_def)

lemma in_step_update:
  assumes "in_step ns label c w" "cc_Name d = cc_Name c \<Longrightarrow> d = c"
  shows "in_step ns label c (wk_deployWithContainerUpdated w d)"
proof (cases "cc_Name d = cc_Name c")
  case True
  with assms(2) show ?thesis by (simp add: in_step_def wk_deployWithContainerUpdated_def)
next
  case False
  with assms(1) updated_commute [of d c] show ?thesis
    by (simp add: in_step_fixed) (simp add: wk_deployWithContainerUpdated_def)
qed

lemma in_step_remove:
  assumes "in_step ns label c w"
  shows "in_step ns label c (wk_deployWithContainerRemoved w n)"
proof (cases "n = cc_Name c")
  case True
  then show ?thesis by (simp add: in_step_def wk_edit_defs)
next
  case False
  with assms updated_removed_commute [of c n] show ?thesis
    by (simp add: in_step_fixed) (simp add: wk_deployWithContainerRemoved_def)
qed

text \<open>
  What a pass does to the stored workloads, in terms of its two edits: a property that the
  edits of this cache keep is kept by the pass.
\<close>

lemma processEvent_keeps:
  assumes kc: "kube_contract kc deps sts" "kube_atomic kc deps sts" and ok: "cache_ok cache"
    and upd: "\<And>d w. cache (cc_Name d) = Some (Some d) \<Longrightarrow> Q w \<Longrightarrow> Q (wk_deployWithContainerUpdated w d)"
    and rem: "\<And>n w. Q w \<Longrightarrow> Q (wk_deployWithContainerRemoved w n)"
    and st: "stores_all Q (deps k)" "stores_all Q (sts k)"
    and run: "wk_processEvent kc label cache k e = Inr (k', err)"
  shows "stores_all Q (deps k') \<and> stores_all Q (sts k')"
proof -
  note keeps = reconcile_keeps [where Q = Q, OF kc _ _ st]
  consider (skip) "k' = k"
    | (update) d where "cache (ev_ContainerName e) = Some (Some d)" "cc_Name d = ev_ContainerName e"
        "wk_reconcileUpdate kc label cache k (ev_ContainerName e) (ev_Namespace e) = Inr (k', err)"
    | (remove) "wk_reconcileDelete kc label k (ev_ContainerName e) (ev_Namespace e) = Inr (k', err)"
    using run cache_okD [OF ok, of "ev_ContainerName e"]
    by (cases "cache (ev_ContainerName e)") (auto simp: wk_processEvent_def reconcileUpdate_miss split: if_splits)
  then show ?thesis
  proof cases
    case update
    from update(3) reconcileUpdate_eq [where cache = cache and name = "ev_ContainerName e" and c = d,
        OF update(1), of kc label k "ev_Namespace e"]
    have "reconcile_with kc label k (ev_Namespace e)
        (\<lambda>w. wk_deployWithContainerUpdated w d) (\<lambda>w. wk_deployWithContainerUpdated w d) = (k', err)"
      by (simp add: statefulset_edits)
    from keeps [OF upd upd this] update(1,2) show ?thesis by simp
  next
    case remove
    then have "reconcile_with kc label k (ev_Namespace e) (\<lambda>w. wk_deployWithContainerRemoved w (ev_ContainerName e))
        (\<lambda>w. wk_deployWithContainerRemoved w (ev_ContainerName e)) = (k', err)"
      by (simp add: reconcileDelete_eq statefulset_edits)
    from keeps [OF rem rem this] show ?thesis by simp
  qed (use st in simp)
qed

lemma processEvent_well_stored:
  assumes "kube_contract kc deps sts" "kube_atomic kc deps sts" "cache_ok cache"
    and "well_stored (deps k)" "well_stored (sts k)" "wk_processEvent kc label cache k e = Inr (k', err)"
  shows "well_stored (deps k') \<and> well_stored (sts k')"
  using processEvent_keeps [where Q = "\<lambda>_. True", OF assms(1-3) _ _ _ _ assms(6)] assms(4,5)
  by (simp add: well_stored_iff)

text \<open>
  The shape of both convergence arguments. A key is on its way while it waits in the queue, the
  worker has it in hand with a cache that is fresh (it has the container as it is now), or the
  worker is about to return it after a failure. A goal is a property of the stored workloads
  that the pass over this key establishes when it reports no error and that no pass with a
  fresh cache destroys; a pass with an old cache can only happen while the key waits again.
\<close>

definition on_way :: "('q \<Rightarrow> string set) \<Rightarrow> (container_cache \<Rightarrow> bool) \<Rightarrow> string \<Rightarrow> ('q, 'k) live \<Rightarrow> bool" where
  "on_way pend F key l \<longleftrightarrow> key \<in> pend (cs_queue (lv_crd l))
     \<or> (case lv_pc l of Idle \<Rightarrow> False | Took k \<Rightarrow> k = key | HasRead k e c \<Rightarrow> k = key \<and> F c
        | Tried k err \<Rightarrow> k = key \<and> err \<noteq> None)"

definition fresh :: "('q \<Rightarrow> string set) \<Rightarrow> (container_cache \<Rightarrow> bool) \<Rightarrow> string \<Rightarrow> ('q, 'k) live \<Rightarrow> bool" where
  "fresh pend F key l \<longleftrightarrow>
     (case lv_pc l of HasRead k e c \<Rightarrow> F c \<or> key \<in> pend (cs_queue (lv_crd l)) | _ \<Rightarrow> True)"

lemma goal_worker:
  assumes pc: "pending_contract wq pend" and ok: "live_ok l" and retry: "w_maxRetries w < 0"
    and key: "parseEventKey key = Inr event" and F: "F (cs_cache (lv_crd l))"
    and reached: "\<And>c k k'. cache_ok c \<Longrightarrow> F c \<Longrightarrow> I k \<Longrightarrow>
      wk_processEvent kc (w_label w) c k event = Inr (k', None) \<Longrightarrow> G k'"
    and kept: "\<And>c k e k' err. cache_ok c \<Longrightarrow> F c \<Longrightarrow> G k \<Longrightarrow>
      wk_processEvent kc (w_label w) c k e = Inr (k', err) \<Longrightarrow> G k'"
    and inv: "\<And>c k e k' err. cache_ok c \<Longrightarrow> I k \<Longrightarrow>
      wk_processEvent kc (w_label w) c k e = Inr (k', err) \<Longrightarrow> I k'"
    and now: "on_way pend F key l \<or> G (cs_kube (lv_crd l))" "fresh pend F key l" "I (cs_kube (lv_crd l))"
  shows "\<exists>l'. worker_step kc wq w l = Inr l' \<and> live_ok l' \<and> cs_cache (lv_crd l') = cs_cache (lv_crd l)
    \<and> I (cs_kube (lv_crd l')) \<and> fresh pend F key l' \<and> (on_way pend F key l' \<or> G (cs_kube (lv_crd l')))"
proof -
  note P = pending_contractD [OF pc]
  have ok': "cache_ok (cs_cache (lv_crd l))" using ok by (simp add: live_ok_def)
  from ok show ?thesis
  proof (cases rule: worker_cases [where wq = wq and kc = kc and w = w])
    case (took q k shutdown)
    with P(5,6) [of "cs_queue (lv_crd l)" q k] now ok' show ?thesis
      by (cases shutdown) (auto simp: on_way_def fresh_def live_ok_def pc_ok_def)
  next
    case (invalid k err)
    with key have "key \<noteq> k" by (cases "key = k") simp_all
    with invalid now ok' show ?thesis by (auto simp: on_way_def fresh_def live_ok_def pc_ok_def P)
  next
    case (read k e)
    with now ok' F show ?thesis by (auto simp: on_way_def fresh_def live_ok_def pc_ok_def)
  next
    case (tried k e c k' err)
    have I: "I k'" by (rule inv [OF tried(2) now(3) tried(4)])
    have "key \<in> pend (cs_queue (lv_crd l)) \<or> (k = key \<and> err \<noteq> None) \<or> G k'"
    proof (cases "key \<in> pend (cs_queue (lv_crd l))")
      case False
      with now(2) tried(1) have Fc: "F c" by (simp add: fresh_def)
      show ?thesis
      proof (cases "G (cs_kube (lv_crd l))")
        case True
        from kept [OF tried(2) Fc this tried(4)] show ?thesis by simp
      next
        case NG: False
        with False now(1) tried(1) have "k = key" by (simp add: on_way_def)
        with tried(3) key have "e = event" by simp
        with reached [OF tried(2) Fc now(3)] tried(4) \<open>k = key\<close> show ?thesis by (cases err) auto
      qed
    qed simp
    with tried(1,5) I ok' show ?thesis by (auto simp: on_way_def fresh_def live_ok_def pc_ok_def)
  next
    case (told k err q)
    have "pend q = (if err \<noteq> None then insert k (pend (cs_queue (lv_crd l))) else pend (cs_queue (lv_crd l)))"
      using retry told(2) by (simp add: wk_shouldRetry_def P)
    with told(1,3) now ok' show ?thesis by (auto simp: on_way_def fresh_def live_ok_def pc_ok_def P)
  qed
qed

text \<open>A callback that leaves the container alone keeps it on its way.\<close>

lemma goal_callback:
  assumes pc: "pending_contract wq pend" and now: "on_way pend F key l \<or> G (cs_kube (lv_crd l))" "fresh pend F key l"
  shows "fresh pend F key (l\<lparr>lv_crd := callback wq fu (lv_crd l) op\<rparr>)"
    "on_way pend F key (l\<lparr>lv_crd := callback wq fu (lv_crd l) op\<rparr>) \<or> G (cs_kube (callback wq fu (lv_crd l) op))"
  using now callback_pend [OF pc, of "lv_crd l" fu op]
  by (auto simp: fresh_def on_way_def split: wk_pc.splits)

text \<open>A reconcile of the container itself that reports no error brings its namespace in step.\<close>

lemma update_in_step:
  assumes kc: "kube_contract kc deps sts" and st: "well_stored (deps k)" "well_stored (sts k)"
    and cache: "cache (cc_Name c) = Some (Some c)"
    and run: "wk_processEvent kc label cache k
      \<lparr>ev_Type = EventTypeUpdate, ev_ContainerName = cc_Name c, ev_Namespace = ns\<rparr> = Inr (k', None)"
  shows "stores_all (in_step ns label c) (deps k') \<and> stores_all (in_step ns label c) (sts k')"
proof -
  let ?f = "\<lambda>w. wk_deployWithContainerUpdated w c"
  from run reconcileUpdate_eq [where cache = cache and name = "cc_Name c" and c = c, OF cache, of kc label k ns]
  have "reconcile_with kc label k ns ?f ?f = (k', None)"
    by (simp add: statefulset_edits wk_processEvent_def EventTypeAdd_def EventTypeUpdate_def)
  from reconcile_with_stores [OF kc st edit_frame(1) edit_frame(1) this]
  have e: "deps k' = edited (deps k) ns label ?f" "sts k' = edited (sts k) ns label ?f" by simp_all
  have fixed: "?f (?f w) = ?f w" for w by (simp add: wk_deployWithContainerUpdated_def)
  have "stores_all (in_step ns label c) (edited st ns label ?f)" if "well_stored st" for st
    using that fixed by (auto simp: stores_all_def edited_def in_step_def well_stored_def)
  with st show ?thesis by (simp add: e)
qed

subsection \<open>The invariant\<close>

definition settled :: "'k observer \<Rightarrow> 'k observer \<Rightarrow> string \<Rightarrow> string \<Rightarrow> CoreContainer \<Rightarrow> 'k \<Rightarrow> bool" where
  "settled deps sts ns label c k \<longleftrightarrow>
     (\<forall>key w. deps k key = Some w \<or> sts k key = Some w \<longrightarrow> selected ns label w \<longrightarrow> wk_deployWithContainerUpdated w c = w)"

lemma settled_stores:
  "stores_all (in_step ns label c) (deps k) \<and> stores_all (in_step ns label c) (sts k) \<longleftrightarrow>
     settled deps sts ns label c k \<and> well_stored (deps k) \<and> well_stored (sts k)"
  unfolding settled_def stores_all_def in_step_def well_stored_def by blast

text \<open>
  The callbacks that concern the container of one name: an update gives it a new value;
  deletions and updates from another namespace are excluded.
\<close>

fun newest :: "(json \<Rightarrow> string + Container) \<Rightarrow> string \<Rightarrow> CoreContainer \<Rightarrow> sync_op list \<Rightarrow> CoreContainer" where
  "newest fu n c [] = c"
| "newest fu n c (SyncUpdated obj # ops) =
     newest fu n (case ParseContainer fu obj of None \<Rightarrow> c
       | Some d \<Rightarrow> if spec_Name (co_Spec d) = n then ToCoreV1Container d else c) ops"
| "newest fu n c (op # ops) = newest fu n c ops"

fun op_fits :: "(json \<Rightarrow> string + Container) \<Rightarrow> string \<Rightarrow> string \<Rightarrow> sync_op \<Rightarrow> bool" where
  "op_fits fu n ns (SyncUpdated obj) =
     (case ParseContainer fu obj of None \<Rightarrow> True | Some d \<Rightarrow> spec_Name (co_Spec d) = n \<longrightarrow> co_Namespace d = ns)"
| "op_fits fu n ns (SyncDeleted obj) =
     (case ParseContainer fu obj of None \<Rightarrow> True | Some d \<Rightarrow> spec_Name (co_Spec d) \<noteq> n)"
| "op_fits fu n ns op = True"

abbreviation update_key :: "string \<Rightarrow> string \<Rightarrow> string" where
  "update_key ns n \<equiv> event_key \<lparr>ev_Type = EventTypeUpdate, ev_ContainerName = n, ev_Namespace = ns\<rparr>"

abbreviation has :: "CoreContainer \<Rightarrow> container_cache \<Rightarrow> bool" where
  "has c cache \<equiv> cache (cc_Name c) = Some (Some c)"

definition follows ::
  "('q \<Rightarrow> string set) \<Rightarrow> 'k observer \<Rightarrow> 'k observer \<Rightarrow> string \<Rightarrow> string \<Rightarrow> CoreContainer \<Rightarrow> ('q, 'k) live \<Rightarrow> bool" where
  "follows pend deps sts ns label c l \<longleftrightarrow>
     live_ok l \<and> has c (cs_cache (lv_crd l))
     \<and> well_stored (deps (cs_kube (lv_crd l))) \<and> well_stored (sts (cs_kube (lv_crd l)))
     \<and> fresh pend (has c) (update_key ns (cc_Name c)) l
     \<and> (on_way pend (has c) (update_key ns (cc_Name c)) l \<or> settled deps sts ns label c (cs_kube (lv_crd l)))"

lemma newest_name: "cc_Name c = n \<Longrightarrow> cc_Name (newest fu n c ops) = n"
proof (induction fu n c ops rule: newest.induct)
  case (2 fu n c obj ops)
  then show ?case by (auto simp: ToCoreV1Container_def split: option.splits)
qed simp_all

lemma newest_append: "newest fu n c (ops @ ops') = newest fu n (newest fu n c ops) ops'"
  by (induction fu n c ops rule: newest.induct) simp_all

lemma follows_worker:
  assumes kc: "kube_contract kc deps sts" "kube_atomic kc deps sts" and pc: "pending_contract wq pend"
    and ns: "CHR ''/'' \<notin> set ns" and retry: "w_maxRetries w < 0"
    and inv: "follows pend deps sts ns (w_label w) c l"
  shows "\<exists>l'. worker_step kc wq w l = Inr l' \<and> follows pend deps sts ns (w_label w) c l'"
proof -
  let ?n = "cc_Name c" and ?I = "\<lambda>k. well_stored (deps k) \<and> well_stored (sts k)"
  let ?S = "\<lambda>k. stores_all (in_step ns (w_label w) c) (deps k) \<and> stores_all (in_step ns (w_label w) c) (sts k)"
  let ?e = "\<lparr>ev_Type = EventTypeUpdate, ev_ContainerName = ?n, ev_Namespace = ns\<rparr>"
  from inv have ok: "live_ok l" and here: "has c (cs_cache (lv_crd l))" and ws: "?I (cs_kube (lv_crd l))"
    and fr: "fresh pend (has c) (update_key ns ?n) l"
    and work: "on_way pend (has c) (update_key ns ?n) l \<or> ?S (cs_kube (lv_crd l))"
    using settled_stores [of ns "w_label w" c deps "cs_kube (lv_crd l)" sts] by (simp_all add: follows_def)
  have key: "parseEventKey (update_key ns ?n) = Inr ?e"
    by (rule parse_key) (use ns in \<open>simp_all add: EventTypeUpdate_def\<close>)
  have reached: "?S k'" if "cache_ok cache" "has c cache" "?I k" "wk_processEvent kc (w_label w) cache k ?e = Inr (k', None)"
    for cache k k'
    using update_in_step [OF kc(1) _ _ that(2,4)] that(3) by simp
  have kept: "?S k'" if "cache_ok cache" "has c cache" "?S k" "wk_processEvent kc (w_label w) cache k e = Inr (k', err)"
    for cache k e k' err
    using processEvent_keeps [where Q = "in_step ns (w_label w) c", OF kc that(1) in_step_update in_step_remove _ _ that(4)]
      that(2,3) by simp
  have stored: "?I k'" if "cache_ok cache" "?I k" "wk_processEvent kc (w_label w) cache k e = Inr (k', err)"
    for cache k e k' err
    using processEvent_well_stored [OF kc that(1) _ _ that(3)] that(2) by simp
  have "\<exists>l'. worker_step kc wq w l = Inr l' \<and> live_ok l' \<and> cs_cache (lv_crd l') = cs_cache (lv_crd l)
    \<and> ?I (cs_kube (lv_crd l')) \<and> fresh pend (has c) (update_key ns ?n) l'
    \<and> (on_way pend (has c) (update_key ns ?n) l' \<or> ?S (cs_kube (lv_crd l')))"
    by (rule goal_worker [where kc = kc and G = ?S and I = ?I, OF pc ok retry key])
      (fact here reached kept stored work fr ws)+
  then obtain l' where l': "worker_step kc wq w l = Inr l'" "live_ok l'" "cs_cache (lv_crd l') = cs_cache (lv_crd l)"
    "?I (cs_kube (lv_crd l'))" "fresh pend (has c) (update_key ns ?n) l'"
    "on_way pend (has c) (update_key ns ?n) l' \<or> ?S (cs_kube (lv_crd l'))" by blast
  with here settled_stores [of ns "w_label w" c deps "cs_kube (lv_crd l')" sts]
  have "follows pend deps sts ns (w_label w) c l'" by (auto simp: follows_def)
  with l'(1) show ?thesis by blast
qed

lemma follows_step:
  assumes kc: "kube_contract kc deps sts" "kube_atomic kc deps sts" and pc: "pending_contract wq pend"
    and ns: "CHR ''/'' \<notin> set ns" and retry: "w_maxRetries w < 0"
    and inv: "follows pend deps sts ns (w_label w) c l" and fit: "op_fits fu (cc_Name c) ns op"
  shows "\<exists>l'. sync_step kc wq fu w l op = Inr (l', ()) \<and>
    follows pend deps sts ns (w_label w) (newest fu (cc_Name c) c [op]) l'"
proof (cases "op = SyncWorker")
  case True
  with follows_worker [OF kc pc ns retry inv] show ?thesis by auto
next
  case False
  let ?n = "cc_Name c" and ?s = "lv_crd l"
  let ?l = "l\<lparr>lv_crd := callback wq fu ?s op\<rparr>"
  from inv have ok: "live_ok l" and here: "has c (cs_cache ?s)" by (simp_all add: follows_def)
  have ok': "live_ok ?l" using ok callback_cache [of "lv_crd l" wq fu op] by (simp add: live_ok_def)
  have keep: "follows pend deps sts ns (w_label w) c ?l" if "has c (cs_cache (callback wq fu ?s op))"
    using inv that ok' goal_callback [OF pc, where F = "has c" and l = l and G = "settled deps sts ns (w_label w) c"]
    by (simp add: follows_def)
  have "follows pend deps sts ns (w_label w) (newest fu ?n c [op]) ?l"
  proof (cases op)
    case (SyncAdded obj)
    with here have "has c (cs_cache (callback wq fu ?s op))"
      by (auto simp: handlers_cache gc_Add_def split: option.splits)
    from keep [OF this] SyncAdded show ?thesis by simp
  next
    case (SyncDeleted obj)
    with here fit have "has c (cs_cache (callback wq fu ?s op))"
      by (auto simp: handlers_cache gc_Delete_def ToCoreV1Container_def split: option.splits)
    from keep [OF this] SyncDeleted show ?thesis by simp
  next
    case (SyncUpdated obj)
    show ?thesis
    proof (cases "\<exists>d. ParseContainer fu obj = Some d \<and> spec_Name (co_Spec d) = ?n")
      case True
      then obtain d where d: "ParseContainer fu obj = Some d" "spec_Name (co_Spec d) = ?n" by blast
      with fit SyncUpdated have "co_Namespace d = ns" by simp
      moreover have n: "cc_Name (ToCoreV1Container d) = ?n" using d(2) by (simp add: ToCoreV1Container_def)
      ultimately have "has (ToCoreV1Container d) (cs_cache (callback wq fu ?s op))"
        "update_key ns ?n \<in> pend (cs_queue (callback wq fu ?s op))"
        using d(1) here SyncUpdated
        by (simp_all add: crd_OnUpdated_def gc_Update_def crd_enqueue_def pending_contractD [OF pc])
      with ok' inv n have "follows pend deps sts ns (w_label w) (ToCoreV1Container d) ?l"
        by (auto simp: follows_def fresh_def on_way_def split: wk_pc.splits)
      with d SyncUpdated show ?thesis by simp
    next
      case False
      with here SyncUpdated have "has c (cs_cache (callback wq fu ?s op))"
        by (auto simp: handlers_cache gc_Update_def ToCoreV1Container_def split: option.splits)
      from keep [OF this] SyncUpdated False show ?thesis by (auto split: option.splits)
    qed
  qed (use \<open>op \<noteq> SyncWorker\<close> in simp)
  with False show ?thesis by auto
qed

lemma follows_run:
  assumes "kube_contract kc deps sts" "kube_atomic kc deps sts" "pending_contract wq pend"
    and "CHR ''/'' \<notin> set ns" "w_maxRetries w < 0"
  shows "follows pend deps sts ns (w_label w) c l \<Longrightarrow> \<forall>op \<in> set ops. op_fits fu (cc_Name c) ns op \<Longrightarrow>
    \<exists>l' ys. go_run (sync_step kc wq fu w) l ops = Inr (l', ys) \<and>
      follows pend deps sts ns (w_label w) (newest fu (cc_Name c) c ops) l'"
proof (induction ops arbitrary: c l)
  case (Cons op ops)
  have "op_fits fu (cc_Name c) ns op" using Cons.prems(2) by simp
  from follows_step [OF assms Cons.prems(1) this] obtain l1 where
    l1: "sync_step kc wq fu w l op = Inr (l1, ())" "follows pend deps sts ns (w_label w) (newest fu (cc_Name c) c [op]) l1"
    by (elim exE conjE)
  have n: "cc_Name (newest fu (cc_Name c) c [op]) = cc_Name c" by (rule newest_name) simp
  from Cons.IH [OF l1(2)] Cons.prems(2) obtain l' ys where
    "go_run (sync_step kc wq fu w) l1 ops = Inr (l', ys)"
    "follows pend deps sts ns (w_label w) (newest fu (cc_Name c) (newest fu (cc_Name c) c [op]) ops) l'" by (auto simp: n)
  with l1(1) newest_append [of fu "cc_Name c" c "[op]" ops] show ?case by auto
qed simp

subsection \<open>Working off the queue\<close>

lemma processEvent_up:
  assumes "cache_ok cache" "kube_up kc"
  shows "\<exists>k'. wk_processEvent kc label cache k e = Inr (k', None)"
proof -
  have "\<exists>k'. wk_reconcileUpdate kc label cache k (ev_ContainerName e) (ev_Namespace e) = Inr (k', None)"
  proof (cases "cache (ev_ContainerName e)")
    case None
    then show ?thesis by (simp add: reconcileUpdate_miss)
  next
    case (Some p)
    with cache_okD [OF assms(1)] obtain c where "cache (ev_ContainerName e) = Some (Some c)" by blast
    then show ?thesis
      by (simp add: reconcileUpdate_eq [where cache = cache and name = "ev_ContainerName e" and c = c]
          reconcile_up [OF assms(2)])
  qed
  moreover have "\<exists>k'. wk_reconcileDelete kc label k (ev_ContainerName e) (ev_Namespace e) = Inr (k', None)"
    by (simp add: reconcileDelete_eq reconcile_up [OF assms(2)])
  ultimately show ?thesis by (auto simp: wk_processEvent_def)
qed

text \<open>What the worker still has to do: four steps for a waiting key, and the rest of the one in hand.\<close>

definition work_left :: "('q \<Rightarrow> string set) \<Rightarrow> ('q, 'k) live \<Rightarrow> nat" where
  "work_left pend l = 4 * card (pend (cs_queue (lv_crd l)))
     + (case lv_pc l of Idle \<Rightarrow> 0 | Took key \<Rightarrow> 3 | HasRead key e c \<Rightarrow> 2
        | Tried key err \<Rightarrow> (if err = None then 1 else 5))"

lemma worker_works:
  assumes pc: "pending_contract wq pend" and up: "kube_up kc" and ok: "live_ok l"
    and fin: "finite (pend (cs_queue (lv_crd l)))" and busy: "0 < work_left pend l"
  shows "\<exists>l'. worker_step kc wq w l = Inr l' \<and> finite (pend (cs_queue (lv_crd l'))) \<and> work_left pend l' < work_left pend l"
proof -
  note P = pending_contractD [OF pc]
  from ok show ?thesis
  proof (cases rule: worker_cases [where wq = wq and kc = kc and w = w])
    case (took q key shutdown)
    with busy have "pend (cs_queue (lv_crd l)) \<noteq> {}" by (auto simp: work_left_def)
    with took P(5) [of "cs_queue (lv_crd l)" q key] have "\<not> shutdown" by (cases shutdown) auto
    with took P(6) [of "cs_queue (lv_crd l)" q key]
    have q: "key \<in> pend (cs_queue (lv_crd l))" "pend q = pend (cs_queue (lv_crd l)) - {key}" by simp_all
    have "card (pend (cs_queue (lv_crd l))) = Suc (card (pend q))"
      using card_Suc_Diff1 [OF fin q(1)] q(2) by simp
    with took q fin \<open>\<not> shutdown\<close> show ?thesis by (simp add: work_left_def)
  next
    case (tried key e c k err)
    with processEvent_up [OF tried(2) up, of "w_label w" "cs_kube (lv_crd l)" e] have "err = None" by auto
    with tried fin show ?thesis by (simp add: work_left_def)
  next
    case (told key err q)
    have "card (insert key (pend (cs_queue (lv_crd l)))) \<le> Suc (card (pend (cs_queue (lv_crd l))))"
      using fin by (simp add: card_insert_if)
    with told fin show ?thesis by (auto simp: work_left_def P split: if_splits)
  qed (use fin in \<open>simp_all add: work_left_def P\<close>)
qed

lemma worker_drains:
  assumes pc: "pending_contract wq pend" and up: "kube_up kc"
  shows "live_ok l \<Longrightarrow> finite (pend (cs_queue (lv_crd l))) \<Longrightarrow>
    \<exists>n l' ys. n \<le> work_left pend l \<and> go_run (sync_step kc wq fu w) l (replicate n SyncWorker) = Inr (l', ys)
      \<and> pend (cs_queue (lv_crd l')) = {} \<and> lv_pc l' = Idle"
proof (induction "work_left pend l" arbitrary: l rule: less_induct)
  case less
  show ?case
  proof (cases "work_left pend l = 0")
    case True
    with less.prems(2) have "pend (cs_queue (lv_crd l)) = {}" "lv_pc l = Idle"
      by (auto simp: work_left_def split: wk_pc.splits if_splits)
    then show ?thesis by (intro exI [of _ 0] exI [of _ l] exI [of _ "[]"]) simp
  next
    case False
    then obtain l1 where l1: "worker_step kc wq w l = Inr l1" "finite (pend (cs_queue (lv_crd l1)))"
      "work_left pend l1 < work_left pend l" using worker_works [OF pc up less.prems, of w] by auto
    from sync_ok [OF less.prems(1), of kc wq fu w SyncWorker] l1(1) have "live_ok l1" by auto
    from less.hyps [OF l1(3) this l1(2)] obtain n l' ys where
      "n \<le> work_left pend l1" "go_run (sync_step kc wq fu w) l1 (replicate n SyncWorker) = Inr (l', ys)"
      "pend (cs_queue (lv_crd l')) = {}" "lv_pc l' = Idle" by blast
    with l1 show ?thesis by (intro exI [of _ "Suc n"]) auto
  qed
qed

subsection \<open>Deletions\<close>

text \<open>
  The same argument for a deleted container: no edit brings a container of its name back into
  a workload, an update of a container of that name included, so once it is gone it stays
  away.
\<close>

abbreviation delete_key :: "string \<Rightarrow> string \<Rightarrow> string" where
  "delete_key ns n \<equiv> event_key \<lparr>ev_Type = EventTypeDelete, ev_ContainerName = n, ev_Namespace = ns\<rparr>"

definition left_out :: "string \<Rightarrow> string \<Rightarrow> string \<Rightarrow> Workload \<Rightarrow> bool" where
  "left_out ns label n w \<longleftrightarrow>
     (selected ns label w \<longrightarrow> n \<notin> cc_Name ` set (wl_InitContainers w @ wl_Containers w))"

lemma removed_names: "cc_Name ` set (wk_containersWithOneRemoved cs n) = cc_Name ` set cs - {n}"
  by (auto simp: removed_filter)

lemma updated_name_set: "cc_Name ` set (wk_containersWithOneUpdated cs c) = cc_Name ` set cs"
  using arg_cong [OF updated_names [of cs c], of set] by (simp del: updated_names)

lemma left_out_edits:
  "left_out ns label n w \<Longrightarrow> left_out ns label n (wk_deployWithContainerUpdated w d)"
  "left_out ns label n w \<Longrightarrow> left_out ns label n (wk_deployWithContainerRemoved w m)"
  by (simp_all add: left_out_def image_Un)
    (simp_all add: wk_edit_defs removed_names updated_name_set)

definition gone :: "'k observer \<Rightarrow> 'k observer \<Rightarrow> string \<Rightarrow> string \<Rightarrow> string \<Rightarrow> 'k \<Rightarrow> bool" where
  "gone deps sts ns label n k \<longleftrightarrow>
     (\<forall>key w. deps k key = Some w \<or> sts k key = Some w \<longrightarrow> selected ns label w \<longrightarrow>
        n \<notin> cc_Name ` set (wl_InitContainers w @ wl_Containers w))"

lemma gone_stores:
  "stores_all (left_out ns label n) (deps k) \<and> stores_all (left_out ns label n) (sts k) \<longleftrightarrow>
     gone deps sts ns label n k \<and> well_stored (deps k) \<and> well_stored (sts k)"
  unfolding gone_def stores_all_def left_out_def well_stored_def by blast

lemma remove_leaves_out:
  assumes kc: "kube_contract kc deps sts" and st: "well_stored (deps k)" "well_stored (sts k)"
    and run: "wk_processEvent kc label cache k
      \<lparr>ev_Type = EventTypeDelete, ev_ContainerName = n, ev_Namespace = ns\<rparr> = Inr (k', None)"
  shows "stores_all (left_out ns label n) (deps k') \<and> stores_all (left_out ns label n) (sts k')"
proof -
  let ?f = "\<lambda>w. wk_deployWithContainerRemoved w n"
  from run have "reconcile_with kc label k ns ?f ?f = (k', None)"
    by (simp add: statefulset_edits wk_processEvent_def EventTypeAdd_def EventTypeUpdate_def EventTypeDelete_def reconcileDelete_eq)
  from reconcile_with_stores [OF kc st edit_frame(3) edit_frame(3) this]
  have e: "deps k' = edited (deps k) ns label ?f" "sts k' = edited (sts k) ns label ?f" by simp_all
  have out: "left_out ns label n (?f w)" "\<not> selected ns label w \<Longrightarrow> left_out ns label n w" for w
    by (simp_all add: left_out_def image_Un) (simp add: wk_edit_defs removed_names)
  have "stores_all (left_out ns label n) (edited st ns label ?f)" if "well_stored st" for st
    using that out by (auto simp: stores_all_def edited_def well_stored_def)
  with st show ?thesis by (simp add: e)
qed

definition departs ::
  "('q \<Rightarrow> string set) \<Rightarrow> 'k observer \<Rightarrow> 'k observer \<Rightarrow> string \<Rightarrow> string \<Rightarrow> string \<Rightarrow> ('q, 'k) live \<Rightarrow> bool" where
  "departs pend deps sts ns label n l \<longleftrightarrow>
     live_ok l \<and> well_stored (deps (cs_kube (lv_crd l))) \<and> well_stored (sts (cs_kube (lv_crd l)))
     \<and> (on_way pend (\<lambda>_. True) (delete_key ns n) l \<or> gone deps sts ns label n (cs_kube (lv_crd l)))"

lemma departs_step:
  assumes kc: "kube_contract kc deps sts" "kube_atomic kc deps sts" and pc: "pending_contract wq pend"
    and ns: "CHR ''/'' \<notin> set ns" and retry: "w_maxRetries w < 0"
    and inv: "departs pend deps sts ns (w_label w) n l"
  shows "\<exists>l'. sync_step kc wq fu w l op = Inr (l', ()) \<and> departs pend deps sts ns (w_label w) n l'"
proof -
  let ?s = "lv_crd l" and ?any = "\<lambda>_ :: container_cache. True"
  have fr: "fresh pend ?any (delete_key ns n) l" by (simp add: fresh_def split: wk_pc.split)
  show ?thesis
  proof (cases "op = SyncWorker")
    case False
    with inv goal_callback(2) [OF pc _ fr, where G = "gone deps sts ns (w_label w) n"] callback_cache
    show ?thesis by (auto simp: departs_def live_ok_def)
  next
    case True
    let ?I = "\<lambda>k. well_stored (deps k) \<and> well_stored (sts k)"
    let ?S = "\<lambda>k. stores_all (left_out ns (w_label w) n) (deps k) \<and> stores_all (left_out ns (w_label w) n) (sts k)"
    let ?e = "\<lparr>ev_Type = EventTypeDelete, ev_ContainerName = n, ev_Namespace = ns\<rparr>"
    from inv have ok: "live_ok l" and ws: "?I (cs_kube ?s)"
      and work: "on_way pend ?any (delete_key ns n) l \<or> ?S (cs_kube ?s)"
      using gone_stores [of ns "w_label w" n deps "cs_kube ?s" sts] by (simp_all add: departs_def)
    have key: "parseEventKey (delete_key ns n) = Inr ?e"
      by (rule parse_key) (use ns in \<open>simp_all add: EventTypeDelete_def\<close>)
    have reached: "?S k'" if "cache_ok cache" "?any cache" "?I k" "wk_processEvent kc (w_label w) cache k ?e = Inr (k', None)"
      for cache k k'
      using remove_leaves_out [OF kc(1) _ _ that(4)] that(3) by simp
    have kept: "?S k'" if "cache_ok cache" "?any cache" "?S k" "wk_processEvent kc (w_label w) cache k e = Inr (k', err)"
      for cache k e k' err
      using processEvent_keeps [where Q = "left_out ns (w_label w) n", OF kc that(1) left_out_edits _ _ that(4)] that(3) by simp
    have stored: "?I k'" if "cache_ok cache" "?I k" "wk_processEvent kc (w_label w) cache k e = Inr (k', err)"
      for cache k e k' err
      using processEvent_well_stored [OF kc that(1) _ _ that(3)] that(2) by simp
    have "\<exists>l'. worker_step kc wq w l = Inr l' \<and> live_ok l' \<and> cs_cache (lv_crd l') = cs_cache ?s
      \<and> ?I (cs_kube (lv_crd l')) \<and> fresh pend ?any (delete_key ns n) l'
      \<and> (on_way pend ?any (delete_key ns n) l' \<or> ?S (cs_kube (lv_crd l')))"
      by (rule goal_worker [where kc = kc and G = ?S and I = ?I, OF pc ok retry key])
        (fact TrueI reached kept stored work fr ws)+
    then obtain l' where l': "worker_step kc wq w l = Inr l'" "live_ok l'" "?I (cs_kube (lv_crd l'))"
      "on_way pend ?any (delete_key ns n) l' \<or> ?S (cs_kube (lv_crd l'))" by blast
    with gone_stores [of ns "w_label w" n deps "cs_kube (lv_crd l')" sts]
    have "departs pend deps sts ns (w_label w) n l'" by (auto simp: departs_def)
    with True l'(1) show ?thesis by simp
  qed
qed

lemma departs_machine:
  assumes "kube_contract kc deps sts" "kube_atomic kc deps sts" "pending_contract wq pend"
    and "CHR ''/'' \<notin> set ns" "w_maxRetries w < 0"
  shows "go_machine (sync_step kc wq fu w) (departs pend deps sts ns (w_label w) n) (\<lambda>_. True)"
  by (rule go_machine.intro) (use departs_step [OF assms] in blast)

lemma typed_machine:
  "pending_contract wq pend \<Longrightarrow> go_machine (sync_step kc wq fu w) (typed_inv pend) (\<lambda>_. True)"
  by (rule go_machine.intro) (use typed_step in blast)

end
