(* ===== verification/Sync_Properties.thy ===== *)
theory Sync_Properties
  imports Ctl_Properties CRD_Convergence
begin

section \<open>The cluster follows the custom resources\<close>

text \<open>
  Properties of whole runs in which the informer's callbacks come between any two steps of the
  worker: when an update or a deletion arrives, and what may be in the queue.
\<close>


text \<open>
  In the witness the deployment has version 1 and the worker has begun a pass with it when the
  update to version 2 arrives; then garbage, an addition of a container that is there already,
  and the write of version 1.
\<close>

definition first_queue :: plain_queue where
  "first_queue = ([], \<lambda>_. 0)"

definition mid_pass :: "container_cache \<Rightarrow> plain_state \<Rightarrow> (plain_queue, plain_state) live" where
  "mid_pass cache k = \<lparr>lv_crd = \<lparr>cs_cache = cache, cs_queue = first_queue, cs_kube = k\<rparr>,
     lv_pc = HasRead (update_key ''ns'' ''car'')
       \<lparr>ev_Type = EventTypeUpdate, ev_ContainerName = ''car'', ev_Namespace = ''ns''\<rparr> cache\<rparr>"

lemma mid_pass_ok: "cache_ok cache \<Longrightarrow> live_ok (mid_pass cache k)"
  by (simp add: live_ok_def pc_ok_def mid_pass_def parse_key EventTypeUpdate_def)


text \<open>
  C6: A deletion reaches the cluster. With retries unlimited, let the informer report the
  deletion of a cached container while the worker is at any point of a pass, and then let any
  callbacks and steps of the worker follow, the container's creation and updates included. No
  step panics, and at every moment the deletion is on its way or no labelled workload of the
  namespace has a container of that name. If from then on the API server answers, at most
  \<open>work_left\<close> steps of the worker empty the queue and the container is gone.
\<close>

theorem deletions_converge:
  assumes "kube_contract kc deps sts" "kube_atomic kc deps sts" "pending_contract wq pend"
    and "w_maxRetries w < 0" "CHR ''/'' \<notin> set ns"
    and "live_ok l" "well_stored (deps (cs_kube (lv_crd l)))" "well_stored (sts (cs_kube (lv_crd l)))"
    and "ParseContainer fu obj = Some d" "spec_Name (co_Spec d) = n" "co_Namespace d = ns" "cs_cache (lv_crd l) n \<noteq> None"
  shows "\<exists>l' ys. go_run (sync_step kc wq fu w) l (SyncDeleted obj # ops) = Inr (l', ys)
    \<and> (on_way pend (\<lambda>_. True) (delete_key ns n) l' \<or> gone deps sts ns (w_label w) n (cs_kube (lv_crd l')))
    \<and> (kube_up kc \<and> finite (pend (cs_queue (lv_crd l'))) \<longrightarrow>
        (\<exists>m l'' zs. m \<le> work_left pend l' \<and> go_run (sync_step kc wq fu w) l' (replicate m SyncWorker) = Inr (l'', zs)
           \<and> pend (cs_queue (lv_crd l'')) = {} \<and> lv_pc l'' = Idle \<and> gone deps sts ns (w_label w) n (cs_kube (lv_crd l''))))"
proof -
  let ?s = "crd_OnDeleted wq fu (lv_crd l) obj" and ?l = "l\<lparr>lv_crd := crd_OnDeleted wq fu (lv_crd l) obj\<rparr>"
  have name: "cc_Name (ToCoreV1Container d) = n" using assms(10) by (simp add: ToCoreV1Container_def)
  obtain p where "cs_cache (lv_crd l) n = Some p" using assms(12) by blast
  then have u: "?s = (lv_crd l)\<lparr>cs_cache := (cs_cache (lv_crd l))(n := None),
      cs_queue := wq_Add wq (cs_queue (lv_crd l)) (delete_key ns n)\<rparr>"
    using assms(9,11) by (simp add: crd_OnDeleted_def gc_Delete_def crd_enqueue_def name)
  have "live_ok ?l" using assms(6) callback_cache [of "lv_crd l" wq fu "SyncDeleted obj"] by (simp add: live_ok_def)
  then have start: "departs pend deps sts ns (w_label w) n ?l"
    using assms(7,8) by (simp add: u departs_def on_way_def pending_contractD [OF assms(3)])
  note run = go_machine.run_total [OF departs_machine [OF assms(1-3,5,4)]]
  from run [OF start, of ops fu] obtain l' ys where
    l': "go_run (sync_step kc wq fu w) ?l ops = Inr (l', ys)" "departs pend deps sts ns (w_label w) n l'"
    by (auto simp: list_all_def)
  have drain: "\<exists>m l'' zs. m \<le> work_left pend l' \<and> go_run (sync_step kc wq fu w) l' (replicate m SyncWorker) = Inr (l'', zs)
      \<and> pend (cs_queue (lv_crd l'')) = {} \<and> lv_pc l'' = Idle \<and> gone deps sts ns (w_label w) n (cs_kube (lv_crd l''))"
    if up: "kube_up kc" and fin: "finite (pend (cs_queue (lv_crd l')))"
  proof -
    from l'(2) have "live_ok l'" by (simp add: departs_def)
    from worker_drains [OF assms(3) up this fin, of fu w] obtain m l'' zs where
      e: "m \<le> work_left pend l'" "go_run (sync_step kc wq fu w) l' (replicate m SyncWorker) = Inr (l'', zs)"
        "pend (cs_queue (lv_crd l'')) = {}" "lv_pc l'' = Idle" by blast
    with run [OF l'(2) _, of "replicate m SyncWorker" fu]
    have "departs pend deps sts ns (w_label w) n l''" by (auto simp: list_all_def)
    with e show ?thesis by (auto simp: departs_def on_way_def)
  qed
  from l' drain show ?thesis by (auto simp: departs_def)
qed

theorem deletions_converge_witness:
  "let w = \<lparr>w_label = ''inject'', w_maxRetries = -1\<rparr>; fu = (\<lambda>u. Inr (sample_resource ''car'' ''v2'')); obj = AnyUnstructured (Some JNull);
       l = mid_pass [''car'' \<mapsto> Some (sample_container ''car'' ''v1'')]
             ([sample_workload ''web'' [sample_container ''car'' ''v1'']], [])
   in \<exists>l' ys m l'' zs. go_run (sync_step plain_kube plain_work_queue fu w) l
          [SyncDeleted obj, SyncAdded obj, SyncUpdated obj, SyncWorker] = Inr (l', ys)
      \<and> go_run (sync_step plain_kube plain_work_queue fu w) l' (replicate m SyncWorker) = Inr (l'', zs)
      \<and> fst (cs_queue (lv_crd l'')) = []
      \<and> gone (\<lambda>k. stored (fst k)) (\<lambda>k. stored (snd k)) ''ns'' ''inject'' ''car'' (cs_kube (lv_crd l''))"
proof -
  let ?w = "\<lparr>w_label = ''inject'', w_maxRetries = -1\<rparr>"
  let ?fu = "\<lambda>u :: json. (Inr (sample_resource ''car'' ''v2'') :: string + Container)"
  let ?obj = "AnyUnstructured (Some JNull)" and ?d = "sample_resource ''car'' ''v2''"
  let ?l = "mid_pass [''car'' \<mapsto> Some (sample_container ''car'' ''v1'')] ([sample_workload ''web'' [sample_container ''car'' ''v1'']], [])"
  have r: "w_maxRetries ?w < 0" by simp
  have n: "CHR ''/'' \<notin> set ''ns''" by simp
  have c: "live_ok ?l" by (rule mid_pass_ok) (simp add: cache_ok_def sample_container_def)
  have k: "well_stored (stored (fst (cs_kube (lv_crd ?l))))" "well_stored (stored (snd (cs_kube (lv_crd ?l))))"
    by (auto simp: well_stored_def stored_def mid_pass_def split: if_splits)
  have p: "ParseContainer ?fu ?obj = Some ?d" by (simp add: ParseContainer_def toContainerUnstructured_def)
  have q: "spec_Name (co_Spec ?d) = ''car''" "co_Namespace ?d = ''ns''" "cs_cache (lv_crd ?l) ''car'' \<noteq> None"
    by (simp_all add: sample_resource_def mid_pass_def)
  from deletions_converge [OF plain_kube_contract plain_kube_atomic plain_queue_pending r n c k p q] plain_kube_up
  show ?thesis unfolding Let_def by (fastforce simp del: go_run.simps)
qed

text \<open>
  C22: The queue is well typed. From an empty cache, an empty queue and an idle worker, after
  any callbacks (garbage included) and steps of the worker with whatever retries and whatever
  answers of the API server, every key that waits in the queue or that the worker has taken is
  read back as an event of one of the three types: the worker never drops a key as invalid and
  never takes its default branch.
\<close>

theorem queue_keys_typed:
  assumes "pending_contract wq pend" "cs_cache s = NewGeneralCache" "pend (cs_queue s) = {}"
  shows "\<exists>l' ys. go_run (sync_step kc wq fu w) \<lparr>lv_crd = s, lv_pc = Idle\<rparr> es = Inr (l', ys) \<and>
    (\<forall>key. key \<in> pend (cs_queue (lv_crd l')) \<or> lv_pc l' = Took key \<longrightarrow> (\<exists>e. parseEventKey key = Inr e
       \<and> ev_Type e \<in> {EventTypeAdd, EventTypeUpdate, EventTypeDelete}))"
proof -
  have "typed_inv pend \<lparr>lv_crd = s, lv_pc = Idle\<rparr>"
    using assms(2,3) by (simp add: typed_inv_def live_ok_def pc_ok_def cache_ok_def NewGeneralCache_def)
  from go_machine.run_total [OF typed_machine [OF assms(1)] this, of es kc fu w] show ?thesis
    by (fastforce simp: list_all_def typed_inv_def typed_key_def)
qed

theorem queue_keys_typed_witness:
  "let s = snd (NewCRDWorker NewGeneralCache ''inject'' ([], []) 2 first_queue)
   in \<exists>l' ys. go_run (sync_step refusing_kube plain_work_queue (\<lambda>u. Inr (sample_resource ''a/b'' ''v2'')) \<lparr>w_label = ''inject'', w_maxRetries = 2\<rparr>)
        \<lparr>lv_crd = s, lv_pc = Idle\<rparr>
        [SyncAdded (AnyUnstructured (Some JNull)), SyncUpdated (AnyUnstructured (Some JNull)), SyncWorker] = Inr (l', ys)
      \<and> list_all (\<lambda>key. \<exists>e. parseEventKey key = Inr e) (fst (cs_queue (lv_crd l')))"
proof -
  let ?s = "snd (NewCRDWorker NewGeneralCache ''inject'' ([], []) 2 first_queue) :: (plain_queue, plain_state) crd_state"
  have "cs_cache ?s = NewGeneralCache" "set (fst (cs_queue ?s)) = {}" by (simp_all add: NewCRDWorker_def first_queue_def)
  from queue_keys_typed [OF plain_queue_pending this, of refusing_kube "\<lambda>u. Inr (sample_resource ''a/b'' ''v2'')"
      "\<lparr>w_label = ''inject'', w_maxRetries = 2\<rparr>"
      "[SyncAdded (AnyUnstructured (Some JNull)), SyncUpdated (AnyUnstructured (Some JNull)), SyncWorker]"]
  show ?thesis unfolding Let_def list_all_def by blast
qed

end
