(* ===== verification/Resource_Caches.thy ===== *)
theory Resource_Caches
  imports Ctl_Types
begin

section \<open>The informer caches\<close>

text \<open>
  \<open>pkg/cache/interface.go\<close> declares what a cache of informer objects offers: callbacks for
  added, updated and deleted objects that say whether something changed and under which name,
  and a lookup. \<open>internal/resources\<close> has two: \<open>ContainersCache\<close> (\<open>container_cache.go\<close>) and
  \<open>EndpointSliceCache\<close> (\<open>endpointslice_cache.go\<close>). A lookup of the second merges the slices of
  a service in the iteration order of a Go map, an argument of the model.
\<close>

subsection \<open>The contract\<close>

text \<open>
  What a client of a cache may rely on, on the states that satisfy \<open>inv\<close>: additions and
  updates always return; a callback that reports no change changes nothing; one that reports
  a change under a name changes only that name; after an addition or an update the name can
  be looked up; after a deletion that reports "all gone" it cannot.
\<close>

locale resource_cache =
  fixes onAdded :: "'c \<Rightarrow> any_obj \<Rightarrow> ('c \<times> bool \<times> string) go"
    and onUpdate :: "'c \<Rightarrow> any_obj \<Rightarrow> any_obj \<Rightarrow> ('c \<times> bool \<times> string) go"
    and onDelete :: "'c \<Rightarrow> any_obj \<Rightarrow> ('c \<times> bool \<times> string \<times> bool) go"
    and getCache :: "'x \<Rightarrow> 'c \<Rightarrow> string \<Rightarrow> any_obj option"
    and inv :: "'c \<Rightarrow> bool"
  assumes added_total: "inv c \<Longrightarrow> \<exists>c' b n. onAdded c obj = Inr (c', b, n) \<and> inv c'"
    and update_total: "inv c \<Longrightarrow> \<exists>c' b n. onUpdate c old new = Inr (c', b, n) \<and> inv c'"
    and delete_inv: "inv c \<Longrightarrow> onDelete c obj = Inr (c', b, n, all) \<Longrightarrow> inv c'"
    and added_same: "onAdded c obj = Inr (c', False, n) \<Longrightarrow> c' = c"
    and update_same: "onUpdate c old new = Inr (c', False, n) \<Longrightarrow> c' = c"
    and delete_same: "onDelete c obj = Inr (c', False, n, all) \<Longrightarrow> c' = c"
    and added_present: "onAdded c obj = Inr (c', True, n) \<Longrightarrow> getCache x c' n \<noteq> None"
    and update_present: "onUpdate c old new = Inr (c', True, n) \<Longrightarrow> getCache x c' n \<noteq> None"
    and delete_gone: "onDelete c obj = Inr (c', True, n, True) \<Longrightarrow> getCache x c' n = None"
    and added_frame: "onAdded c obj = Inr (c', True, n) \<Longrightarrow> m \<noteq> n \<Longrightarrow> getCache x c' m = getCache x c m"
    and update_frame: "onUpdate c old new = Inr (c', True, n) \<Longrightarrow> m \<noteq> n \<Longrightarrow> getCache x c' m = getCache x c m"
    and delete_frame: "onDelete c obj = Inr (c', True, n, all) \<Longrightarrow> m \<noteq> n \<Longrightarrow> getCache x c' m = getCache x c m"

subsection \<open>ContainersCache\<close>

type_synonym ContainersCache = "string \<rightharpoonup> Container"

definition NewContainersCache :: ContainersCache where
  "NewContainersCache = Map.empty"

definition ctn_OnAdded :: "(json \<Rightarrow> string + Container) \<Rightarrow> ContainersCache \<Rightarrow> any_obj \<Rightarrow> (ContainersCache \<times> bool \<times> string) go" where
  "ctn_OnAdded fu c obj =
     (case ParseContainer fu obj of None \<Rightarrow> Inr (c, False, '''')
      | Some container \<Rightarrow> Inr (c(co_Name container \<mapsto> container), True, co_Name container))"

definition ctn_OnUpdate ::
  "(json \<Rightarrow> string + Container) \<Rightarrow> ContainersCache \<Rightarrow> any_obj \<Rightarrow> any_obj \<Rightarrow> (ContainersCache \<times> bool \<times> string) go" where
  "ctn_OnUpdate fu c oldObj newObj =
     (case ParseContainer fu newObj of None \<Rightarrow> Inr (c, False, '''')
      | Some container \<Rightarrow> Inr (c(co_Name container \<mapsto> container), True, co_Name container))"

definition ctn_OnDelete :: "(json \<Rightarrow> string + Container) \<Rightarrow> ContainersCache \<Rightarrow> any_obj \<Rightarrow> (ContainersCache \<times> bool \<times> string \<times> bool) go" where
  "ctn_OnDelete fu c obj =
     (case ParseContainer fu obj of None \<Rightarrow> Inr (c, False, '''', True)
      | Some container \<Rightarrow> Inr (c(co_Name container := None), True, co_Name container, True))"

definition ctn_GetCache :: "unit \<Rightarrow> ContainersCache \<Rightarrow> string \<Rightarrow> any_obj option" where
  "ctn_GetCache x c name = (case c name of None \<Rightarrow> None | Some container \<Rightarrow> Some (AnyContainer container))"

lemmas ctn_defs = ctn_OnAdded_def ctn_OnUpdate_def ctn_OnDelete_def ctn_GetCache_def

interpretation ctn: resource_cache "ctn_OnAdded fu" "ctn_OnUpdate fu" "ctn_OnDelete fu" ctn_GetCache "\<lambda>_. True"
  for fu
  by unfold_locales (auto simp: ctn_defs split: option.splits)

subsection \<open>EndpointSliceCache\<close>

text \<open>The slices of one service, by slice name.\<close>

record D_EndpointSlice =
  d_serviceName :: string
  epsNameToEps :: "string \<rightharpoonup> EndpointSlice"

definition NewD_EndpointSlice :: "string \<Rightarrow> D_EndpointSlice" where
  "NewD_EndpointSlice serviceName = \<lparr>d_serviceName = serviceName, epsNameToEps = Map.empty\<rparr>"

definition d_GetMerged :: "string list \<Rightarrow> D_EndpointSlice \<Rightarrow> EndpointSlice" where
  "d_GetMerged ks d = \<lparr>es_Name = d_serviceName d, es_Labels = [(service_label, d_serviceName d)],
     es_Endpoints = concat (map (\<lambda>k. case epsNameToEps d k of None \<Rightarrow> [] | Some es \<Rightarrow> es_Endpoints es) ks)\<rparr>"

definition d_OnAdded :: "D_EndpointSlice \<Rightarrow> EndpointSlice \<Rightarrow> D_EndpointSlice" where
  "d_OnAdded d es =
     (if es_service es \<noteq> d_serviceName d then d
      else d\<lparr>epsNameToEps := (epsNameToEps d)(es_Name es \<mapsto> es)\<rparr>)"

definition d_OnDelete :: "D_EndpointSlice \<Rightarrow> EndpointSlice \<Rightarrow> D_EndpointSlice" where
  "d_OnDelete d es =
     (if es_service es \<noteq> d_serviceName d then d
      else d\<lparr>epsNameToEps := (epsNameToEps d)(es_Name es := None)\<rparr>)"

definition d_OnUpdate :: "D_EndpointSlice \<Rightarrow> EndpointSlice \<Rightarrow> EndpointSlice \<Rightarrow> D_EndpointSlice" where
  "d_OnUpdate d oldEs newEs =
     (if es_service oldEs \<noteq> d_serviceName d then d
      else if es_service newEs \<noteq> d_serviceName d then d
      else d\<lparr>epsNameToEps := ((epsNameToEps d)(es_Name oldEs := None))(es_Name newEs \<mapsto> newEs)\<rparr>)"

text \<open>
  The map of all services. A missing entry reads as a nil pointer: dereferencing it panics,
  which is what \<open>OnDelete\<close> does after it has removed the entry of a service.
\<close>

type_synonym EndpointSliceCache = "string \<rightharpoonup> D_EndpointSlice"

definition NewEndpointSliceCache :: EndpointSliceCache where
  "NewEndpointSliceCache = Map.empty"

definition epc_OnAdded :: "EndpointSliceCache \<Rightarrow> any_obj \<Rightarrow> (EndpointSliceCache \<times> bool \<times> string) go" where
  "epc_OnAdded c obj =
     (case obj of
        AnyEndpointSlice es \<Rightarrow>
          let svcName = es_service es;
              c1 = (if c svcName = None then c(svcName \<mapsto> NewD_EndpointSlice svcName) else c)
          in go_bind (go_deref (c1 svcName)) (\<lambda>d. Inr (c1(svcName \<mapsto> d_OnAdded d es), True, svcName))
      | _ \<Rightarrow> Inr (c, False, ''''))"

definition epc_OnUpdate :: "EndpointSliceCache \<Rightarrow> any_obj \<Rightarrow> any_obj \<Rightarrow> (EndpointSliceCache \<times> bool \<times> string) go" where
  "epc_OnUpdate c oldObj newObj =
     (case (oldObj, newObj) of
        (AnyEndpointSlice oldEs, AnyEndpointSlice newEs) \<Rightarrow>
          let svcName = es_service oldEs;
              c1 = (if c svcName = None then c(svcName \<mapsto> NewD_EndpointSlice svcName) else c)
          in go_bind (go_deref (c1 svcName)) (\<lambda>d. Inr (c1(svcName \<mapsto> d_OnUpdate d oldEs newEs), True, svcName))
      | _ \<Rightarrow> Inr (c, False, ''''))"

definition epc_OnDelete :: "EndpointSliceCache \<Rightarrow> any_obj \<Rightarrow> (EndpointSliceCache \<times> bool \<times> string \<times> bool) go" where
  "epc_OnDelete c obj =
     (case obj of
        AnyEndpointSlice es \<Rightarrow>
          let svcName = es_service es in
          (case c svcName of
             None \<Rightarrow> Inr (c, False, '''', False)
           | Some d \<Rightarrow>
               let d1 = d_OnDelete d es;
                   c1 = c(svcName \<mapsto> d1);
                   c2 = (if epsNameToEps d1 = Map.empty then c1(svcName := None) else c1)
               in go_bind (go_deref (c2 svcName)) (\<lambda>d2. Inr (c2, True, svcName, epsNameToEps d2 = Map.empty)))
      | _ \<Rightarrow> Inr (c, False, '''', False))"

definition epc_GetCache :: "string list \<Rightarrow> EndpointSliceCache \<Rightarrow> string \<Rightarrow> any_obj option" where
  "epc_GetCache ks c svcName =
     (case c svcName of None \<Rightarrow> None | Some d \<Rightarrow> Some (AnyEndpointSlice (d_GetMerged ks d)))"

subsection \<open>What the slice cache holds\<close>

text \<open>Every entry is under its service's name; its slices carry that label and their own name.\<close>

definition epc_inv :: "EndpointSliceCache \<Rightarrow> bool" where
  "epc_inv c \<longleftrightarrow> (\<forall>svc d. c svc = Some d \<longrightarrow> d_serviceName d = svc \<and> finite (dom (epsNameToEps d))
     \<and> (\<forall>n es. epsNameToEps d n = Some es \<longrightarrow> es_Name es = n \<and> es_service es = svc))"

lemma epc_invD:
  "epc_inv c \<Longrightarrow> c svc = Some d \<Longrightarrow> d_serviceName d = svc \<and> finite (dom (epsNameToEps d))
     \<and> (\<forall>n es. epsNameToEps d n = Some es \<longrightarrow> es_Name es = n \<and> es_service es = svc)"
  unfolding epc_inv_def by blast

lemma epc_added:
  "epc_OnAdded c (AnyEndpointSlice es) = Inr (c(es_service es \<mapsto>
     d_OnAdded (case c (es_service es) of None \<Rightarrow> NewD_EndpointSlice (es_service es) | Some d \<Rightarrow> d) es), True, es_service es)"
  by (auto simp: epc_OnAdded_def Let_def split: option.splits)

lemma epc_updated:
  "epc_OnUpdate c (AnyEndpointSlice old) (AnyEndpointSlice new) = Inr (c(es_service old \<mapsto>
     d_OnUpdate (case c (es_service old) of None \<Rightarrow> NewD_EndpointSlice (es_service old) | Some d \<Rightarrow> d) old new), True, es_service old)"
  by (auto simp: epc_OnUpdate_def Let_def split: option.splits)

lemma epc_deleted:
  "epc_OnDelete c (AnyEndpointSlice es) =
     (case c (es_service es) of None \<Rightarrow> Inr (c, False, '''', False)
      | Some d \<Rightarrow> if epsNameToEps (d_OnDelete d es) = Map.empty then Inl NilPointerDereference
                 else Inr (c(es_service es \<mapsto> d_OnDelete d es), True, es_service es, False))"
  by (auto simp: epc_OnDelete_def Let_def split: option.splits)

lemma epc_inv_upd:
  assumes "epc_inv c" "d_serviceName d = svc" "finite (dom (epsNameToEps d))"
    "\<And>n es. epsNameToEps d n = Some es \<Longrightarrow> es_Name es = n \<and> es_service es = svc"
  shows "epc_inv (c(svc \<mapsto> d))"
  using assms unfolding epc_inv_def by (auto split: if_splits)

lemma epc_entry:
  assumes "epc_inv c" "d = (case c svc of None \<Rightarrow> NewD_EndpointSlice svc | Some d \<Rightarrow> d)"
  shows "d_serviceName d = svc" "finite (dom (epsNameToEps d))"
    "\<And>n es. epsNameToEps d n = Some es \<Longrightarrow> es_Name es = n \<and> es_service es = svc"
  using assms epc_invD [OF assms(1), of svc]
  by (auto simp: NewD_EndpointSlice_def split: option.splits)

lemma epc_added_inv:
  assumes inv: "epc_inv c" and r: "epc_OnAdded c obj = Inr (c', b, n)"
  shows "epc_inv c'"
proof (cases obj)
  case (AnyEndpointSlice es)
  define d where "d = (case c (es_service es) of None \<Rightarrow> NewD_EndpointSlice (es_service es) | Some d \<Rightarrow> d)"
  note D = epc_entry [OF inv d_def]
  have "epc_inv (c(es_service es \<mapsto> d_OnAdded d es))"
    by (rule epc_inv_upd [OF inv]) (use D in \<open>auto simp: d_OnAdded_def split: if_splits\<close>)
  with r show ?thesis unfolding AnyEndpointSlice epc_added d_def by blast
qed (use r inv in \<open>simp_all add: epc_OnAdded_def\<close>)

lemma epc_updated_inv:
  assumes inv: "epc_inv c" and r: "epc_OnUpdate c old new = Inr (c', b, n)"
  shows "epc_inv c'"
proof (cases "\<exists>oes nes. old = AnyEndpointSlice oes \<and> new = AnyEndpointSlice nes")
  case True
  then obtain oes nes where e: "old = AnyEndpointSlice oes" "new = AnyEndpointSlice nes" by blast
  define d where "d = (case c (es_service oes) of None \<Rightarrow> NewD_EndpointSlice (es_service oes) | Some d \<Rightarrow> d)"
  note D = epc_entry [OF inv d_def]
  have "epc_inv (c(es_service oes \<mapsto> d_OnUpdate d oes nes))"
    by (rule epc_inv_upd [OF inv]) (use D in \<open>auto simp: d_OnUpdate_def split: if_splits\<close>)
  with r show ?thesis unfolding e epc_updated d_def by blast
next
  case False
  with r inv show ?thesis by (auto simp: epc_OnUpdate_def split: any_obj.splits)
qed

lemma epc_deleted_inv:
  assumes inv: "epc_inv c" and r: "epc_OnDelete c obj = Inr (c', b, n, all)"
  shows "epc_inv c'"
proof (cases obj)
  case (AnyEndpointSlice es)
  show ?thesis
  proof (cases "c (es_service es)")
    case None
    with r inv show ?thesis unfolding AnyEndpointSlice epc_deleted by simp
  next
    case (Some d)
    note D = epc_invD [OF inv Some]
    have "epc_inv (c(es_service es \<mapsto> d_OnDelete d es))"
      by (rule epc_inv_upd [OF inv]) (use D in \<open>auto simp: d_OnDelete_def split: if_splits\<close>)
    with r Some show ?thesis unfolding AnyEndpointSlice epc_deleted by (auto split: if_splits)
  qed
qed (use r inv in \<open>simp_all add: epc_OnDelete_def\<close>)

lemma epc_OnAdded_other: "\<nexists>es. obj = AnyEndpointSlice es \<Longrightarrow> epc_OnAdded c obj = Inr (c, False, '''')"
  by (cases obj) (simp_all add: epc_OnAdded_def)

lemma epc_OnUpdate_other:
  "\<not> (\<exists>a b. old = AnyEndpointSlice a \<and> new = AnyEndpointSlice b) \<Longrightarrow> epc_OnUpdate c old new = Inr (c, False, '''')"
  by (cases old; cases new) (simp_all add: epc_OnUpdate_def)

lemma epc_OnDelete_other: "\<nexists>es. obj = AnyEndpointSlice es \<Longrightarrow> epc_OnDelete c obj = Inr (c, False, '''', False)"
  by (cases obj) (simp_all add: epc_OnDelete_def)

lemma epc_added_cases:
  "(\<exists>es. obj = AnyEndpointSlice es \<and> epc_OnAdded c obj = Inr (c(es_service es \<mapsto>
     d_OnAdded (case c (es_service es) of None \<Rightarrow> NewD_EndpointSlice (es_service es) | Some d \<Rightarrow> d) es), True, es_service es))
   \<or> epc_OnAdded c obj = Inr (c, False, '''')"
proof (cases "\<exists>es. obj = AnyEndpointSlice es")
  case True
  then obtain es where e: "obj = AnyEndpointSlice es" by blast
  then show ?thesis by (intro disjI1 exI [of _ es] conjI) (simp_all only: epc_added)
qed (use epc_OnAdded_other in blast)

lemma epc_update_cases:
  "(\<exists>a b. old = AnyEndpointSlice a \<and> new = AnyEndpointSlice b \<and> epc_OnUpdate c old new = Inr (c(es_service a \<mapsto>
     d_OnUpdate (case c (es_service a) of None \<Rightarrow> NewD_EndpointSlice (es_service a) | Some d \<Rightarrow> d) a b), True, es_service a))
   \<or> epc_OnUpdate c old new = Inr (c, False, '''')"
proof (cases "\<exists>a b. old = AnyEndpointSlice a \<and> new = AnyEndpointSlice b")
  case True
  then obtain a b where e: "old = AnyEndpointSlice a" "new = AnyEndpointSlice b" by blast
  then show ?thesis by (intro disjI1 exI [of _ a] exI [of _ b] conjI) (simp_all only: epc_updated)
qed (use epc_OnUpdate_other in blast)

lemma epc_delete_cases:
  "(\<exists>es d. obj = AnyEndpointSlice es \<and> c (es_service es) = Some d \<and>
     epc_OnDelete c obj = (if epsNameToEps (d_OnDelete d es) = Map.empty then Inl NilPointerDereference
       else Inr (c(es_service es \<mapsto> d_OnDelete d es), True, es_service es, False)))
   \<or> epc_OnDelete c obj = Inr (c, False, '''', False)"
proof (cases "\<exists>es. obj = AnyEndpointSlice es")
  case True
  then obtain es where "obj = AnyEndpointSlice es" by blast
  then show ?thesis by (cases "c (es_service es)") (simp_all add: epc_deleted)
qed (use epc_OnDelete_other in blast)

interpretation epc: resource_cache epc_OnAdded epc_OnUpdate epc_OnDelete epc_GetCache epc_inv
proof unfold_locales
  fix c c' obj old new n m b all x
  show "epc_inv c \<Longrightarrow> \<exists>c' b n. epc_OnAdded c obj = Inr (c', b, n) \<and> epc_inv c'"
    using epc_added_cases [of obj c] epc_added_inv [of c obj] by fastforce
  show "epc_inv c \<Longrightarrow> \<exists>c' b n. epc_OnUpdate c old new = Inr (c', b, n) \<and> epc_inv c'"
    using epc_update_cases [of old new c] epc_updated_inv [of c old new] by fastforce
  show "epc_inv c \<Longrightarrow> epc_OnDelete c obj = Inr (c', b, n, all) \<Longrightarrow> epc_inv c'"
    by (rule epc_deleted_inv)
  show "epc_OnAdded c obj = Inr (c', False, n) \<Longrightarrow> c' = c" using epc_added_cases [of obj c] by auto
  show "epc_OnUpdate c old new = Inr (c', False, n) \<Longrightarrow> c' = c" using epc_update_cases [of old new c] by auto
  show "epc_OnDelete c obj = Inr (c', False, n, all) \<Longrightarrow> c' = c"
    using epc_delete_cases [of obj c] by (auto split: if_splits)
  show "epc_OnAdded c obj = Inr (c', True, n) \<Longrightarrow> epc_GetCache x c' n \<noteq> None"
    using epc_added_cases [of obj c] by (auto simp: epc_GetCache_def)
  show "epc_OnUpdate c old new = Inr (c', True, n) \<Longrightarrow> epc_GetCache x c' n \<noteq> None"
    using epc_update_cases [of old new c] by (auto simp: epc_GetCache_def)
  show "epc_OnDelete c obj = Inr (c', True, n, True) \<Longrightarrow> epc_GetCache x c' n = None"
    using epc_delete_cases [of obj c] by (auto split: if_splits)
  show "epc_OnAdded c obj = Inr (c', True, n) \<Longrightarrow> m \<noteq> n \<Longrightarrow> epc_GetCache x c' m = epc_GetCache x c m"
    using epc_added_cases [of obj c] by (auto simp: epc_GetCache_def)
  show "epc_OnUpdate c old new = Inr (c', True, n) \<Longrightarrow> m \<noteq> n \<Longrightarrow> epc_GetCache x c' m = epc_GetCache x c m"
    using epc_update_cases [of old new c] by (auto simp: epc_GetCache_def)
  show "epc_OnDelete c obj = Inr (c', True, n, all) \<Longrightarrow> m \<noteq> n \<Longrightarrow> epc_GetCache x c' m = epc_GetCache x c m"
    using epc_delete_cases [of obj c] by (auto simp: epc_GetCache_def split: if_splits)
qed

end
