(* ===== verification/Sidecar.thy ===== *)
theory Sidecar
  imports Ctl_Types
begin

section \<open>The controller's end of a subscription\<close>

text \<open>
  \<open>internal/ctrl/utils/sidecar.go\<close>. A sidecar holds a buffered channel of events. \<open>Informer\<close>
  writes to it without blocking and drops the event when the buffer is full; the goroutine of
  the subscription reads from it. The channel is a list with a capacity and a closed mark;
  sending on it or closing it once closed panics, as in Go.
\<close>

subsection \<open>Channels\<close>

record 'a chan =
  ch_buf :: "'a list"
  ch_cap :: nat
  ch_closed :: bool

text \<open>\<open>select { case c <- v: ...; default: ... }\<close>: whether the value was taken.\<close>

definition chan_try_send :: "'a chan \<Rightarrow> 'a \<Rightarrow> ('a chan \<times> bool) go" where
  "chan_try_send c v =
     (if ch_closed c then Inl SendOnClosedChannel
      else if length (ch_buf c) < ch_cap c then Inr (c\<lparr>ch_buf := ch_buf c @ [v]\<rparr>, True)
      else Inr (c, False))"

definition chan_close :: "'a chan \<Rightarrow> 'a chan go" where
  "chan_close c = (if ch_closed c then Inl CloseOfClosedChannel else Inr (c\<lparr>ch_closed := True\<rparr>))"

text \<open>One round of \<open>for v := range c\<close>: a value, the end of a closed channel, or blocked.\<close>

datatype 'a received = Received 'a | Drained | Blocked

definition chan_recv :: "'a chan \<Rightarrow> 'a chan \<times> 'a received" where
  "chan_recv c =
     (case ch_buf c of
        v # vs \<Rightarrow> (c\<lparr>ch_buf := vs\<rparr>, Received v)
      | [] \<Rightarrow> (c, if ch_closed c then Drained else Blocked))"

subsection \<open>Events\<close>

text \<open>\<open>pkg/api/mesh/mesh.proto\<close>: the event sent to a sidecar.\<close>

datatype OpType = ADDED | MODIFIED | DELETED

record ClientSubscriptionEvent =
  ev_OpType :: OpType
  ev_Endpoints :: "string \<rightharpoonup> string list"

text \<open>The loop over the endpoints; \<open>endpoint.TargetRef.UID\<close> dereferences a pointer that may be nil.\<close>

definition newClientSubscriptionEvent :: "OpType \<Rightarrow> EndpointSlice \<Rightarrow> ClientSubscriptionEvent go" where
  "newClientSubscriptionEvent opType es =
     go_bind (go_fold (\<lambda>endpoints endpoint.
         go_bind (go_deref (ep_TargetRef endpoint)) (\<lambda>uid. Inr (endpoints(uid \<mapsto> ep_Addresses endpoint))))
       Map.empty (es_Endpoints es))
     (\<lambda>endpoints. Inr \<lparr>ev_OpType = opType, ev_Endpoints = endpoints\<rparr>)"

definition targets_set :: "EndpointSlice \<Rightarrow> bool" where
  "targets_set es \<longleftrightarrow> list_all (\<lambda>e. ep_TargetRef e \<noteq> None) (es_Endpoints es)"

definition endpoint_map :: "Endpoint list \<Rightarrow> string \<rightharpoonup> string list" where
  "endpoint_map eps = foldl (\<lambda>m e. m(the (ep_TargetRef e) \<mapsto> ep_Addresses e)) Map.empty eps"

lemma newEvent_ok:
  "targets_set es \<Longrightarrow> newClientSubscriptionEvent op es = Inr \<lparr>ev_OpType = op, ev_Endpoints = endpoint_map (es_Endpoints es)\<rparr>"
proof -
  assume t: "targets_set es"
  have "go_fold (\<lambda>m e. go_bind (go_deref (ep_TargetRef e)) (\<lambda>uid. Inr (m(uid \<mapsto> ep_Addresses e)))) Map.empty (es_Endpoints es)
      = Inr (foldl (\<lambda>m e. m(the (ep_TargetRef e) \<mapsto> ep_Addresses e)) Map.empty (es_Endpoints es))"
    by (rule go_fold_Inr) (use t in \<open>auto simp: targets_set_def list_all_iff\<close>)
  then show ?thesis by (simp add: newClientSubscriptionEvent_def endpoint_map_def)
qed

lemma newEvent_panics:
  "\<not> targets_set es \<Longrightarrow> newClientSubscriptionEvent op es = Inl NilPointerDereference"
proof -
  assume "\<not> targets_set es"
  then have "\<not> list_all (\<lambda>e. ep_TargetRef e \<noteq> None) (es_Endpoints es)" by (simp add: targets_set_def)
  then have "go_fold (\<lambda>m e. go_bind (go_deref (ep_TargetRef e)) (\<lambda>uid. Inr (m(uid \<mapsto> ep_Addresses e)))) m (es_Endpoints es)
      = Inl NilPointerDereference" for m
  proof (induction "es_Endpoints es" arbitrary: es m)
    case (Cons e eps)
    from Cons(2) [symmetric] Cons(3) Cons(1) [of "es\<lparr>es_Endpoints := eps\<rparr>"] show ?case
      by (cases "ep_TargetRef e") simp_all
  qed simp
  then show ?thesis by (simp add: newClientSubscriptionEvent_def)
qed

subsection \<open>Sidecars\<close>

record Sidecar =
  sc_closed :: bool
  sc_Name :: string
  sc_SubServiceName :: string
  sc_receiver :: "ClientSubscriptionEvent chan"

definition channelCapacity :: nat where
  "channelCapacity = 100"

definition NewSidecar :: "string \<Rightarrow> string \<Rightarrow> Sidecar" where
  "NewSidecar name subService = \<lparr>sc_closed = False, sc_Name = name, sc_SubServiceName = subService,
     sc_receiver = \<lparr>ch_buf = [], ch_cap = channelCapacity, ch_closed = False\<rparr>\<rparr>"

text \<open>A nil \<open>any\<close> is \<open>None\<close>.\<close>

definition sidecar_Informer :: "Sidecar \<Rightarrow> OpType \<Rightarrow> any_obj option \<Rightarrow> Sidecar go" where
  "sidecar_Informer s opType obj =
     (case obj of
        Some (AnyEndpointSlice endpointSlice) \<Rightarrow>
          if es_service endpointSlice \<noteq> sc_SubServiceName s then Inr s
          else go_bind (newClientSubscriptionEvent opType endpointSlice) (\<lambda>protoMsg.
               if sc_closed s then Inr s
               else go_bind (chan_try_send (sc_receiver s) protoMsg) (\<lambda>(c, sent). Inr (s\<lparr>sc_receiver := c\<rparr>)))
      | _ \<Rightarrow> Inr s)"

definition sidecar_Close :: "Sidecar \<Rightarrow> Sidecar go" where
  "sidecar_Close s =
     (if sc_closed s then Inr s
      else go_bind (chan_close (sc_receiver s)) (\<lambda>c. Inr (s\<lparr>sc_closed := True, sc_receiver := c\<rparr>)))"

text \<open>The mark and the channel agree; the buffer never exceeds the capacity.\<close>

definition sidecar_inv :: "Sidecar \<Rightarrow> bool" where
  "sidecar_inv s \<longleftrightarrow> ch_closed (sc_receiver s) = sc_closed s
     \<and> length (ch_buf (sc_receiver s)) \<le> ch_cap (sc_receiver s) \<and> ch_cap (sc_receiver s) = channelCapacity"

definition payload_ok :: "any_obj option \<Rightarrow> bool" where
  "payload_ok obj \<longleftrightarrow> (case obj of Some (AnyEndpointSlice es) \<Rightarrow> targets_set es | _ \<Rightarrow> True)"

lemma NewSidecar_inv: "sidecar_inv (NewSidecar name svc)"
  by (simp add: sidecar_inv_def NewSidecar_def)

text \<open>What \<open>Informer\<close> appends to the buffer.\<close>

definition informed :: "Sidecar \<Rightarrow> OpType \<Rightarrow> any_obj option \<Rightarrow> ClientSubscriptionEvent list" where
  "informed s opType obj =
     (case obj of
        Some (AnyEndpointSlice es) \<Rightarrow>
          if es_service es = sc_SubServiceName s \<and> \<not> sc_closed s
             \<and> length (ch_buf (sc_receiver s)) < channelCapacity
          then [\<lparr>ev_OpType = opType, ev_Endpoints = endpoint_map (es_Endpoints es)\<rparr>] else []
      | _ \<Rightarrow> [])"

lemma Informer_spec:
  assumes "sidecar_inv s" "payload_ok obj"
  shows "sidecar_Informer s op obj =
    Inr (s\<lparr>sc_receiver := (sc_receiver s)\<lparr>ch_buf := ch_buf (sc_receiver s) @ informed s op obj\<rparr>\<rparr>)
    \<and> sidecar_inv (s\<lparr>sc_receiver := (sc_receiver s)\<lparr>ch_buf := ch_buf (sc_receiver s) @ informed s op obj\<rparr>\<rparr>)"
proof (cases "\<exists>es. obj = Some (AnyEndpointSlice es)")
  case True
  then obtain es where "obj = Some (AnyEndpointSlice es)" by blast
  with assms show ?thesis
    by (simp add: sidecar_Informer_def informed_def payload_ok_def newEvent_ok chan_try_send_def sidecar_inv_def)
next
  case False
  with assms show ?thesis
    by (simp add: sidecar_Informer_def informed_def split: option.splits any_obj.splits)
qed

lemma Close_spec:
  assumes "sidecar_inv s"
  shows "\<exists>s'. sidecar_Close s = Inr s' \<and> sidecar_inv s' \<and> sc_closed s' \<and> sc_Name s' = sc_Name s
    \<and> sc_SubServiceName s' = sc_SubServiceName s \<and> ch_buf (sc_receiver s') = ch_buf (sc_receiver s)"
  using assms by (auto simp: sidecar_Close_def chan_close_def sidecar_inv_def)

end
