(* ===== verification/Grpc_Server.thy ===== *)
theory Grpc_Server
  imports Sidecar
begin

section \<open>The subscription server\<close>

text \<open>
  \<open>internal/ctrl/grpcserver/server.go\<close> and \<open>distributer.go\<close>. A call of \<open>Subscribe\<close> is a
  goroutine; the model keeps one entry per call, with its sidecar, the events sent on its
  stream and the place it has reached, and cuts the call into the steps that are atomic in
  the code: the first check and the initial slice; the check and insertion under the mutex;
  one round of the receive loop; the deferred removal under the mutex. \<open>Publish\<close> finds a
  sidecar under the mutex and informs it under the sidecar's own; the shutdown goroutine
  takes the mutex for its whole body. The map holds pointers: here the index of the call.
  The gauge \<open>metrics.SideCarsConnected\<close> is counted with the insertion and with the removal.
\<close>

datatype phase = Inserting | Streaming | Leaving "string option" | Returned "string option"

record subscription =
  sub_id :: string
  sub_sidecar :: Sidecar
  sub_phase :: phase
  sub_sent :: "ClientSubscriptionEvent list"

record GrpcServer =
  listFn :: "(string \<Rightarrow> EndpointSlice option) option"
  gs_sidecars :: "string \<rightharpoonup> nat"
  gs_ready :: bool
  gs_calls :: "subscription list"
  gs_connected :: int

definition NewGrpcServer :: GrpcServer where
  "NewGrpcServer = \<lparr>listFn = None, gs_sidecars = Map.empty, gs_ready = False, gs_calls = [], gs_connected = 0\<rparr>"

definition not_ready :: string where
  "not_ready = ''server not ready, please try again later''"

text \<open>A function value that is nil panics when it is called.\<close>

definition gs_Subscribe :: "GrpcServer \<Rightarrow> string \<Rightarrow> string \<Rightarrow> (GrpcServer \<times> string option) go" where
  "gs_Subscribe s sidecarId serviceName =
     (if \<not> gs_ready s then Inr (s, Some not_ready)
      else go_bind (case listFn s of None \<Rightarrow> Inl NilFunctionCall | Some f \<Rightarrow> Inr (f serviceName)) (\<lambda>listed.
           go_bind (case listed of
               Some es \<Rightarrow> sidecar_Informer (NewSidecar sidecarId serviceName) ADDED (Some (AnyEndpointSlice es))
             | None \<Rightarrow> Inr (NewSidecar sidecarId serviceName)) (\<lambda>sidecar.
           Inr (s\<lparr>gs_calls := gs_calls s @ [\<lparr>sub_id = sidecarId, sub_sidecar = sidecar,
                  sub_phase = Inserting, sub_sent = []\<rparr>]\<rparr>, None))))"

definition with_call :: "GrpcServer \<Rightarrow> nat \<Rightarrow> (subscription \<Rightarrow> GrpcServer go) \<Rightarrow> GrpcServer go" where
  "with_call s t f = (if t < length (gs_calls s) then f (gs_calls s ! t) else Inr s)"

definition set_call :: "GrpcServer \<Rightarrow> nat \<Rightarrow> subscription \<Rightarrow> GrpcServer" where
  "set_call s t c = s\<lparr>gs_calls := (gs_calls s)[t := c]\<rparr>"

definition gs_insert :: "GrpcServer \<Rightarrow> nat \<Rightarrow> GrpcServer go" where
  "gs_insert s t = with_call s t (\<lambda>c.
     if sub_phase c \<noteq> Inserting then Inr s
     else if \<not> gs_ready s then Inr (set_call s t (c\<lparr>sub_phase := Returned (Some not_ready)\<rparr>))
     else Inr (set_call (s\<lparr>gs_sidecars := (gs_sidecars s)(sub_id c \<mapsto> t), gs_connected := gs_connected s + 1\<rparr>) t
            (c\<lparr>sub_phase := Streaming\<rparr>)))"

text \<open>One round of \<open>for event := range receiver\<close>; the result of \<open>Send\<close> is an argument.\<close>

definition gs_loop :: "GrpcServer \<Rightarrow> nat \<Rightarrow> string option \<Rightarrow> GrpcServer go" where
  "gs_loop s t sendErr = with_call s t (\<lambda>c.
     if sub_phase c \<noteq> Streaming then Inr s
     else case chan_recv (sc_receiver (sub_sidecar c)) of
       (ch, Received event) \<Rightarrow>
         let c' = c\<lparr>sub_sidecar := (sub_sidecar c)\<lparr>sc_receiver := ch\<rparr>\<rparr> in
         Inr (set_call s t (case sendErr of
             Some err \<Rightarrow> c'\<lparr>sub_phase := Leaving (Some err)\<rparr>
           | None \<Rightarrow> c'\<lparr>sub_sent := sub_sent c' @ [event]\<rparr>))
     | (ch, Drained) \<Rightarrow> Inr (set_call s t (c\<lparr>sub_phase := Leaving None\<rparr>))
     | (ch, Blocked) \<Rightarrow> Inr s)"

definition gs_leave :: "GrpcServer \<Rightarrow> nat \<Rightarrow> GrpcServer go" where
  "gs_leave s t = with_call s t (\<lambda>c.
     case sub_phase c of
       Leaving err \<Rightarrow> Inr (set_call (s\<lparr>gs_sidecars := (gs_sidecars s)(sub_id c := None), gs_connected := gs_connected s - 1\<rparr>) t
                        (c\<lparr>sub_phase := Returned err\<rparr>))
     | _ \<Rightarrow> Inr s)"

text \<open>\<open>GetSidecar\<close> returns the first match in the iteration order of the map.\<close>

definition gs_GetSidecar :: "string list \<Rightarrow> GrpcServer \<Rightarrow> string \<Rightarrow> nat option" where
  "gs_GetSidecar order s svcName =
     (case find (\<lambda>k. case gs_sidecars s k of None \<Rightarrow> False
          | Some t \<Rightarrow> t < length (gs_calls s) \<and> sc_SubServiceName (sub_sidecar (gs_calls s ! t)) = svcName) order of
        None \<Rightarrow> None | Some k \<Rightarrow> gs_sidecars s k)"

definition gs_inform :: "GrpcServer \<Rightarrow> nat \<Rightarrow> OpType \<Rightarrow> any_obj option \<Rightarrow> GrpcServer go" where
  "gs_inform s t opType obj = with_call s t (\<lambda>c.
     go_bind (sidecar_Informer (sub_sidecar c) opType obj) (\<lambda>sc. Inr (set_call s t (c\<lparr>sub_sidecar := sc\<rparr>))))"

definition gs_Publish :: "string list \<Rightarrow> GrpcServer \<Rightarrow> string \<Rightarrow> OpType \<Rightarrow> any_obj option \<Rightarrow> GrpcServer go" where
  "gs_Publish order s svcName opType obj =
     (case gs_GetSidecar order s svcName of None \<Rightarrow> Inr s | Some t \<Rightarrow> gs_inform s t opType obj)"

definition gs_IsReady :: "GrpcServer \<Rightarrow> bool" where
  "gs_IsReady s \<longleftrightarrow> gs_ready s"

text \<open>
  The parts of \<open>ListenAndServe\<close>: marking the server ready after the listener is bound, the
  body of the shutdown goroutine (up to \<open>GracefulStop\<close>, which waits for the calls to
  return), and the deferred mark when \<open>Serve\<close> has returned.
\<close>

definition gs_serving :: "GrpcServer \<Rightarrow> GrpcServer" where
  "gs_serving s = s\<lparr>gs_ready := True\<rparr>"

definition gs_close :: "GrpcServer \<Rightarrow> nat \<Rightarrow> GrpcServer go" where
  "gs_close s t = with_call s t (\<lambda>c.
     go_bind (sidecar_Close (sub_sidecar c)) (\<lambda>sc. Inr (set_call s t (c\<lparr>sub_sidecar := sc\<rparr>))))"

definition gs_shutdown :: "string list \<Rightarrow> GrpcServer \<Rightarrow> GrpcServer go" where
  "gs_shutdown order s =
     go_fold gs_close (s\<lparr>gs_ready := False\<rparr>) (map the (filter (\<lambda>p. p \<noteq> None) (map (gs_sidecars s) order)))"

definition gs_stopped :: "GrpcServer \<Rightarrow> GrpcServer" where
  "gs_stopped s = s\<lparr>gs_ready := False\<rparr>"

subsection \<open>Steps\<close>

datatype grpc_op =
    GSubscribe string string
  | GInsert nat
  | GLoop nat "string option"
  | GLeave nat
  | GInform nat OpType "any_obj option"
  | GServing
  | GShutdown "string list"
  | GStopped

fun grpc_step :: "GrpcServer \<Rightarrow> grpc_op \<Rightarrow> (GrpcServer \<times> string option) go" where
  "grpc_step s (GSubscribe i svc) = gs_Subscribe s i svc"
| "grpc_step s (GInsert t) = go_bind (gs_insert s t) (\<lambda>s'. Inr (s', None))"
| "grpc_step s (GLoop t e) = go_bind (gs_loop s t e) (\<lambda>s'. Inr (s', None))"
| "grpc_step s (GLeave t) = go_bind (gs_leave s t) (\<lambda>s'. Inr (s', None))"
| "grpc_step s (GInform t op obj) = go_bind (gs_inform s t op obj) (\<lambda>s'. Inr (s', None))"
| "grpc_step s GServing = Inr (gs_serving s, None)"
| "grpc_step s (GShutdown order) = go_bind (gs_shutdown order s) (\<lambda>s'. Inr (s', None))"
| "grpc_step s GStopped = Inr (gs_stopped s, None)"

subsection \<open>Invariant\<close>

text \<open>
  Every sidecar is consistent, the sidecar of a call carries the call's id, and a map entry
  points to a call of that id that is streaming or about to leave. The initial slices the
  server can list are complete (every endpoint has a target).
\<close>

definition call_ok :: "subscription \<Rightarrow> bool" where
  "call_ok c \<longleftrightarrow> sidecar_inv (sub_sidecar c)"

definition live :: "subscription \<Rightarrow> bool" where
  "live c \<longleftrightarrow> (case sub_phase c of Streaming \<Rightarrow> True | Leaving e \<Rightarrow> True | _ \<Rightarrow> False)"

definition grpc_inv :: "GrpcServer \<Rightarrow> bool" where
  "grpc_inv s \<longleftrightarrow> (\<exists>f. listFn s = Some f \<and> (\<forall>svc es. f svc = Some es \<longrightarrow> targets_set es))
     \<and> (\<forall>c \<in> set (gs_calls s). call_ok c)
     \<and> (\<forall>k t. gs_sidecars s k = Some t \<longrightarrow>
          t < length (gs_calls s) \<and> sub_id (gs_calls s ! t) = k \<and> live (gs_calls s ! t))
     \<and> gs_connected s = int (length (filter live (gs_calls s)))"

definition op_ok :: "grpc_op \<Rightarrow> bool" where
  "op_ok e \<longleftrightarrow> (case e of GInform t op obj \<Rightarrow> payload_ok obj | _ \<Rightarrow> True)"

lemma grpc_invD:
  assumes "grpc_inv s"
  shows "\<exists>f. listFn s = Some f \<and> (\<forall>svc es. f svc = Some es \<longrightarrow> targets_set es)"
    "t < length (gs_calls s) \<Longrightarrow> sidecar_inv (sub_sidecar (gs_calls s ! t))"
    "gs_sidecars s k = Some t \<Longrightarrow> t < length (gs_calls s) \<and> sub_id (gs_calls s ! t) = k \<and> live (gs_calls s ! t)"
  using assms by (auto simp: grpc_inv_def call_ok_def)

text \<open>Replacing one call by one of the same id.\<close>

lemma grpc_inv_set:
  assumes inv: "grpc_inv s" and t: "t < length (gs_calls s)"
    and c: "sidecar_inv (sub_sidecar c)" "sub_id c = sub_id (gs_calls s ! t)"
    and live: "live (gs_calls s ! t) = live c"
  shows "grpc_inv (set_call s t c)"
  using inv t c live length_filter_update [OF t, of live c] unfolding grpc_inv_def set_call_def
  by (auto simp: call_ok_def nth_list_update dest!: set_update_subset_insert [THEN subsetD])

lemma insert_inv:
  assumes inv: "grpc_inv s"
  shows "\<exists>s'. gs_insert s t = Inr s' \<and> grpc_inv s'"
proof (cases "t < length (gs_calls s) \<and> sub_phase (gs_calls s ! t) = Inserting")
  case True
  let ?c = "gs_calls s ! t"
  from grpc_invD(2) [OF inv] True have sc: "sidecar_inv (sub_sidecar ?c)" by simp
  show ?thesis
  proof (cases "gs_ready s")
    case False
    from grpc_inv_set [OF inv, of t "?c\<lparr>sub_phase := Returned (Some not_ready)\<rparr>"] True sc False
    show ?thesis by (simp add: gs_insert_def with_call_def live_def)
  next
    case ready: True
    let ?s = "set_call (s\<lparr>gs_sidecars := (gs_sidecars s)(sub_id ?c \<mapsto> t), gs_connected := gs_connected s + 1\<rparr>) t
      (?c\<lparr>sub_phase := Streaming\<rparr>)"
    have "grpc_inv ?s"
      using inv True sc length_filter_update [of t "gs_calls s" live "?c\<lparr>sub_phase := Streaming\<rparr>"] unfolding grpc_inv_def set_call_def
      by (auto simp: call_ok_def live_def nth_list_update dest!: set_update_subset_insert [THEN subsetD])
    with True ready show ?thesis by (simp add: gs_insert_def with_call_def)
  qed
next
  case False
  with inv show ?thesis by (auto simp: gs_insert_def with_call_def)
qed

lemma recv_inv:
  "sidecar_inv sc \<Longrightarrow> chan_recv (sc_receiver sc) = (ch, r) \<Longrightarrow> sidecar_inv (sc\<lparr>sc_receiver := ch\<rparr>)"
  by (auto simp: sidecar_inv_def chan_recv_def split: list.splits)

lemma loop_inv:
  assumes inv: "grpc_inv s"
  shows "\<exists>s'. gs_loop s t e = Inr s' \<and> grpc_inv s'"
proof (cases "t < length (gs_calls s) \<and> sub_phase (gs_calls s ! t) = Streaming")
  case True
  let ?c = "gs_calls s ! t"
  from grpc_invD(2) [OF inv] True have sc: "sidecar_inv (sub_sidecar ?c)" by simp
  obtain ch r where r: "chan_recv (sc_receiver (sub_sidecar ?c)) = (ch, r)" by force
  note sc' = recv_inv [OF sc r]
  show ?thesis
  proof (cases r)
    case (Received event)
    let ?c' = "?c\<lparr>sub_sidecar := (sub_sidecar ?c)\<lparr>sc_receiver := ch\<rparr>\<rparr>"
    have "grpc_inv (set_call s t (?c'\<lparr>sub_phase := Leaving (Some err)\<rparr>))" for err
      by (rule grpc_inv_set [OF inv]) (use True sc' in \<open>simp_all add: live_def\<close>)
    moreover have "grpc_inv (set_call s t (?c'\<lparr>sub_sent := sub_sent ?c @ [event]\<rparr>))"
      by (rule grpc_inv_set [OF inv]) (use True sc' in \<open>simp_all add: live_def\<close>)
    ultimately show ?thesis using True r Received
      by (cases e) (simp_all add: gs_loop_def with_call_def Let_def)
  next
    case Drained
    have "grpc_inv (set_call s t (?c\<lparr>sub_phase := Leaving None\<rparr>))"
      by (rule grpc_inv_set [OF inv]) (use True sc in \<open>simp_all add: live_def\<close>)
    with True r Drained show ?thesis by (simp add: gs_loop_def with_call_def)
  next
    case Blocked
    with True r inv show ?thesis by (simp add: gs_loop_def with_call_def)
  qed
next
  case False
  with inv show ?thesis by (auto simp: gs_loop_def with_call_def)
qed

lemma leave_inv:
  assumes inv: "grpc_inv s"
  shows "\<exists>s'. gs_leave s t = Inr s' \<and> grpc_inv s'"
proof (cases "t < length (gs_calls s) \<and> (\<exists>err. sub_phase (gs_calls s ! t) = Leaving err)")
  case True
  let ?c = "gs_calls s ! t"
  from True obtain err where err: "sub_phase ?c = Leaving err" by blast
  let ?s = "set_call (s\<lparr>gs_sidecars := (gs_sidecars s)(sub_id ?c := None), gs_connected := gs_connected s - 1\<rparr>) t
    (?c\<lparr>sub_phase := Returned err\<rparr>)"
  from grpc_invD(2) [OF inv] True have sc: "sidecar_inv (sub_sidecar ?c)" by simp
  have "grpc_inv ?s"
    using inv True sc err length_filter_update [of t "gs_calls s" live "?c\<lparr>sub_phase := Returned err\<rparr>"]
    unfolding grpc_inv_def set_call_def
    by (auto simp: call_ok_def live_def nth_list_update dest!: set_update_subset_insert [THEN subsetD] split: if_splits)
  with True err show ?thesis by (simp add: gs_leave_def with_call_def)
next
  case False
  with inv show ?thesis by (auto simp: gs_leave_def with_call_def split: phase.splits)
qed

lemma inform_inv:
  assumes inv: "grpc_inv s" and ok: "payload_ok obj"
  shows "\<exists>s'. gs_inform s t op obj = Inr s' \<and> grpc_inv s'"
proof (cases "t < length (gs_calls s)")
  case True
  let ?c = "gs_calls s ! t"
  from Informer_spec [OF grpc_invD(2) [OF inv True] ok, of op] obtain sc where
    sc: "sidecar_Informer (sub_sidecar ?c) op obj = Inr sc" "sidecar_inv sc" by blast
  have "grpc_inv (set_call s t (?c\<lparr>sub_sidecar := sc\<rparr>))"
    by (rule grpc_inv_set [OF inv True]) (use sc in \<open>simp_all add: live_def\<close>)
  with True sc show ?thesis by (simp add: gs_inform_def with_call_def)
qed (use inv in \<open>simp add: gs_inform_def with_call_def\<close>)

lemma close_inv:
  assumes inv: "grpc_inv s"
  shows "\<exists>s'. gs_close s t = Inr s' \<and> grpc_inv s' \<and> gs_sidecars s' = gs_sidecars s \<and> gs_ready s' = gs_ready s
    \<and> length (gs_calls s') = length (gs_calls s)
    \<and> (\<forall>u < length (gs_calls s). sub_phase (gs_calls s' ! u) = sub_phase (gs_calls s ! u)
        \<and> sub_id (gs_calls s' ! u) = sub_id (gs_calls s ! u)
        \<and> (sc_closed (sub_sidecar (gs_calls s ! u)) \<or> u = t \<longrightarrow> sc_closed (sub_sidecar (gs_calls s' ! u)))
        \<and> sc_SubServiceName (sub_sidecar (gs_calls s' ! u)) = sc_SubServiceName (sub_sidecar (gs_calls s ! u)))"
proof (cases "t < length (gs_calls s)")
  case True
  let ?c = "gs_calls s ! t"
  from Close_spec [OF grpc_invD(2) [OF inv True]] obtain sc where
    sc: "sidecar_Close (sub_sidecar ?c) = Inr sc" "sidecar_inv sc" "sc_closed sc"
      "sc_SubServiceName sc = sc_SubServiceName (sub_sidecar ?c)" by blast
  have "grpc_inv (set_call s t (?c\<lparr>sub_sidecar := sc\<rparr>))"
    by (rule grpc_inv_set [OF inv True]) (use sc in \<open>simp_all add: live_def\<close>)
  with True sc show ?thesis
    by (auto simp: gs_close_def with_call_def set_call_def nth_list_update)
qed (use inv in \<open>simp add: gs_close_def with_call_def\<close>)

lemma close_all:
  "grpc_inv s \<Longrightarrow> \<exists>s'. go_fold gs_close s ts = Inr s' \<and> grpc_inv s' \<and> gs_sidecars s' = gs_sidecars s
    \<and> gs_ready s' = gs_ready s \<and> length (gs_calls s') = length (gs_calls s)
    \<and> (\<forall>u < length (gs_calls s). sub_phase (gs_calls s' ! u) = sub_phase (gs_calls s ! u)
        \<and> sub_id (gs_calls s' ! u) = sub_id (gs_calls s ! u)
        \<and> (sc_closed (sub_sidecar (gs_calls s ! u)) \<or> u \<in> set ts \<longrightarrow> sc_closed (sub_sidecar (gs_calls s' ! u)))
        \<and> sc_SubServiceName (sub_sidecar (gs_calls s' ! u)) = sc_SubServiceName (sub_sidecar (gs_calls s ! u)))"
proof (induction ts arbitrary: s)
  case (Cons t ts)
  from close_inv [OF Cons.prems, of t] obtain s1 where
    s1: "gs_close s t = Inr s1" "grpc_inv s1" "gs_sidecars s1 = gs_sidecars s" "gs_ready s1 = gs_ready s"
      "length (gs_calls s1) = length (gs_calls s)"
      "\<forall>u < length (gs_calls s). sub_phase (gs_calls s1 ! u) = sub_phase (gs_calls s ! u)
        \<and> sub_id (gs_calls s1 ! u) = sub_id (gs_calls s ! u)
        \<and> (sc_closed (sub_sidecar (gs_calls s ! u)) \<or> u = t \<longrightarrow> sc_closed (sub_sidecar (gs_calls s1 ! u)))
        \<and> sc_SubServiceName (sub_sidecar (gs_calls s1 ! u)) = sc_SubServiceName (sub_sidecar (gs_calls s ! u))" by blast
  from Cons.IH [OF s1(2)] obtain s2 where
    s2: "go_fold gs_close s1 ts = Inr s2" "grpc_inv s2" "gs_sidecars s2 = gs_sidecars s1" "gs_ready s2 = gs_ready s1"
      "length (gs_calls s2) = length (gs_calls s1)"
      "\<forall>u < length (gs_calls s1). sub_phase (gs_calls s2 ! u) = sub_phase (gs_calls s1 ! u)
        \<and> sub_id (gs_calls s2 ! u) = sub_id (gs_calls s1 ! u)
        \<and> (sc_closed (sub_sidecar (gs_calls s1 ! u)) \<or> u \<in> set ts \<longrightarrow> sc_closed (sub_sidecar (gs_calls s2 ! u)))
        \<and> sc_SubServiceName (sub_sidecar (gs_calls s2 ! u)) = sc_SubServiceName (sub_sidecar (gs_calls s1 ! u))" by blast
  have "go_fold gs_close s (t # ts) = Inr s2" using s1(1) s2(1) by simp
  with s1(3-6) s2(2-6) show ?case by auto
qed simp

lemma grpc_inv_ready: "grpc_inv (s\<lparr>gs_ready := b\<rparr>) = grpc_inv s"
  by (simp add: grpc_inv_def)

lemma shutdown_inv:
  assumes inv: "grpc_inv s"
  shows "\<exists>s'. gs_shutdown order s = Inr s' \<and> grpc_inv s' \<and> \<not> gs_ready s' \<and> gs_sidecars s' = gs_sidecars s
    \<and> length (gs_calls s') = length (gs_calls s)
    \<and> (\<forall>u < length (gs_calls s). sub_phase (gs_calls s' ! u) = sub_phase (gs_calls s ! u)
        \<and> sub_id (gs_calls s' ! u) = sub_id (gs_calls s ! u)
        \<and> ((\<exists>k \<in> set order. gs_sidecars s k = Some u) \<longrightarrow> sc_closed (sub_sidecar (gs_calls s' ! u))))"
proof -
  have "grpc_inv (s\<lparr>gs_ready := False\<rparr>)" using inv by (simp add: grpc_inv_ready)
  from close_all [OF this, of "map the (filter (\<lambda>p. p \<noteq> None) (map (gs_sidecars s) order))"]
  show ?thesis unfolding gs_shutdown_def by (force simp: image_iff)
qed

lemma subscribe_inv:
  assumes inv: "grpc_inv s"
  shows "\<exists>s' x. gs_Subscribe s i svc = Inr (s', x) \<and> grpc_inv s'"
proof (cases "gs_ready s")
  case True
  from grpc_invD(1) [OF inv] obtain f where f: "listFn s = Some f" "\<forall>svc es. f svc = Some es \<longrightarrow> targets_set es" by blast
  have add: "grpc_inv (s\<lparr>gs_calls := gs_calls s @ [\<lparr>sub_id = i, sub_sidecar = sc, sub_phase = Inserting, sub_sent = []\<rparr>]\<rparr>)"
    if "sidecar_inv sc" for sc
    using inv that unfolding grpc_inv_def by (auto simp: call_ok_def nth_append live_def intro: less_SucI)
  show ?thesis
  proof (cases "f svc")
    case None
    with True f add [OF NewSidecar_inv] show ?thesis by (simp add: gs_Subscribe_def)
  next
    case (Some es)
    with f have "payload_ok (Some (AnyEndpointSlice es))" by (simp add: payload_ok_def)
    from Informer_spec [OF NewSidecar_inv this, of i svc ADDED] obtain sc where
      "sidecar_Informer (NewSidecar i svc) ADDED (Some (AnyEndpointSlice es)) = Inr sc" "sidecar_inv sc" by blast
    with True f Some add [of sc] show ?thesis by (simp add: gs_Subscribe_def)
  qed
qed (use inv in \<open>simp add: gs_Subscribe_def\<close>)

interpretation grpc: go_machine grpc_step grpc_inv op_ok
proof unfold_locales
  fix s e
  assume inv: "grpc_inv s" and ok: "op_ok e"
  show "\<exists>s' x. grpc_step s e = Inr (s', x) \<and> grpc_inv s'"
  proof (cases e)
    case (GInform t op obj)
    with ok inform_inv [OF inv, of obj t op] show ?thesis by (auto simp: op_ok_def)
  next
    case (GSubscribe i svc)
    with subscribe_inv [OF inv, of i svc] show ?thesis by simp
  next
    case (GInsert t)
    with insert_inv [OF inv, of t] show ?thesis by auto
  next
    case (GLoop t err)
    with loop_inv [OF inv, of t err] show ?thesis by auto
  next
    case (GLeave t)
    with leave_inv [OF inv, of t] show ?thesis by auto
  next
    case (GShutdown order)
    with shutdown_inv [OF inv, of order] show ?thesis by auto
  qed (use inv in \<open>simp_all add: gs_serving_def gs_stopped_def grpc_inv_ready\<close>)
qed

text \<open>The gauge counts the calls between insertion and return, among them one for each map entry.\<close>

lemma entries_le_connected:
  assumes inv: "grpc_inv s"
  shows "int (card (dom (gs_sidecars s))) \<le> gs_connected s"
proof -
  let ?L = "{t. t < length (gs_calls s) \<and> live (gs_calls s ! t)}"
  note entry = grpc_invD(3) [OF inv]
  have "inj_on (\<lambda>k. the (gs_sidecars s k)) (dom (gs_sidecars s))"
    using entry by (intro inj_onI) (auto, metis)
  moreover have "(\<lambda>k. the (gs_sidecars s k)) ` dom (gs_sidecars s) \<subseteq> ?L" using entry by auto
  ultimately have "card (dom (gs_sidecars s)) \<le> card ?L" by (rule card_inj_on_le) simp
  with inv show ?thesis by (simp add: grpc_inv_def length_filter_conv_card)
qed

end
