(* ===== verification/Slice_Reconciler.thy ===== *)
theory Slice_Reconciler
  imports Resource_Caches Grpc_Server
begin

section \<open>From the informer to the subscribers\<close>

text \<open>
  \<open>internal/ctrl/reconciler/endpointslice_reconciler.go\<close>: the informer's callbacks for
  endpoint slices update a cache (\<open>cache.Cache\<close>) and publish the merged slices of the service
  through a distributer (\<open>distributer.Distributer\<close>). Both are interfaces: the callbacks take
  the operations they call as arguments, the state is the pair of the two states. The two
  arguments \<open>x\<close> and \<open>y\<close> are the iteration orders the two lookups use.
\<close>

definition esr_OnAdded ::
  "('c \<Rightarrow> any_obj \<Rightarrow> ('c \<times> bool \<times> string) go) \<Rightarrow> ('c \<Rightarrow> string \<Rightarrow> any_obj option)
   \<Rightarrow> ('d \<Rightarrow> string \<Rightarrow> OpType \<Rightarrow> any_obj option \<Rightarrow> 'd go) \<Rightarrow> 'c \<times> 'd \<Rightarrow> any_obj \<Rightarrow> ('c \<times> 'd) go" where
  "esr_OnAdded onAdded getCache publish r obj =
     go_bind (onAdded (fst r) obj) (\<lambda>(c, changed, svcName).
       if changed
       then (case getCache c svcName of
               Some mergedEs \<Rightarrow> go_bind (publish (snd r) svcName ADDED (Some mergedEs)) (\<lambda>d. Inr (c, d))
             | None \<Rightarrow> Inr (c, snd r))
       else Inr (c, snd r))"

definition esr_OnUpdated ::
  "('c \<Rightarrow> any_obj \<Rightarrow> any_obj \<Rightarrow> ('c \<times> bool \<times> string) go) \<Rightarrow> ('c \<Rightarrow> string \<Rightarrow> any_obj option)
   \<Rightarrow> ('d \<Rightarrow> string \<Rightarrow> OpType \<Rightarrow> any_obj option \<Rightarrow> 'd go) \<Rightarrow> 'c \<times> 'd \<Rightarrow> any_obj \<Rightarrow> any_obj \<Rightarrow> ('c \<times> 'd) go" where
  "esr_OnUpdated onUpdate getCache publish r oldObj newObj =
     go_bind (onUpdate (fst r) oldObj newObj) (\<lambda>(c, changed, svcName).
       if changed
       then (case getCache c svcName of
               Some mergedEs \<Rightarrow> go_bind (publish (snd r) svcName MODIFIED (Some mergedEs)) (\<lambda>d. Inr (c, d))
             | None \<Rightarrow> Inr (c, snd r))
       else Inr (c, snd r))"

text \<open>After the last slice the looked-up value is nil, and it is nil that is published.\<close>

definition esr_OnDeleted ::
  "('c \<Rightarrow> any_obj \<Rightarrow> ('c \<times> bool \<times> string \<times> bool) go) \<Rightarrow> ('c \<Rightarrow> string \<Rightarrow> any_obj option)
   \<Rightarrow> ('d \<Rightarrow> string \<Rightarrow> OpType \<Rightarrow> any_obj option \<Rightarrow> 'd go) \<Rightarrow> 'c \<times> 'd \<Rightarrow> any_obj \<Rightarrow> ('c \<times> 'd) go" where
  "esr_OnDeleted onDelete getCache publish r obj =
     go_bind (onDelete (fst r) obj) (\<lambda>(c, changed, svcName, deleteAll).
       if changed
       then (let mergedEs = getCache c svcName in
             if deleteAll then go_bind (publish (snd r) svcName DELETED mergedEs) (\<lambda>d. Inr (c, d))
             else case mergedEs of
               Some es \<Rightarrow> go_bind (publish (snd r) svcName MODIFIED (Some es)) (\<lambda>d. Inr (c, d))
             | None \<Rightarrow> Inr (c, snd r))
       else Inr (c, snd r))"

subsection \<open>The distributer's contract\<close>

text \<open>
  Publishing a well-formed payload returns, and what a subscriber has been handed (sent and
  still buffered) changes only for subscribers of the published service.
\<close>

locale distributer =
  fixes publish :: "'y \<Rightarrow> 'd \<Rightarrow> string \<Rightarrow> OpType \<Rightarrow> any_obj option \<Rightarrow> 'd go"
    and dinv :: "'d \<Rightarrow> bool"
    and handed :: "'d \<Rightarrow> nat \<Rightarrow> ClientSubscriptionEvent list"
    and serves :: "'d \<Rightarrow> nat \<Rightarrow> string"
  assumes publish_total: "dinv d \<Longrightarrow> payload_ok obj \<Longrightarrow> \<exists>d'. publish y d svc op obj = Inr d' \<and> dinv d'"
    and publish_frame: "publish y d svc op obj = Inr d' \<Longrightarrow> serves d t \<noteq> svc \<Longrightarrow> handed d' t = handed d t"
    and publish_grows: "dinv d \<Longrightarrow> payload_ok obj \<Longrightarrow> publish y d svc op obj = Inr d' \<Longrightarrow>
      \<exists>new. handed d' t = handed d t @ new"
    and publish_serves: "publish y d svc op obj = Inr d' \<Longrightarrow> serves d' t = serves d t"

text \<open>The reconciler between a cache and a distributer.\<close>

locale slice_pipeline = resource_cache onAdded onUpdate onDelete getCache inv + distributer publish dinv handed serves
  for onAdded :: "'c \<Rightarrow> any_obj \<Rightarrow> ('c \<times> bool \<times> string) go"
    and onUpdate :: "'c \<Rightarrow> any_obj \<Rightarrow> any_obj \<Rightarrow> ('c \<times> bool \<times> string) go"
    and onDelete :: "'c \<Rightarrow> any_obj \<Rightarrow> ('c \<times> bool \<times> string \<times> bool) go"
    and getCache :: "'x \<Rightarrow> 'c \<Rightarrow> string \<Rightarrow> any_obj option"
    and inv :: "'c \<Rightarrow> bool"
    and publish :: "'y \<Rightarrow> 'd \<Rightarrow> string \<Rightarrow> OpType \<Rightarrow> any_obj option \<Rightarrow> 'd go"
    and dinv :: "'d \<Rightarrow> bool"
    and handed :: "'d \<Rightarrow> nat \<Rightarrow> ClientSubscriptionEvent list"
    and serves :: "'d \<Rightarrow> nat \<Rightarrow> string"
begin

lemma on_added:
  assumes "inv c" "dinv d" and ok: "\<And>c' n. onAdded c obj = Inr (c', True, n) \<Longrightarrow> payload_ok (getCache x c' n)"
  shows "\<exists>c' d'. esr_OnAdded onAdded (getCache x) (publish y) (c, d) obj = Inr (c', d') \<and> inv c' \<and> dinv d'
    \<and> ((c' = c \<and> d' = d) \<or>
       (\<exists>n. onAdded c obj = Inr (c', True, n) \<and> publish y d n ADDED (getCache x c' n) = Inr d' \<and> getCache x c' n \<noteq> None
          \<and> (\<forall>m. m \<noteq> n \<longrightarrow> getCache x c' m = getCache x c m) \<and> (\<forall>t. serves d t \<noteq> n \<longrightarrow> handed d' t = handed d t)))"
proof -
  from added_total [OF assms(1), of obj] obtain c' b n where c': "onAdded c obj = Inr (c', b, n)" "inv c'" by blast
  show ?thesis
  proof (cases b)
    case False
    with c' added_same [of c obj c' n] assms show ?thesis by (auto simp: esr_OnAdded_def)
  next
    case True
    with c' added_present [of c obj c' n x] obtain v where v: "getCache x c' n = Some v" by auto
    have ev: "onAdded c obj = Inr (c', True, n)" using c'(1) True by simp
    from publish_total [OF assms(2) ok [OF ev], of y n ADDED] obtain d' where
      d': "publish y d n ADDED (getCache x c' n) = Inr d'" "dinv d'" by auto
    have run: "esr_OnAdded onAdded (getCache x) (publish y) (c, d) obj = Inr (c', d')"
      using c' True v d' by (simp add: esr_OnAdded_def)
    have rest: "onAdded c obj = Inr (c', True, n)" "getCache x c' n \<noteq> None"
      "\<forall>m. m \<noteq> n \<longrightarrow> getCache x c' m = getCache x c m"
      "\<forall>t. serves d t \<noteq> n \<longrightarrow> handed d' t = handed d t"
      using c' True v added_frame [of c obj c' n _ x] publish_frame [OF d'(1)] by simp_all
    show ?thesis
      by (rule exI [of _ c'], rule exI [of _ d']) (use run rest d' c' in blast)
  qed
qed

lemma on_updated:
  assumes "inv c" "dinv d" and ok: "\<And>c' n. onUpdate c old new = Inr (c', True, n) \<Longrightarrow> payload_ok (getCache x c' n)"
  shows "\<exists>c' d'. esr_OnUpdated onUpdate (getCache x) (publish y) (c, d) old new = Inr (c', d') \<and> inv c' \<and> dinv d'
    \<and> ((c' = c \<and> d' = d) \<or>
       (\<exists>n. onUpdate c old new = Inr (c', True, n) \<and> publish y d n MODIFIED (getCache x c' n) = Inr d' \<and> getCache x c' n \<noteq> None
          \<and> (\<forall>m. m \<noteq> n \<longrightarrow> getCache x c' m = getCache x c m) \<and> (\<forall>t. serves d t \<noteq> n \<longrightarrow> handed d' t = handed d t)))"
proof -
  from update_total [OF assms(1), of old new] obtain c' b n where c': "onUpdate c old new = Inr (c', b, n)" "inv c'" by blast
  show ?thesis
  proof (cases b)
    case False
    with c' update_same [of c old new c' n] assms show ?thesis by (auto simp: esr_OnUpdated_def)
  next
    case True
    with c' update_present [of c old new c' n x] obtain v where v: "getCache x c' n = Some v" by auto
    have ev: "onUpdate c old new = Inr (c', True, n)" using c'(1) True by simp
    from publish_total [OF assms(2) ok [OF ev], of y n MODIFIED] obtain d' where
      d': "publish y d n MODIFIED (getCache x c' n) = Inr d'" "dinv d'" by auto
    have run: "esr_OnUpdated onUpdate (getCache x) (publish y) (c, d) old new = Inr (c', d')"
      using c' True v d' by (simp add: esr_OnUpdated_def)
    have rest: "onUpdate c old new = Inr (c', True, n)" "getCache x c' n \<noteq> None"
      "\<forall>m. m \<noteq> n \<longrightarrow> getCache x c' m = getCache x c m"
      "\<forall>t. serves d t \<noteq> n \<longrightarrow> handed d' t = handed d t"
      using c' True v update_frame [of c old new c' n _ x] publish_frame [OF d'(1)] by simp_all
    show ?thesis
      by (rule exI [of _ c'], rule exI [of _ d']) (use run rest d' c' in blast)
  qed
qed

end

subsection \<open>The server as distributer\<close>

definition handed_events :: "GrpcServer \<Rightarrow> nat \<Rightarrow> ClientSubscriptionEvent list" where
  "handed_events s t = (if t < length (gs_calls s)
     then sub_sent (gs_calls s ! t) @ ch_buf (sc_receiver (sub_sidecar (gs_calls s ! t))) else [])"

definition served_service :: "GrpcServer \<Rightarrow> nat \<Rightarrow> string" where
  "served_service s t = (if t < length (gs_calls s) then sc_SubServiceName (sub_sidecar (gs_calls s ! t)) else '''')"

lemma GetSidecar_some:
  "gs_GetSidecar order s svc = Some t \<Longrightarrow> t < length (gs_calls s) \<and> served_service s t = svc
     \<and> (\<exists>k \<in> set order. gs_sidecars s k = Some t)"
  by (auto simp: gs_GetSidecar_def served_service_def find_Some_iff split: option.splits)

lemma Informer_frame:
  "sidecar_Informer sc op obj = Inr sc' \<Longrightarrow> sc_SubServiceName sc' = sc_SubServiceName sc"
  by (auto simp: sidecar_Informer_def go_bind_Inr_iff split: option.splits any_obj.splits if_splits)

lemma inform_frame:
  assumes "gs_inform s t op obj = Inr s'"
  shows "served_service s' u = served_service s u" "u \<noteq> t \<Longrightarrow> handed_events s' u = handed_events s u"
    "gs_sidecars s' = gs_sidecars s"
  using assms Informer_frame
  by (auto simp: gs_inform_def with_call_def set_call_def go_bind_Inr_iff served_service_def handed_events_def
      nth_list_update split: if_splits)

lemma inform_grows:
  assumes inv: "grpc_inv s" and ok: "payload_ok obj" and r: "gs_inform s t op obj = Inr s'"
  shows "\<exists>new. handed_events s' u = handed_events s u @ new"
proof (cases "t < length (gs_calls s) \<and> u = t")
  case True
  from Informer_spec [OF grpc_invD(2) [OF inv] ok, of t op] True r show ?thesis
    by (auto simp: gs_inform_def with_call_def set_call_def handed_events_def)
next
  case False
  with r inform_frame(2) [OF r, of u] show ?thesis
    by (auto simp: gs_inform_def with_call_def split: if_splits)
qed

interpretation gd: distributer gs_Publish grpc_inv handed_events served_service
proof unfold_locales
  fix y d svc op obj d' t
  show "grpc_inv d \<Longrightarrow> payload_ok obj \<Longrightarrow> \<exists>d'. gs_Publish y d svc op obj = Inr d' \<and> grpc_inv d'"
    using inform_inv [of d obj _ op] by (auto simp: gs_Publish_def split: option.splits)
  show "gs_Publish y d svc op obj = Inr d' \<Longrightarrow> served_service d t \<noteq> svc \<Longrightarrow> handed_events d' t = handed_events d t"
    using inform_frame(2) [of d _ op obj d' t] GetSidecar_some [of y d svc]
    by (auto simp: gs_Publish_def split: option.splits)
  show "grpc_inv d \<Longrightarrow> payload_ok obj \<Longrightarrow> gs_Publish y d svc op obj = Inr d' \<Longrightarrow>
      \<exists>new. handed_events d' t = handed_events d t @ new"
    using inform_grows [of d obj _ op d' t] by (auto simp: gs_Publish_def split: option.splits)
  show "gs_Publish y d svc op obj = Inr d' \<Longrightarrow> served_service d' t = served_service d t"
    using inform_frame(1) [of d _ op obj d' t] by (auto simp: gs_Publish_def split: option.splits)
qed

interpretation pipeline: slice_pipeline epc_OnAdded epc_OnUpdate epc_OnDelete epc_GetCache epc_inv
  gs_Publish grpc_inv handed_events served_service
  by unfold_locales

text \<open>The older container cache fits the same pipeline; its payloads reach no subscriber.\<close>

interpretation ctn_pipeline: slice_pipeline "ctn_OnAdded fu" "ctn_OnUpdate fu" "ctn_OnDelete fu" ctn_GetCache "\<lambda>_. True"
  gs_Publish grpc_inv handed_events served_service for fu
  by unfold_locales

subsection \<open>The slices of a service\<close>

text \<open>The endpoints a cache entry merges to, when every slice of it is complete.\<close>

definition slices_complete :: "EndpointSliceCache \<Rightarrow> bool" where
  "slices_complete c \<longleftrightarrow> (\<forall>svc d n es. c svc = Some d \<longrightarrow> epsNameToEps d n = Some es \<longrightarrow> targets_set es)"

lemma merged_complete:
  "slices_complete c \<Longrightarrow> payload_ok (epc_GetCache ks c svc)"
  by (fastforce simp: payload_ok_def epc_GetCache_def d_GetMerged_def targets_set_def list_all_iff slices_complete_def
      split: option.splits dest: sym)

lemma complete_added:
  assumes c: "slices_complete c" and r: "epc_OnAdded c obj = Inr (c', b, n)"
    and obj: "\<And>es. obj = AnyEndpointSlice es \<Longrightarrow> targets_set es"
  shows "slices_complete c'"
proof (cases "\<exists>es. obj = AnyEndpointSlice es")
  case True
  then obtain es where e: "obj = AnyEndpointSlice es" by blast
  define d where "d = (case c (es_service es) of None \<Rightarrow> NewD_EndpointSlice (es_service es) | Some d \<Rightarrow> d)"
  have d: "\<forall>n e. epsNameToEps d n = Some e \<longrightarrow> targets_set e"
    using c by (auto simp: d_def slices_complete_def NewD_EndpointSlice_def split: option.splits)
  from r have "c' = c(es_service es \<mapsto> d_OnAdded d es)" unfolding e epc_added d_def by blast
  moreover have "\<forall>n e. epsNameToEps (d_OnAdded d es) n = Some e \<longrightarrow> targets_set e"
    using d obj [OF e] by (auto simp: d_OnAdded_def split: if_splits)
  ultimately show ?thesis using c by (auto simp: slices_complete_def)
next
  case False
  with r c epc_OnAdded_other [OF False, of c] show ?thesis by simp
qed

text \<open>An added slice is found again: its endpoints are among the merged ones of its service.\<close>

lemma added_merged:
  assumes inv: "epc_inv c" and r: "epc_OnAdded c (AnyEndpointSlice es) = Inr (c', b, n)"
    and ks: "\<And>d. c' (es_service es) = Some d \<Longrightarrow> enumerates ks (epsNameToEps d)"
  shows "\<exists>m. epc_GetCache ks c' (es_service es) = Some (AnyEndpointSlice m) \<and> es_service m = es_service es
    \<and> set (es_Endpoints es) \<subseteq> set (es_Endpoints m)"
proof -
  define d where "d = (case c (es_service es) of None \<Rightarrow> NewD_EndpointSlice (es_service es) | Some d \<Rightarrow> d)"
  from epc_entry [OF inv d_def] have name: "d_serviceName d = es_service es" by simp
  from r have c': "c' (es_service es) = Some (d_OnAdded d es)" unfolding epc_added d_def by auto
  from name have up: "epsNameToEps (d_OnAdded d es) (es_Name es) = Some es" "d_serviceName (d_OnAdded d es) = es_service es"
    by (simp_all add: d_OnAdded_def)
  with ks [OF c'] have "es_Name es \<in> set ks" by (auto simp: enumerates_def)
  with up have "set (es_Endpoints es) \<subseteq> set (es_Endpoints (d_GetMerged ks (d_OnAdded d es)))"
    by (force simp: d_GetMerged_def)
  moreover have "es_service (d_GetMerged ks (d_OnAdded d es)) = es_service es"
    using up by (simp add: d_GetMerged_def es_service_def label_of_def)
  ultimately show ?thesis using c' by (simp add: epc_GetCache_def)
qed

end
