(* ===== verification/Rpc_Client.thy ===== *)
theory Rpc_Client
  imports Sidecar
begin

section \<open>The sidecar's view of the services\<close>

text \<open>
  \<open>internal/cli/rpcclient/cache.go\<close> and \<open>client.go\<close>. The client keeps, per service, the last
  event it received; a goroutine per subscription reads the stream and applies each event.
  Every method of the cache holds its lock for the whole body. The stream and its errors are
  the gRPC library's: \<open>Subscribe\<close> takes what the library returned, the loop the list of
  results of \<open>Recv\<close>.
\<close>

type_synonym Endpoints = ClientSubscriptionEvent

type_synonym ServiceCache = "string \<rightharpoonup> Endpoints"

definition NewServiceCache :: ServiceCache where
  "NewServiceCache = Map.empty"

definition NewEndpoints :: "ClientSubscriptionEvent \<Rightarrow> Endpoints" where
  "NewEndpoints event = event"

definition eps_GetIps :: "Endpoints \<Rightarrow> string \<rightharpoonup> string list" where
  "eps_GetIps e = ev_Endpoints e"

definition eps_GetIpsByName :: "Endpoints \<Rightarrow> string \<Rightarrow> string list" where
  "eps_GetIpsByName e epsName = (case ev_Endpoints e epsName of None \<Rightarrow> [] | Some ips \<Rightarrow> ips)"

definition sc_onDelete :: "ServiceCache \<Rightarrow> string \<Rightarrow> ServiceCache" where
  "sc_onDelete s serviceName = s(serviceName := None)"

definition sc_onUpdate :: "ServiceCache \<Rightarrow> string \<Rightarrow> Endpoints list \<Rightarrow> ServiceCache" where
  "sc_onUpdate s serviceName eps = (if 0 < length eps then s(serviceName \<mapsto> last eps) else s)"

definition sc_onAdd :: "ServiceCache \<Rightarrow> string \<Rightarrow> Endpoints \<Rightarrow> ServiceCache" where
  "sc_onAdd s serviceName eps = s(serviceName \<mapsto> eps)"

definition sc_GetEndpoints :: "ServiceCache \<Rightarrow> string \<Rightarrow> Endpoints option" where
  "sc_GetEndpoints s serviceName = s serviceName"

definition sc_GetServiceIps :: "ServiceCache \<Rightarrow> string \<Rightarrow> string \<rightharpoonup> string list" where
  "sc_GetServiceIps s serviceName = (case s serviceName of None \<Rightarrow> Map.empty | Some eps \<Rightarrow> eps_GetIps eps)"

text \<open>A nil map is \<open>None\<close>.\<close>

definition client_GetServiceIps :: "ServiceCache \<Rightarrow> string \<Rightarrow> (string \<rightharpoonup> string list) option" where
  "client_GetServiceIps s serviceName =
     (case sc_GetEndpoints s serviceName of None \<Rightarrow> None | Some eps \<Rightarrow> Some (eps_GetIps eps))"

definition client_Unsubscribe :: "ServiceCache \<Rightarrow> string \<Rightarrow> ServiceCache \<times> string option" where
  "client_Unsubscribe s serviceName = (sc_onDelete s serviceName, None)"

text \<open>One event of the stream.\<close>

fun client_event :: "string \<Rightarrow> ServiceCache \<Rightarrow> ClientSubscriptionEvent \<Rightarrow> ServiceCache" where
  "client_event serviceName s event =
     (case ev_OpType event of
        ADDED \<Rightarrow> sc_onAdd s serviceName event
      | MODIFIED \<Rightarrow> sc_onUpdate s serviceName [event]
      | DELETED \<Rightarrow> sc_onDelete s serviceName)"

text \<open>The receive loop: it ends at the first error of \<open>Recv\<close>.\<close>

fun client_loop :: "string \<Rightarrow> ServiceCache \<Rightarrow> (string + ClientSubscriptionEvent) list \<Rightarrow> ServiceCache" where
  "client_loop serviceName s [] = s"
| "client_loop serviceName s (Inl err # rest) = s"
| "client_loop serviceName s (Inr event # rest) = client_loop serviceName (client_event serviceName s event) rest"

text \<open>\<open>Subscribe\<close>: an error of the call, or the goroutine that will apply the stream.\<close>

definition client_Subscribe ::
  "string \<Rightarrow> string + (string + ClientSubscriptionEvent) list \<Rightarrow> ServiceCache \<Rightarrow> ServiceCache \<times> string option" where
  "client_Subscribe serviceName stream s =
     (case stream of Inl err \<Rightarrow> (s, Some err) | Inr recvs \<Rightarrow> (client_loop serviceName s recvs, None))"

lemma client_event_frame: "m \<noteq> n \<Longrightarrow> client_event n s e m = s m"
  by (cases "ev_OpType e") (simp_all add: sc_onAdd_def sc_onUpdate_def sc_onDelete_def)

lemma client_loop_frame: "m \<noteq> n \<Longrightarrow> client_loop n s rs m = s m"
  by (induction n s rs rule: client_loop.induct) (simp_all add: client_event_frame del: client_event.simps)

text \<open>The cache holds the last event received, unless that was a deletion.\<close>

lemma client_event_result:
  "client_event n s e n = (if ev_OpType e = DELETED then None else Some e)"
  by (cases "ev_OpType e") (simp_all add: sc_onAdd_def sc_onUpdate_def sc_onDelete_def)

fun received :: "(string + ClientSubscriptionEvent) list \<Rightarrow> ClientSubscriptionEvent list" where
  "received [] = []"
| "received (Inl err # rest) = []"
| "received (Inr e # rest) = e # received rest"

lemma client_loop_result:
  "client_loop n s rs n = (if received rs = [] then s n
     else if ev_OpType (last (received rs)) = DELETED then None else Some (last (received rs)))"
  by (induction n s rs rule: client_loop.induct) (simp_all add: client_event_result del: client_event.simps)

end
