(* ===== verification/Slice_Properties.thy ===== *)
theory Slice_Properties
  imports Slice_Reconciler Rpc_Client
begin

section \<open>What the subscription path promises\<close>

text \<open>
  From an endpoint slice of the informer to the address table of a sidecar: the slice caches,
  the reconciler, the server and the client. Where a property is about the whole path, the
  client's cache is the one its receive loop builds from the events handed to its call.
\<close>

subsection \<open>Lemmas on single calls\<close>



lemma Publish_chosen:
  assumes inv: "grpc_inv d" and t: "gs_GetSidecar order d svc = Some t" and ok: "targets_set m"
    and m: "es_service m = svc"
    and room: "\<not> sc_closed (sub_sidecar (gs_calls d ! t))"
      "length (ch_buf (sc_receiver (sub_sidecar (gs_calls d ! t)))) < channelCapacity"
  shows "\<exists>d'. gs_Publish order d svc op (Some (AnyEndpointSlice m)) = Inr d' \<and> grpc_inv d'
    \<and> handed_events d' t = handed_events d t @ [\<lparr>ev_OpType = op, ev_Endpoints = endpoint_map (es_Endpoints m)\<rparr>]
    \<and> (\<forall>u. u \<noteq> t \<longrightarrow> handed_events d' u = handed_events d u)"
proof -
  from GetSidecar_some [OF t] have tl: "t < length (gs_calls d)" and svc: "served_service d t = svc" by auto
  have pok: "payload_ok (Some (AnyEndpointSlice m))" using ok by (simp add: payload_ok_def)
  from inform_inv [OF inv pok, of t op] obtain d' where
    d': "gs_inform d t op (Some (AnyEndpointSlice m)) = Inr d'" "grpc_inv d'" by blast
  have "informed (sub_sidecar (gs_calls d ! t)) op (Some (AnyEndpointSlice m))
      = [\<lparr>ev_OpType = op, ev_Endpoints = endpoint_map (es_Endpoints m)\<rparr>]"
    using room svc tl m by (simp add: informed_def served_service_def)
  with Informer_spec [OF grpc_invD(2) [OF inv tl] pok, of op] d'(1) tl
  have "handed_events d' t = handed_events d t @ [\<lparr>ev_OpType = op, ev_Endpoints = endpoint_map (es_Endpoints m)\<rparr>]"
    by (auto simp: gs_inform_def with_call_def set_call_def handed_events_def)
  with d' inform_frame(2) [OF d'(1)] t show ?thesis by (auto simp: gs_Publish_def)
qed

text \<open>A streaming call whose channel is closed sends what is buffered and returns.\<close>

lemma drain:
  "t < length (gs_calls s) \<Longrightarrow> sub_phase (gs_calls s ! t) = Streaming \<Longrightarrow>
   ch_closed (sc_receiver (sub_sidecar (gs_calls s ! t))) \<Longrightarrow>
   ch_buf (sc_receiver (sub_sidecar (gs_calls s ! t))) = evs \<Longrightarrow>
     \<exists>s' ys. go_run grpc_step s (replicate (length evs + 1) (GLoop t None) @ [GLeave t]) = Inr (s', ys)
       \<and> sub_phase (gs_calls s' ! t) = Returned None
       \<and> sub_sent (gs_calls s' ! t) = sub_sent (gs_calls s ! t) @ evs"
proof (induction evs arbitrary: s)
  case Nil
  then show ?case
    by (simp add: gs_loop_def gs_leave_def with_call_def set_call_def chan_recv_def)
next
  case (Cons e evs)
  let ?c = "gs_calls s ! t"
  let ?s = "set_call s t (?c\<lparr>sub_sidecar := (sub_sidecar ?c)\<lparr>sc_receiver := (sc_receiver (sub_sidecar ?c))\<lparr>ch_buf := evs\<rparr>\<rparr>,
    sub_sent := sub_sent ?c @ [e]\<rparr>)"
  have step: "grpc_step s (GLoop t None) = Inr (?s, None)"
    using Cons.prems by (simp add: gs_loop_def with_call_def chan_recv_def Let_def)
  have pre: "t < length (gs_calls ?s)" "sub_phase (gs_calls ?s ! t) = Streaming"
    "ch_closed (sc_receiver (sub_sidecar (gs_calls ?s ! t)))"
    "ch_buf (sc_receiver (sub_sidecar (gs_calls ?s ! t))) = evs"
    "sub_sent (gs_calls ?s ! t) = sub_sent ?c @ [e]"
    using Cons.prems by (simp_all add: set_call_def)
  from Cons.IH [OF pre(1-4)] obtain s' ys where
    "go_run grpc_step ?s (replicate (length evs + 1) (GLoop t None) @ [GLeave t]) = Inr (s', ys)"
    "sub_phase (gs_calls s' ! t) = Returned None" "sub_sent (gs_calls s' ! t) = sub_sent (gs_calls ?s ! t) @ evs" by blast
  moreover have "replicate (length (e # evs) + 1) (GLoop t None) @ [GLeave t]
      = GLoop t None # replicate (length evs + 1) (GLoop t None) @ [GLeave t]" by simp
  ultimately show ?case using step pre(5) by (simp del: grpc_step.simps)
qed

subsection \<open>Samples\<close>










subsection \<open>Publishing\<close>

text \<open>
  An added slice reaches a sidecar's table, end to end. If the server has an open
  subscription with room for the service of the slice, the informer's callback returns, the
  cached service merges at least the slice's endpoints, and the call the server picks is
  handed one event with the whole merged address table; a client that applies everything
  handed to that call then holds exactly that table. Every other call is handed nothing,
  those for the same service included.
\<close>

lemma added_slice_reaches_client:
  assumes "epc_inv c" "slices_complete c" "grpc_inv d" "targets_set es"
    and "\<forall>c' n e. epc_OnAdded c (AnyEndpointSlice es) = Inr (c', True, n) \<longrightarrow> c' n = Some e \<longrightarrow>
      enumerates ks (epsNameToEps e)"
    and "gs_GetSidecar order d (es_service es) = Some t"
    and "\<not> sc_closed (sub_sidecar (gs_calls d ! t))"
    and "length (ch_buf (sc_receiver (sub_sidecar (gs_calls d ! t)))) < channelCapacity"
  shows "\<exists>c' d' m. esr_OnAdded epc_OnAdded (epc_GetCache ks) (gs_Publish order) (c, d) (AnyEndpointSlice es) = Inr (c', d')
    \<and> epc_GetCache ks c' (es_service es) = Some (AnyEndpointSlice m) \<and> set (es_Endpoints es) \<subseteq> set (es_Endpoints m)
    \<and> targets_set m \<and> handed_events d' t = handed_events d t @ [\<lparr>ev_OpType = ADDED, ev_Endpoints = endpoint_map (es_Endpoints m)\<rparr>]
    \<and> (\<forall>u. u \<noteq> t \<longrightarrow> handed_events d' u = handed_events d u)
    \<and> client_GetServiceIps (client_loop (es_service es) NewServiceCache (map Inr (handed_events d' t))) (es_service es)
        = Some (endpoint_map (es_Endpoints m))"
proof -
  let ?svc = "es_service es"
  obtain c' where c': "epc_OnAdded c (AnyEndpointSlice es) = Inr (c', True, ?svc)" unfolding epc_added by blast
  from complete_added [OF assms(2) c'] assms(4) have "slices_complete c'" by simp
  note merged = merged_complete [OF this, of ks ?svc]
  from added_merged [OF assms(1) c', of ks] assms(5) c' obtain m where
    m: "epc_GetCache ks c' ?svc = Some (AnyEndpointSlice m)" "es_service m = ?svc"
      "set (es_Endpoints es) \<subseteq> set (es_Endpoints m)" by blast
  from merged m have ok: "targets_set m" by (simp add: payload_ok_def)
  let ?e = "\<lparr>ev_OpType = ADDED, ev_Endpoints = endpoint_map (es_Endpoints m)\<rparr>"
  from Publish_chosen [OF assms(3,6) ok m(2) assms(7,8), of ADDED] obtain d' where
    d': "gs_Publish order d ?svc ADDED (Some (AnyEndpointSlice m)) = Inr d'"
      "handed_events d' t = handed_events d t @ [?e]" "\<forall>u. u \<noteq> t \<longrightarrow> handed_events d' u = handed_events d u" by blast
  have run: "esr_OnAdded epc_OnAdded (epc_GetCache ks) (gs_Publish order) (c, d) (AnyEndpointSlice es) = Inr (c', d')"
    by (simp add: esr_OnAdded_def c' m(1) d'(1))
  have "received (map Inr (evs @ [?e])) = evs @ [?e]" for evs by (induction evs) simp_all
  then have "client_GetServiceIps (client_loop ?svc NewServiceCache (map Inr (handed_events d' t))) ?svc
      = Some (endpoint_map (es_Endpoints m))"
    unfolding d'(2) client_GetServiceIps_def sc_GetEndpoints_def client_loop_result by (simp add: eps_GetIps_def)
  with run m ok d' show ?thesis by blast
qed







subsection \<open>The server's calls\<close>



text \<open>
  Shutdown ends every registered subscription. After the shutdown goroutine's body the
  server is not ready and accepts no call, and every streaming call the map points to sends
  everything that is still buffered, in order, and then returns without error, in a bounded
  number of rounds.
\<close>

lemma shutdown_ends_registered:
  assumes "grpc_inv s" "enumerates order (gs_sidecars s)"
    and "gs_sidecars s k = Some t" "sub_phase (gs_calls s ! t) = Streaming"
  shows "\<exists>s1 s2 ys. gs_shutdown order s = Inr s1 \<and> gs_Subscribe s1 i svc = Inr (s1, Some not_ready)
    \<and> go_run grpc_step s1 (replicate (length (ch_buf (sc_receiver (sub_sidecar (gs_calls s1 ! t)))) + 1) (GLoop t None)
        @ [GLeave t]) = Inr (s2, ys)
    \<and> sub_phase (gs_calls s2 ! t) = Returned None
    \<and> sub_sent (gs_calls s2 ! t) = sub_sent (gs_calls s1 ! t) @ ch_buf (sc_receiver (sub_sidecar (gs_calls s1 ! t)))"
proof -
  from grpc_invD(3) [OF assms(1,3)] have t: "t < length (gs_calls s)" by simp
  from shutdown_inv [OF assms(1), of order] obtain s1 where s1: "gs_shutdown order s = Inr s1" "grpc_inv s1"
    "\<not> gs_ready s1" "length (gs_calls s1) = length (gs_calls s)" "sub_phase (gs_calls s1 ! t) = Streaming"
    "(\<exists>k \<in> set order. gs_sidecars s k = Some t) \<longrightarrow> sc_closed (sub_sidecar (gs_calls s1 ! t))"
    using t assms(4) by auto
  have "k \<in> set order" using assms(2,3) by (auto simp: enumerates_def)
  with s1(6) assms(3) have "sc_closed (sub_sidecar (gs_calls s1 ! t))" by blast
  with grpc_invD(2) [OF s1(2), of t] t s1(4) have "ch_closed (sc_receiver (sub_sidecar (gs_calls s1 ! t)))"
    by (simp add: sidecar_inv_def)
  from drain [OF _ s1(5) this refl] t s1(4) obtain s2 ys where
    "go_run grpc_step s1 (replicate (length (ch_buf (sc_receiver (sub_sidecar (gs_calls s1 ! t)))) + 1) (GLoop t None)
        @ [GLeave t]) = Inr (s2, ys)" "sub_phase (gs_calls s2 ! t) = Returned None"
    "sub_sent (gs_calls s2 ! t) = sub_sent (gs_calls s1 ! t) @ ch_buf (sc_receiver (sub_sidecar (gs_calls s1 ! t)))"
    by auto
  moreover have "gs_Subscribe s1 i svc = Inr (s1, Some not_ready)" using s1(3) by (simp add: gs_Subscribe_def)
  ultimately show ?thesis using s1(1) by blast
qed



end
