(* ===== verification/Net_Addr.thy ===== *)
theory Net_Addr
  imports Prelude
begin

section \<open>Host names, ports and addresses of the Go library\<close>

text \<open>
  The functions of \<open>strings\<close> and \<open>net\<close> that the address handling of both programs uses:
  \<open>Contains\<close>, \<open>HasPrefix\<close>, \<open>Count\<close> of a character, \<open>Trim\<close> of a set of characters,
  \<open>SplitHostPort\<close>, \<open>JoinHostPort\<close>, and whether \<open>ParseIP\<close> accepts a text (the program never
  uses the address itself). Errors carry no text the program reads: \<open>None\<close>.
\<close>

definition str_HasPrefix :: "string \<Rightarrow> string \<Rightarrow> bool" where
  "str_HasPrefix s p \<longleftrightarrow> take (length p) s = p"

fun str_Contains :: "string \<Rightarrow> string \<Rightarrow> bool" where
  "str_Contains [] p \<longleftrightarrow> p = []"
| "str_Contains (c # s) p \<longleftrightarrow> str_HasPrefix (c # s) p \<or> str_Contains s p"

definition str_Count :: "string \<Rightarrow> char \<Rightarrow> nat" where
  "str_Count s c = length (filter (\<lambda>x. x = c) s)"

definition str_Trim :: "string \<Rightarrow> string \<Rightarrow> string" where
  "str_Trim s cutset = rev (dropWhile (\<lambda>c. c \<in> set cutset) (rev (dropWhile (\<lambda>c. c \<in> set cutset) s)))"

lemma str_HasPrefix_iff: "str_HasPrefix s p \<longleftrightarrow> (\<exists>t. s = p @ t)"
  by (metis append_eq_conv_conj append_take_drop_id str_HasPrefix_def)

lemma str_Contains_iff: "str_Contains s p \<longleftrightarrow> (\<exists>a b. s = a @ p @ b)"
proof (induction s)
  case (Cons c s)
  show ?case
  proof
    assume "str_Contains (c # s) p"
    then consider (here) t where "c # s = p @ t" | (later) a b where "s = a @ p @ b"
      using Cons.IH by (auto simp: str_HasPrefix_iff)
    then show "\<exists>a b. c # s = a @ p @ b"
    proof cases
      case here
      then show ?thesis by (intro exI [of _ "[]"] exI [of _ t]) simp
    next
      case later
      then show ?thesis by (intro exI [of _ "c # a"] exI [of _ b]) simp
    qed
  next
    assume "\<exists>a b. c # s = a @ p @ b"
    then obtain a b where e: "c # s = a @ p @ b" by blast
    show "str_Contains (c # s) p"
    proof (cases a)
      case Nil
      with e have "str_HasPrefix (c # s) p" unfolding str_HasPrefix_iff by (intro exI [of _ b]) simp
      then show ?thesis by simp
    next
      case (Cons d a')
      with e Cons.IH show ?thesis by auto
    qed
  qed
qed simp

lemma Trim_none:
  assumes "\<And>c. c \<in> set s \<Longrightarrow> c \<notin> set cutset"
  shows "str_Trim s cutset = s"
proof -
  have "dropWhile (\<lambda>c. c \<in> set cutset) s = s" "dropWhile (\<lambda>c. c \<in> set cutset) (rev s) = rev s"
    using assms by (metis (mono_tags, lifting) dropWhile_eq_self_iff hd_in_set)
      (metis (mono_tags, lifting) assms dropWhile_eq_self_iff hd_in_set set_rev)
  then show ?thesis by (simp add: str_Trim_def)
qed

subsection \<open>Host and port\<close>

text \<open>The text before and after the last occurrence of a character.\<close>

definition split_last :: "char \<Rightarrow> string \<Rightarrow> (string \<times> string) option" where
  "split_last c s = (if c \<in> set s
     then Some (rev (tl (dropWhile (\<lambda>x. x \<noteq> c) (rev s))), rev (takeWhile (\<lambda>x. x \<noteq> c) (rev s))) else None)"

lemma split_last_None [simp]: "split_last c s = None \<longleftrightarrow> c \<notin> set s"
  by (simp add: split_last_def)

lemma split_last_append: "c \<notin> set b \<Longrightarrow> split_last c (a @ c # b) = Some (a, b)"
  by (auto simp: split_last_def takeWhile_append dropWhile_append takeWhile_eq_all_conv dropWhile_eq_Nil_conv
      split: if_splits)

lemma split_last_Some: "split_last c s = Some (a, b) \<longleftrightarrow> s = a @ c # b \<and> c \<notin> set b"
proof
  assume r: "split_last c s = Some (a, b)"
  then have "c \<in> set s" by (simp add: split_last_def split: if_splits)
  then obtain a' b' where s: "s = a' @ c # b'" "c \<notin> set b'" by (metis split_list_last)
  with r split_last_append [OF s(2)] show "s = a @ c # b \<and> c \<notin> set b" by simp
qed (auto simp: split_last_append)

definition SplitHostPort :: "string \<Rightarrow> (string \<times> string) option" where
  "SplitHostPort hostport =
     (case split_last CHR '':'' hostport of
        None \<Rightarrow> None
      | Some (pre, port) \<Rightarrow>
          if hd hostport = CHR ''['' then
            (if CHR '']'' \<notin> set hostport then None
             else let host = takeWhile (\<lambda>c. c \<noteq> CHR '']'') (tl hostport);
                      rest = tl (dropWhile (\<lambda>c. c \<noteq> CHR '']'') hostport)
                  in if rest \<noteq> CHR '':'' # port then None
                     else if CHR ''['' \<in> set (tl hostport) then None
                     else if CHR '']'' \<in> set rest then None
                     else Some (host, port))
          else if CHR '':'' \<in> set pre then None
          else if CHR ''['' \<in> set hostport then None
          else if CHR '']'' \<in> set hostport then None
          else Some (pre, port))"

definition JoinHostPort :: "string \<Rightarrow> string \<Rightarrow> string" where
  "JoinHostPort host port =
     (if CHR '':'' \<in> set host then ''['' @ host @ '']:'' @ port else host @ '':'' @ port)"

definition bracket_free :: "string \<Rightarrow> bool" where
  "bracket_free s \<longleftrightarrow> CHR ''['' \<notin> set s \<and> CHR '']'' \<notin> set s"

lemma takeWhile_stop: "c \<notin> set s \<Longrightarrow> takeWhile (\<lambda>x. x \<noteq> c) (s @ c # t) = s"
  by (induction s) auto

lemma dropWhile_stop: "c \<notin> set s \<Longrightarrow> dropWhile (\<lambda>x. x \<noteq> c) (s @ c # t) = c # t"
  by (induction s) auto

text \<open>What is split off a text and what joins back to a splittable text.\<close>

lemma split_join:
  assumes "bracket_free h" "bracket_free p" "CHR '':'' \<notin> set p"
  shows "SplitHostPort (JoinHostPort h p) = Some (h, p)"
proof (cases "CHR '':'' \<in> set h")
  case True
  let ?s = "CHR ''['' # h @ CHR '']'' # CHR '':'' # p"
  have j: "JoinHostPort h p = ?s" using True by (simp add: JoinHostPort_def)
  have l: "split_last CHR '':'' ?s = Some (CHR ''['' # h @ [CHR '']''], p)"
    using assms(3) by (simp add: split_last_Some)
  have "CHR '']'' \<notin> set (CHR ''['' # h)" using assms(1) by (simp add: bracket_free_def)
  from takeWhile_stop [of "CHR '']''" h] dropWhile_stop [OF this, of "CHR '':'' # p"] assms l show ?thesis
    unfolding j by (simp add: SplitHostPort_def bracket_free_def Let_def)
next
  case False
  have j: "JoinHostPort h p = h @ CHR '':'' # p" using False by (simp add: JoinHostPort_def)
  have l: "split_last CHR '':'' (h @ CHR '':'' # p) = Some (h, p)" using assms(3) by (simp add: split_last_Some)
  have "hd (h @ CHR '':'' # p) \<noteq> CHR ''[''" using assms(1) by (cases h) (auto simp: bracket_free_def)
  with l False assms show ?thesis unfolding j by (simp add: SplitHostPort_def bracket_free_def)
qed

lemma split_sound:
  assumes "SplitHostPort s = Some (h, p)"
  shows "bracket_free h \<and> bracket_free p \<and> CHR '':'' \<notin> set p
    \<and> (s = h @ CHR '':'' # p \<and> CHR '':'' \<notin> set h \<or> s = CHR ''['' # h @ CHR '']'' # CHR '':'' # p)"
proof -
  from assms obtain pre where l: "split_last CHR '':'' s = Some (pre, p)"
    by (auto simp: SplitHostPort_def Let_def split: option.splits if_splits)
  then have s: "s = pre @ CHR '':'' # p" "CHR '':'' \<notin> set p" by (simp_all add: split_last_Some)
  show ?thesis
  proof (cases "hd s = CHR ''[''")
    case True
    let ?rest = "tl (dropWhile (\<lambda>c. c \<noteq> CHR '']'') s)"
    from assms l True have a: "CHR '']'' \<in> set s" "?rest = CHR '':'' # p" "CHR ''['' \<notin> set (tl s)"
      "CHR '']'' \<notin> set ?rest" "h = takeWhile (\<lambda>c. c \<noteq> CHR '']'') (tl s)"
      by (auto simp: SplitHostPort_def Let_def split: if_splits)
    from s(1) True obtain t where t: "s = CHR ''['' # t" by (metis Nil_is_append_conv list.discI list.collapse)
    with a(1) have "CHR '']'' \<in> set t" by simp
    then obtain u v where uv: "t = u @ CHR '']'' # v" "CHR '']'' \<notin> set u" by (metis split_list_first)
    with t have "?rest = v" "h = u" using takeWhile_stop [OF uv(2)] dropWhile_stop [OF uv(2)] a(5) by simp_all
    with a t uv s(2) show ?thesis by (auto simp: bracket_free_def)
  next
    case False
    with assms l s show ?thesis by (auto simp: SplitHostPort_def bracket_free_def split: if_splits)
  qed
qed

lemma split_one_colon:
  assumes "bracket_free h" "CHR '':'' \<notin> set h" "bracket_free p" "CHR '':'' \<notin> set p"
  shows "SplitHostPort (h @ CHR '':'' # p) = Some (h, p)"
  using split_join [OF assms(1,3,4)] assms(2) by (simp add: JoinHostPort_def)

lemma split_no_colon: "CHR '':'' \<notin> set s \<Longrightarrow> SplitHostPort s = None"
  by (simp add: SplitHostPort_def split_last_def)

subsection \<open>IP addresses\<close>

definition is_digit :: "char \<Rightarrow> bool" where
  "is_digit c \<longleftrightarrow> 48 \<le> (of_char c :: nat) \<and> (of_char c :: nat) \<le> 57"

definition is_hex :: "char \<Rightarrow> bool" where
  "is_hex c \<longleftrightarrow> is_digit c \<or> (97 \<le> (of_char c :: nat) \<and> (of_char c :: nat) \<le> 102)
     \<or> (65 \<le> (of_char c :: nat) \<and> (of_char c :: nat) \<le> 70)"

definition decimal :: "string \<Rightarrow> nat" where
  "decimal s = foldl (\<lambda>n c. n * 10 + (of_char c - 48)) 0 s"

text \<open>Four fields between dots, each a number up to 255 without a leading zero.\<close>

fun split_on :: "char \<Rightarrow> string \<Rightarrow> string list" where
  "split_on d [] = [[]]"
| "split_on d (c # s) =
     (if c = d then [] # split_on d s
      else case split_on d s of f # fs \<Rightarrow> (c # f) # fs | [] \<Rightarrow> [[c]])"

definition octet :: "string \<Rightarrow> bool" where
  "octet f \<longleftrightarrow> f \<noteq> [] \<and> list_all is_digit f \<and> (hd f = CHR ''0'' \<longrightarrow> length f = 1) \<and> decimal f \<le> 255"

definition isIPv4 :: "string \<Rightarrow> bool" where
  "isIPv4 s \<longleftrightarrow> length (split_on CHR ''.'' s) = 4 \<and> list_all octet (split_on CHR ''.'' s)"

text \<open>
  Groups of up to four hex digits between colons, one \<open>::\<close> for at least one missing group,
  the last two groups possibly written as an IPv4 address. \<open>n\<close> counts the groups read;
  \<open>e\<close> says whether the \<open>::\<close> has been seen.
\<close>

function v6_groups :: "nat \<Rightarrow> bool \<Rightarrow> string \<Rightarrow> bool" where
  "v6_groups n e s =
     (if 8 \<le> n then s = [] \<and> \<not> e
      else
        let digits = takeWhile is_hex s; rest = dropWhile is_hex s in
        if digits = [] \<or> 4 < length digits then False
        else case rest of
          [] \<Rightarrow> (if n + 1 < 8 then e else \<not> e)
        | c # more \<Rightarrow>
            if c = CHR ''.'' then
              (e \<or> n = 6) \<and> n + 2 \<le> 8 \<and> isIPv4 s \<and> (if n + 2 < 8 then e else \<not> e)
            else if c \<noteq> CHR '':'' then False
            else (case more of
                [] \<Rightarrow> False
              | d # more' \<Rightarrow>
                  if d = CHR '':'' then
                    \<not> e \<and> (if more' = [] then n + 1 < 8 else v6_groups (n + 1) True more')
                  else v6_groups (n + 1) e more))"
  by pat_completeness auto
termination by (relation "measure (\<lambda>(n, e, s). 8 - n)") auto

definition isIPv6 :: "string \<Rightarrow> bool" where
  "isIPv6 s \<longleftrightarrow>
     (if str_HasPrefix s ''::''
      then drop 2 s = [] \<or> v6_groups 0 True (drop 2 s)
      else v6_groups 0 False s)"

text \<open>\<open>ParseIP\<close> decides by the first dot, colon or percent sign; an address with a zone is refused.\<close>

definition ParseIP_ok :: "string \<Rightarrow> bool" where
  "ParseIP_ok s \<longleftrightarrow>
     (case dropWhile (\<lambda>c. c \<noteq> CHR ''.'' \<and> c \<noteq> CHR '':'' \<and> c \<noteq> CHR ''%'') s of
        [] \<Rightarrow> False
      | c # _ \<Rightarrow> if c = CHR ''.'' then isIPv4 s
                else if c = CHR '':'' then CHR ''%'' \<notin> set s \<and> isIPv6 s
                else False)"

end
