(* ===== verification/Proxy_Listener.thy ===== *)
theory Proxy_Listener
  imports Net_Addr
begin

section \<open>Accepting connections\<close>

text \<open>
  \<open>internal/cli/proxy/listener.go\<close>: the protocol is guessed from the first bytes of a
  connection, the original destination is read from a socket option, and an accepted HTTP
  connection is served through a listener that hands out one connection.
\<close>

subsection \<open>Protocol detection\<close>

text \<open>
  What the client has written so far, and whether it has ended its side (or failed).
  \<open>bufio.Reader.Peek(n)\<close> waits for \<open>n\<close> bytes; it fails only when the stream ends before.
\<close>

record stream =
  st_bytes :: string
  st_ended :: bool

datatype peeked = Peeked string | PeekFailed | PeekBlocked

definition bufio_Peek :: "nat \<Rightarrow> stream \<Rightarrow> peeked" where
  "bufio_Peek n s =
     (if n \<le> length (st_bytes s) then Peeked (take n (st_bytes s))
      else if st_ended s then PeekFailed else PeekBlocked)"

definition http_prefixes :: "string list" where
  "http_prefixes = [''GET '', ''POST '', ''HEAD '', ''PUT '', ''DELETE '', ''OPTIONS '', ''CONNECT '', ''TRACE '',
     ''PATCH '', ''HTTP/1.'']"

text \<open>\<open>None\<close>: the call does not return.\<close>

definition isHTTP :: "stream \<Rightarrow> bool option" where
  "isHTTP reader =
     (case bufio_Peek 64 reader of
        PeekBlocked \<Rightarrow> None
      | PeekFailed \<Rightarrow> Some False
      | Peeked peek \<Rightarrow> Some (list_ex (str_HasPrefix peek) http_prefixes))"

datatype handler = HandleHTTP | HandleTCP

definition handleConnection :: "stream \<Rightarrow> handler option" where
  "handleConnection reader =
     (case isHTTP reader of None \<Rightarrow> None | Some h \<Rightarrow> Some (if h then HandleHTTP else HandleTCP))"

lemma HasPrefix_take: "length p \<le> n \<Longrightarrow> str_HasPrefix (take n s) p = str_HasPrefix s p"
  by (simp add: str_HasPrefix_def min_def)

lemma prefixes_short: "\<forall>p \<in> set http_prefixes. length p \<le> 8"
  by (simp add: http_prefixes_def)

lemma isHTTP_long:
  assumes "64 \<le> length (st_bytes s)"
  shows "isHTTP s = Some (list_ex (str_HasPrefix (st_bytes s)) http_prefixes)"
proof -
  have "str_HasPrefix (take 64 (st_bytes s)) p = str_HasPrefix (st_bytes s) p" if "p \<in> set http_prefixes" for p
    using prefixes_short that by (intro HasPrefix_take) fastforce
  then show ?thesis using assms by (auto simp: isHTTP_def bufio_Peek_def list_ex_iff)
qed

subsection \<open>The original destination\<close>

text \<open>
  The socket option fills a \<open>sockaddr_in\<close>: two bytes of family, the port and the address in
  network order. The system calls' results are arguments.
\<close>

record TCPAddr =
  ta_IP :: "8 word list"
  ta_Port :: int

definition getOriginalDst ::
  "bool \<Rightarrow> string option \<Rightarrow> string option \<Rightarrow> string + 8 word list \<Rightarrow> (string + TCPAddr) go" where
  "getOriginalDst isTCP syscallErr controlErr sockopt =
     (if \<not> isTCP then Inr (Inl ''not a TCP connection'')
      else case syscallErr of
        Some err \<Rightarrow> Inr (Inl (''getting syscall.RawConn: '' @ err))
      | None \<Rightarrow>
          (case controlErr of
             Some err \<Rightarrow> Inr (Inl (''rawConn.Control: '' @ err))
           | None \<Rightarrow>
               (case sockopt of
                  Inl sockerr \<Rightarrow> Inr (Inl sockerr)
                | Inr m \<Rightarrow>
                    go_bind (go_index m 4) (\<lambda>a. go_bind (go_index m 5) (\<lambda>b.
                    go_bind (go_index m 6) (\<lambda>c. go_bind (go_index m 7) (\<lambda>d.
                    go_bind (go_index m 2) (\<lambda>hi. go_bind (go_index m 3) (\<lambda>lo.
                      Inr (Inr \<lparr>ta_IP = [a, b, c, d], ta_Port = uint hi * 2 ^ 8 + uint lo\<rparr>))))))))))"

text \<open>The kernel's layout, for a family, a port and an address; the rest of the 16 bytes is padding.\<close>

definition sockaddr_in :: "8 word \<Rightarrow> 8 word \<Rightarrow> int \<Rightarrow> 8 word list \<Rightarrow> 8 word list \<Rightarrow> 8 word list" where
  "sockaddr_in f0 f1 port ip pad = [f0, f1, word_of_int (port div 256), word_of_int (port mod 256)] @ ip @ pad"

lemma word8_small: "0 \<le> n \<Longrightarrow> n < 256 \<Longrightarrow> uint (word_of_int n :: 8 word) = n"
  by (simp add: uint_word_of_int take_bit_int_eq_self)

lemma sockaddr_index:
  assumes "length ip = 4"
  shows "getOriginalDst True None None (Inr (sockaddr_in f0 f1 port ip pad))
    = Inr (Inr \<lparr>ta_IP = ip, ta_Port = uint (word_of_int (port div 256) :: 8 word) * 256
        + uint (word_of_int (port mod 256) :: 8 word)\<rparr>)"
proof -
  from assms obtain a b c d where "ip = [a, b, c, d]" by (auto simp: length_Suc_conv numeral_eq_Suc)
  then show ?thesis by (simp add: getOriginalDst_def sockaddr_in_def go_index_def)
qed

subsection \<open>One connection\<close>

text \<open>
  \<open>singleConnListener\<close>: the first \<open>Accept\<close> hands out the connection and marks the listener
  closed. The \<open>done\<close> channel is closed under a \<open>sync.Once\<close>; closing it twice would panic.
\<close>

record 'c singleConnListener =
  sl_conn :: "'c option"
  sl_done :: bool
  sl_once :: bool
  sl_closed :: bool

definition newSingleConnListener :: "'c option \<Rightarrow> 'c singleConnListener" where
  "newSingleConnListener conn = \<lparr>sl_conn = conn, sl_done = False, sl_once = False, sl_closed = False\<rparr>"

definition sl_close_done :: "'c singleConnListener \<Rightarrow> 'c singleConnListener go" where
  "sl_close_done l =
     (if sl_once l then Inr l
      else if sl_done l then Inl CloseOfClosedChannel
      else Inr (l\<lparr>sl_once := True, sl_done := True\<rparr>))"

definition sl_Accept :: "'c singleConnListener \<Rightarrow> ('c singleConnListener \<times> 'c option) go" where
  "sl_Accept l =
     (if sl_closed l then Inr (l, None)
      else go_bind (sl_close_done (l\<lparr>sl_closed := True\<rparr>)) (\<lambda>l'. Inr (l', sl_conn l)))"

definition sl_Close :: "'c singleConnListener \<Rightarrow> 'c singleConnListener go" where
  "sl_Close l = (if \<not> sl_closed l then sl_close_done (l\<lparr>sl_closed := True\<rparr>) else Inr l)"

datatype sl_op = SlAccept | SlClose

fun sl_step :: "'c singleConnListener \<Rightarrow> sl_op \<Rightarrow> ('c singleConnListener \<times> 'c option) go" where
  "sl_step l SlAccept = sl_Accept l"
| "sl_step l SlClose = go_bind (sl_Close l) (\<lambda>l'. Inr (l', None))"

definition sl_inv :: "'c singleConnListener \<Rightarrow> bool" where
  "sl_inv l \<longleftrightarrow> sl_done l = sl_closed l \<and> sl_once l = sl_closed l"

text \<open>Specified: a slot that hands its content out once.\<close>

fun slot_step :: "'c option \<Rightarrow> sl_op \<Rightarrow> 'c option \<times> 'c option" where
  "slot_step c SlAccept = (None, c)"
| "slot_step c SlClose = (None, None)"

definition slot_of :: "'c singleConnListener \<Rightarrow> 'c option" where
  "slot_of l = (if sl_closed l then None else sl_conn l)"

interpretation sl: go_refinement sl_step sl_inv "\<lambda>_. True" slot_of slot_step
proof unfold_locales
  fix l e
  assume inv: "sl_inv l"
  show "\<exists>l' x. sl_step l e = Inr (l', x) \<and> sl_inv l'"
    using inv by (cases e) (auto simp: sl_Accept_def sl_Close_def sl_close_done_def sl_inv_def)
  fix l' x
  assume "sl_step l e = Inr (l', x)"
  with inv show "slot_step (slot_of l) e = (slot_of l', x)"
    by (cases e) (auto simp: sl_Accept_def sl_Close_def sl_close_done_def sl_inv_def slot_of_def go_bind_Inr_iff
        split: if_splits)
qed

lemma slot_run_None: "pure_run slot_step None es = (None, map (\<lambda>_. None) es)"
proof (induction es)
  case (Cons e es)
  then show ?case by (cases e) simp_all
qed simp

lemma sl_step_closes: "sl_step l e = Inr (l', x) \<Longrightarrow> sl_closed l'"
  by (cases e) (auto simp: sl_Accept_def sl_Close_def sl_close_done_def go_bind_Inr_iff split: if_splits)

lemma sl_run_closed: "go_run sl_step l es = Inr (l', xs) \<Longrightarrow> es \<noteq> [] \<Longrightarrow> sl_closed l'"
proof (induction es arbitrary: l xs)
  case (Cons e es)
  from Cons.prems(1) obtain l1 x ys where "sl_step l e = Inr (l1, x)" "go_run sl_step l1 es = Inr (l', ys)"
    by (rule go_run_ConsE)
  with Cons.IH sl_step_closes show ?case by (cases "es = []") auto
qed simp

end
