(* ===== verification/Proxy_Relay.thy ===== *)
theory Proxy_Relay
  imports Proxy_Listener
begin

section \<open>The TCP relay\<close>

text \<open>
  The accept loop and \<open>handleTCP\<close> of \<open>internal/cli/proxy/listener.go\<close>. The connection to the
  client is read through the buffered reader that \<open>isHTTP\<close> has peeked into
  (\<open>connWrapper\<close>), so the bytes peeked are still there. Two goroutines copy, one per
  direction, and close the write side of their destination when they end; a third closes
  both connections when the context is cancelled or the function returns.
\<close>

subsection \<open>Accepting\<close>

text \<open>
  Results of \<open>Accept\<close> in order, each with whether the context is cancelled when the loop looks.
  The second component says whether \<open>Listen\<close> has returned (always without an error).
\<close>

fun Listen :: "(('e + 'c) \<times> bool) list \<Rightarrow> 'c list \<times> bool" where
  "Listen [] = ([], False)"
| "Listen ((Inr conn, ctxErr) # rest) = (let (conns, r) = Listen rest in (conn # conns, r))"
| "Listen ((Inl err, ctxErr) # rest) = (if ctxErr then ([], True) else Listen rest)"

subsection \<open>Endpoints\<close>

text \<open>
  One direction: the source's bytes that have not been read (in the reader's buffer, then in
  the connection), whether the source has ended its side, what has been written to the
  destination, whether its write side has been closed, and the place of the goroutine.
\<close>

datatype copy_pc = Copying | CopyEnded

record flow =
  fl_buffered :: string
  fl_pending :: string
  fl_eof :: bool
  fl_written :: string
  fl_write_closed :: bool
  fl_pc :: copy_pc

text \<open>
  \<open>connWrapper.Read\<close>: up to \<open>n\<close> bytes, of the buffer if it holds any, and otherwise of the
  connection. \<open>None\<close>: nothing to read yet; the empty text: the end.
\<close>

definition conn_Read :: "nat \<Rightarrow> flow \<Rightarrow> (flow \<times> string) option" where
  "conn_Read n f =
     (if fl_buffered f \<noteq> [] then Some (f\<lparr>fl_buffered := drop n (fl_buffered f)\<rparr>, take n (fl_buffered f))
      else if fl_pending f \<noteq> [] then Some (f\<lparr>fl_pending := drop n (fl_pending f)\<rparr>, take n (fl_pending f))
      else if fl_eof f then Some (f, [])
      else None)"

text \<open>One round of \<open>io.Copy\<close>: read, and write what was read; an error of either ends it.\<close>

datatype io_fault = NoFault | ReadFault | WriteFault

definition copy_ends :: "flow \<Rightarrow> flow" where
  "copy_ends f = f\<lparr>fl_pc := CopyEnded, fl_write_closed := True\<rparr>"

definition copy_round :: "nat \<Rightarrow> io_fault \<Rightarrow> flow \<Rightarrow> flow" where
  "copy_round n fault f =
     (if fl_pc f \<noteq> Copying then f
      else if fault = ReadFault then copy_ends f
      else case conn_Read (Suc n) f of
        None \<Rightarrow> f
      | Some (f', chunk) \<Rightarrow>
          if chunk = [] \<or> fault = WriteFault then copy_ends f'
          else f'\<lparr>fl_written := fl_written f' @ chunk\<rparr>)"

subsection \<open>Both directions\<close>

text \<open>
  A read or write fails only once the connections have been closed by the third goroutine or
  the network has failed (\<open>rl_broken\<close>).
\<close>

record relay =
  rl_up :: flow
  rl_down :: flow
  rl_broken :: bool
  rl_returned :: bool

definition handleTCP_start :: "string \<Rightarrow> relay" where
  "handleTCP_start peeked =
     (let idle = \<lparr>fl_buffered = [], fl_pending = [], fl_eof = False, fl_written = [], fl_write_closed = False, fl_pc = Copying\<rparr>
      in \<lparr>rl_up = idle\<lparr>fl_buffered := peeked\<rparr>, rl_down = idle, rl_broken = False, rl_returned = False\<rparr>)"

text \<open>No relay starts without an original destination or without a connection to it.\<close>

definition handleTCP :: "string + TCPAddr \<Rightarrow> (TCPAddr \<Rightarrow> 'e + 't) \<Rightarrow> string \<Rightarrow> relay option" where
  "handleTCP originalDst dial peeked =
     (case originalDst of
        Inl err \<Rightarrow> None
      | Inr addr \<Rightarrow> (case dial addr of Inl err \<Rightarrow> None | Inr targetConn \<Rightarrow> Some (handleTCP_start peeked)))"

datatype relay_op =
    CopyUp nat io_fault | CopyDown nat io_fault | Return
  | ClientSends string | TargetSends string | ClientEnds | TargetEnds | Broken

definition faulty :: "relay \<Rightarrow> io_fault \<Rightarrow> io_fault" where
  "faulty r fault = (if rl_broken r then fault else NoFault)"

fun relay_step :: "relay \<Rightarrow> relay_op \<Rightarrow> relay" where
  "relay_step r (CopyUp n fault) = r\<lparr>rl_up := copy_round n (faulty r fault) (rl_up r)\<rparr>"
| "relay_step r (CopyDown n fault) = r\<lparr>rl_down := copy_round n (faulty r fault) (rl_down r)\<rparr>"
| "relay_step r Return =
     (if fl_pc (rl_up r) = CopyEnded \<and> fl_pc (rl_down r) = CopyEnded then r\<lparr>rl_returned := True\<rparr> else r)"
| "relay_step r (ClientSends bs) =
     (if fl_eof (rl_up r) then r else r\<lparr>rl_up := (rl_up r)\<lparr>fl_pending := fl_pending (rl_up r) @ bs\<rparr>\<rparr>)"
| "relay_step r (TargetSends bs) =
     (if fl_eof (rl_down r) then r else r\<lparr>rl_down := (rl_down r)\<lparr>fl_pending := fl_pending (rl_down r) @ bs\<rparr>\<rparr>)"
| "relay_step r ClientEnds = r\<lparr>rl_up := (rl_up r)\<lparr>fl_eof := True\<rparr>\<rparr>"
| "relay_step r TargetEnds = r\<lparr>rl_down := (rl_down r)\<lparr>fl_eof := True\<rparr>\<rparr>"
| "relay_step r Broken = r\<lparr>rl_broken := True\<rparr>"

definition relay_run :: "relay \<Rightarrow> relay_op list \<Rightarrow> relay" where
  "relay_run r es = foldl relay_step r es"

text \<open>What each side has sent, up to its end.\<close>

fun client_bytes :: "relay_op list \<Rightarrow> string" where
  "client_bytes [] = []"
| "client_bytes (ClientEnds # es) = []"
| "client_bytes (ClientSends bs # es) = bs @ client_bytes es"
| "client_bytes (e # es) = client_bytes es"

fun target_bytes :: "relay_op list \<Rightarrow> string" where
  "target_bytes [] = []"
| "target_bytes (TargetEnds # es) = []"
| "target_bytes (TargetSends bs # es) = bs @ target_bytes es"
| "target_bytes (e # es) = target_bytes es"

text \<open>
  The condition on one direction, for the bytes \<open>sent\<close> to it: what was written, what a failed
  write has lost, and what has not been read make up \<open>sent\<close>.
\<close>

definition flow_ok :: "bool \<Rightarrow> string \<Rightarrow> flow \<Rightarrow> bool" where
  "flow_ok broken sent f \<longleftrightarrow>
     (\<exists>lost. sent = fl_written f @ lost @ fl_buffered f @ fl_pending f \<and> (lost \<noteq> [] \<longrightarrow> fl_pc f = CopyEnded \<and> broken))
     \<and> (fl_pc f = CopyEnded \<and> \<not> broken \<longrightarrow> fl_buffered f = [] \<and> fl_pending f = [] \<and> fl_eof f)
     \<and> fl_write_closed f = (fl_pc f = CopyEnded)"

lemma copy_round_ok:
  assumes ok: "flow_ok broken sent f" and fault: "fault \<noteq> NoFault \<longrightarrow> broken"
  shows "flow_ok broken sent (copy_round n fault f)"
proof (cases "fl_pc f = Copying \<and> fault \<noteq> ReadFault")
  case False
  with ok fault show ?thesis by (auto simp: copy_round_def copy_ends_def flow_ok_def)
next
  case copying: True
  with ok have sent: "sent = fl_written f @ fl_buffered f @ fl_pending f" by (auto simp: flow_ok_def)
  show ?thesis
  proof (cases "conn_Read (Suc n) f")
    case None
    with ok copying show ?thesis by (simp add: copy_round_def)
  next
    case (Some p)
    obtain f' chunk where p: "p = (f', chunk)" by (cases p)
    with Some sent have f': "sent = fl_written f @ chunk @ fl_buffered f' @ fl_pending f'" "fl_written f' = fl_written f"
      "fl_pc f' = Copying" "fl_write_closed f' = fl_write_closed f"
      "chunk = [] \<longrightarrow> fl_buffered f' = [] \<and> fl_pending f' = [] \<and> fl_eof f'"
      using copying by (auto simp: conn_Read_def split: if_splits)
    then have "fl_buffered f @ fl_pending f = chunk @ fl_buffered f' @ fl_pending f'" using sent by simp
    then have "\<exists>lost. fl_buffered f @ fl_pending f = lost @ fl_buffered f' @ fl_pending f'" by blast
    with ok copying fault Some p f' show ?thesis
      by (cases fault) (auto simp: copy_round_def copy_ends_def flow_ok_def)
  qed
qed

lemma flow_ok_send:
  "flow_ok broken sent f \<Longrightarrow> \<not> fl_eof f \<Longrightarrow> flow_ok broken (sent @ bs) (f\<lparr>fl_pending := fl_pending f @ bs\<rparr>)"
  by (auto simp: flow_ok_def)

lemma flow_ok_others:
  "flow_ok broken sent f \<Longrightarrow> flow_ok broken sent (f\<lparr>fl_eof := True\<rparr>)"
  "flow_ok broken sent f \<Longrightarrow> flow_ok True sent f"
  by (auto simp: flow_ok_def)

lemma copy_round_eof [simp]: "fl_eof (copy_round n fault f) = fl_eof f"
  by (auto simp: copy_round_def copy_ends_def conn_Read_def split: option.splits)

text \<open>Both directions along a run.\<close>

lemma relay_up_ok:
  "flow_ok (rl_broken r) sent (rl_up r) \<Longrightarrow>
     flow_ok (rl_broken (relay_run r es)) (sent @ (if fl_eof (rl_up r) then [] else client_bytes es)) (rl_up (relay_run r es))"
proof (induction es arbitrary: r sent)
  case (Cons e es)
  let ?r = "relay_step r e"
  have run: "relay_run r (e # es) = relay_run ?r es" by (simp add: relay_run_def)
  have ok: "flow_ok (rl_broken ?r) (sent @ (if fl_eof (rl_up r) then [] else case e of ClientSends bs \<Rightarrow> bs | _ \<Rightarrow> [])) (rl_up ?r)"
    using Cons.prems by (cases e) (simp_all add: copy_round_ok flow_ok_send flow_ok_others faulty_def)
  from Cons.IH [OF ok] show ?case unfolding run by (cases e; cases "fl_eof (rl_up r)") auto
qed (simp add: relay_run_def)

lemma relay_down_ok:
  "flow_ok (rl_broken r) sent (rl_down r) \<Longrightarrow>
     flow_ok (rl_broken (relay_run r es)) (sent @ (if fl_eof (rl_down r) then [] else target_bytes es)) (rl_down (relay_run r es))"
proof (induction es arbitrary: r sent)
  case (Cons e es)
  let ?r = "relay_step r e"
  have run: "relay_run r (e # es) = relay_run ?r es" by (simp add: relay_run_def)
  have ok: "flow_ok (rl_broken ?r) (sent @ (if fl_eof (rl_down r) then [] else case e of TargetSends bs \<Rightarrow> bs | _ \<Rightarrow> [])) (rl_down ?r)"
    using Cons.prems by (cases e) (simp_all add: copy_round_ok flow_ok_send flow_ok_others faulty_def)
  from Cons.IH [OF ok] show ?case unfolding run by (cases e; cases "fl_eof (rl_down r)") auto
qed (simp add: relay_run_def)

lemma relay_broken: "rl_broken (relay_run r es) \<longleftrightarrow> rl_broken r \<or> Broken \<in> set es"
proof (induction es arbitrary: r)
  case (Cons e es)
  have "rl_broken (relay_step r e) \<longleftrightarrow> rl_broken r \<or> e = Broken" by (cases e) auto
  with Cons.IH [of "relay_step r e"] show ?case by (auto simp: relay_run_def)
qed (simp add: relay_run_def)

lemma relay_returned:
  assumes "rl_returned r \<longrightarrow> fl_pc (rl_up r) = CopyEnded \<and> fl_pc (rl_down r) = CopyEnded"
  shows "rl_returned (relay_run r es) \<longrightarrow>
    fl_pc (rl_up (relay_run r es)) = CopyEnded \<and> fl_pc (rl_down (relay_run r es)) = CopyEnded"
  using assms
proof (induction es arbitrary: r)
  case (Cons e es)
  have "rl_returned (relay_step r e) \<longrightarrow> fl_pc (rl_up (relay_step r e)) = CopyEnded \<and> fl_pc (rl_down (relay_step r e)) = CopyEnded"
    using Cons.prems by (cases e) (auto simp: copy_round_def)
  from Cons.IH [OF this] show ?case by (simp add: relay_run_def)
qed (simp add: relay_run_def)

text \<open>Enough rounds end a direction whose source has ended.\<close>

lemma copy_rounds_end:
  "fl_eof f \<Longrightarrow> length (fl_buffered f) + length (fl_pending f) < k \<Longrightarrow> fl_pc ((copy_round n NoFault ^^ k) f) = CopyEnded"
proof (induction k arbitrary: f)
  case (Suc k)
  let ?f = "copy_round n NoFault f"
  have idle: "(copy_round n NoFault ^^ k) g = g" if "fl_pc g = CopyEnded" for g
    using that by (induction k) (simp_all add: copy_round_def)
  show ?case
  proof (cases "fl_pc ?f = CopyEnded")
    case True
    then show ?thesis by (simp only: funpow_Suc_right o_apply idle)
  next
    case False
    then have "length (fl_buffered ?f) + length (fl_pending ?f) < length (fl_buffered f) + length (fl_pending f)"
      using Suc.prems(1) by (cases "fl_pc f")
        (auto simp: copy_round_def copy_ends_def conn_Read_def neq_Nil_conv split: if_splits)
    with Suc.IH [of ?f] Suc.prems show ?thesis by (simp only: funpow_Suc_right o_apply copy_round_eof)
  qed
qed simp

end
