(* ===== verification/Proxy_Transport.thy ===== *)
theory Proxy_Transport
  imports Breaker Rpc_Client Net_Addr
begin

section \<open>HTTP requests through the proxy\<close>

text \<open>
  \<open>internal/cli/proxy/http_transport.go\<close> with the configuration of \<open>internal/cli/proxyconfig\<close>.
  The network is a world: \<open>http.DefaultTransport.RoundTrip\<close> and \<open>http.DefaultClient.Do\<close> are
  functions on it, and so is the pair of clock readings of a breaker call. A response carries
  a mark for its request's context having been cancelled, because \<open>sendRequest\<close> cancels it.
\<close>

subsection \<open>Configuration\<close>

record ProxyRuleConfig =
  LoadBalance :: bool
  UseBreaker :: bool

record HTTPConfig =
  Enabled :: bool
  Proxies :: "string \<rightharpoonup> ProxyRuleConfig"

record Config =
  HTTP :: HTTPConfig

text \<open>The zero value, which the proxy uses without a configuration file.\<close>

definition zero_config :: Config where
  "zero_config = \<lparr>HTTP = \<lparr>Enabled = False, Proxies = Map.empty\<rparr>\<rparr>"

text \<open>\<open>os.ReadFile\<close> and \<open>yaml.Unmarshal\<close> are arguments.\<close>

definition LoadConfig_file :: "(string \<Rightarrow> string + string) \<Rightarrow> (string \<Rightarrow> string + Config) \<Rightarrow> string \<Rightarrow> string + Config" where
  "LoadConfig_file readFile unmarshal configPath =
     (case readFile configPath of
        Inl err \<Rightarrow> Inl (''failed to read config file: '' @ err)
      | Inr data \<Rightarrow> (case unmarshal data of
          Inl err \<Rightarrow> Inl (''failed to parse config file: '' @ err)
        | Inr config \<Rightarrow> Inr config))"

record Listener =
  l_cache :: ServiceCache
  l_config :: "Config option"
  l_breaker :: "Breaker option"

definition NewListener :: "ServiceCache \<Rightarrow> Config option \<Rightarrow> Breaker option \<Rightarrow> Listener" where
  "NewListener meshClient config brk = \<lparr>l_cache = meshClient, l_config = config, l_breaker = brk\<rparr>"

subsection \<open>Requests, responses and the world\<close>

record http_request =
  rq_Host :: string
  rq_URL_Scheme :: string
  rq_URL_Host :: string
  rq_RequestURI :: string
  rq_Body :: "(string + string) option"

record http_response =
  rs_StatusCode :: int
  rs_body_closed :: bool
  rs_canceled :: bool

record 'w net =
  net_RoundTrip :: "'w \<Rightarrow> http_request \<Rightarrow> 'w \<times> (string + http_response)"
  net_Do :: "'w \<Rightarrow> http_request \<Rightarrow> 'w \<times> (string + http_response)"
  net_clock :: "'w \<Rightarrow> 'w \<times> instant \<times> instant"

subsection \<open>Addresses\<close>

definition parseHost :: "string \<Rightarrow> string \<times> string \<times> bool" where
  "parseHost host =
     (let (hostname, port) =
        (case SplitHostPort host of
           Some (h, p) \<Rightarrow> (h, p)
         | None \<Rightarrow>
             if str_Count host CHR '':'' = 1 then
               (case split_last CHR '':'' host of
                  Some (a, b) \<Rightarrow> if b \<noteq> '''' then (a, b) else (host, ''80'')
                | None \<Rightarrow> (host, ''80''))
             else (host, ''80''));
        hostname' = str_Trim hostname ''[]''
      in (hostname', port, \<not> ParseIP_ok hostname'))"

definition readBody :: "http_request \<Rightarrow> string + string" where
  "readBody req = (case rq_Body req of None \<Rightarrow> Inr '''' | Some r \<Rightarrow> r)"

text \<open>The first address of every endpoint that has one, in the iteration order of the map.\<close>

definition getEndpoints :: "string list \<Rightarrow> ServiceCache \<Rightarrow> string \<Rightarrow> string list" where
  "getEndpoints order cache service =
     (case client_GetServiceIps cache service of
        None \<Rightarrow> []
      | Some eps \<Rightarrow> foldl (\<lambda>result name. case eps name of
            Some (ip # ips) \<Rightarrow> result @ [ip] | _ \<Rightarrow> result) [] order)"

subsection \<open>Forwarding\<close>

definition passThrough :: "'w net \<Rightarrow> 'w \<Rightarrow> http_request \<Rightarrow> 'w \<times> (string + http_response)" where
  "passThrough net w req =
     (let req1 = req\<lparr>rq_URL_Scheme := ''http''\<rparr>;
          req2 = (if rq_URL_Host req1 = '''' then req1\<lparr>rq_URL_Host := rq_Host req1\<rparr> else req1)
      in net_RoundTrip net w req2)"

text \<open>\<open>fmt\<close>'s verb for an integer in decimal.\<close>

fun digits :: "nat \<Rightarrow> string" where
  "digits n = (if n < 10 then [char_of (48 + n)] else digits (n div 10) @ [char_of (48 + n mod 10)])"

declare digits.simps [simp del]

definition fmt_d :: "int \<Rightarrow> string" where
  "fmt_d n = (if n < 0 then CHR ''-'' # digits (nat (- n)) else digits (nat n))"

text \<open>The deferred \<open>cancel\<close> runs when the function returns, also with a response.\<close>

definition sendRequest ::
  "'w net \<Rightarrow> 'w \<Rightarrow> http_request \<Rightarrow> string \<Rightarrow> string \<Rightarrow> string \<Rightarrow> 'w \<times> (string + http_response)" where
  "sendRequest net w req body ip port =
     (let reqCopy = req\<lparr>rq_URL_Scheme := ''http'', rq_Host := JoinHostPort ip port,
            rq_URL_Host := JoinHostPort ip port, rq_RequestURI := '''', rq_Body := Some (Inr body)\<rparr>
      in case net_Do net w reqCopy of
           (w', Inl err) \<Rightarrow> (w', Inl err)
         | (w', Inr resp) \<Rightarrow>
             if 500 \<le> rs_StatusCode resp
             then (w', Inl (''server error: '' @ fmt_d (rs_StatusCode resp)))
             else (w', Inr (resp\<lparr>rs_canceled := True\<rparr>)))"

text \<open>The class of a failed request is read off the error's text.\<close>

definition failure_metric :: "string \<Rightarrow> Metric" where
  "failure_metric errStr =
     (if str_Contains errStr ''timeout'' \<or> str_Contains errStr ''deadline exceeded'' then TIMEOUT
      else if str_Contains errStr ''connection refused'' \<or> str_Contains errStr ''network'' then NETWORK_FAILURE
      else BUSINESS_FAILURE)"

definition recordFailure :: "Breaker \<Rightarrow> string \<Rightarrow> instant \<Rightarrow> instant \<Rightarrow> string \<Rightarrow> Breaker go" where
  "recordFailure b endpoint tNew now errStr =
     (if str_Contains errStr ''timeout'' \<or> str_Contains errStr ''deadline exceeded''
      then breaker_RecordTimeout b endpoint tNew now
      else if str_Contains errStr ''connection refused'' \<or> str_Contains errStr ''network''
      then breaker_RecordNetworkFailure b endpoint tNew now
      else breaker_RecordBusinessFailure b endpoint tNew now)"

text \<open>The loop over the endpoints: breaker, world, and the response or the last resort error.\<close>

fun lb_loop ::
  "'w net \<Rightarrow> bool \<Rightarrow> http_request \<Rightarrow> string \<Rightarrow> string \<Rightarrow> string \<Rightarrow> string list \<Rightarrow> Breaker option \<Rightarrow> 'w
   \<Rightarrow> (Breaker option \<times> 'w \<times> (string + http_response)) go" where
  "lb_loop net useBreaker req body service port [] brk w =
     Inr (brk, w, Inl (''all endpoints failed for service '' @ service))"
| "lb_loop net useBreaker req body service port (endpoint # endpoints) brk w =
     (case (if useBreaker then brk else None) of
        None \<Rightarrow>
          (case sendRequest net w req body endpoint port of
             (w1, Inl err) \<Rightarrow> lb_loop net useBreaker req body service port endpoints brk w1
           | (w1, Inr resp) \<Rightarrow> Inr (brk, w1, Inr resp))
      | Some b \<Rightarrow>
          (let (w1, tNew, now) = net_clock net w in
           go_bind (breaker_Allowed b endpoint tNew now) (\<lambda>(b1, ok).
             if \<not> ok then lb_loop net useBreaker req body service port endpoints (Some b1) w1
             else case sendRequest net w1 req body endpoint port of
               (w2, Inl err) \<Rightarrow>
                 (let (w3, tNew', now') = net_clock net w2 in
                  go_bind (recordFailure b1 endpoint tNew' now' err) (\<lambda>b2.
                    lb_loop net useBreaker req body service port endpoints (Some b2) w3))
             | (w2, Inr resp) \<Rightarrow>
                 (let (w3, tNew', now') = net_clock net w2 in
                  go_bind (breaker_RecordSuccess b1 endpoint tNew' now') (\<lambda>b2.
                    Inr (Some b2, w3, Inr resp))))))"

definition loadBalance ::
  "'w net \<Rightarrow> string list \<Rightarrow> Listener \<Rightarrow> 'w \<Rightarrow> http_request \<Rightarrow> string \<Rightarrow> string \<Rightarrow> ProxyRuleConfig
   \<Rightarrow> (Listener \<times> 'w \<times> (string + http_response)) go" where
  "loadBalance net order l w req service port rule =
     (case readBody req of
        Inl err \<Rightarrow> Inr (l, w, Inl (''failed to read request body: '' @ err))
      | Inr body \<Rightarrow>
          go_bind (lb_loop net (UseBreaker rule) req body service port (getEndpoints order (l_cache l) service)
              (l_breaker l) w)
          (\<lambda>(brk, w', r). Inr (l\<lparr>l_breaker := brk\<rparr>, w', r)))"

definition RoundTrip ::
  "'w net \<Rightarrow> string list \<Rightarrow> Listener \<Rightarrow> 'w \<Rightarrow> http_request \<Rightarrow> (Listener \<times> 'w \<times> (string + http_response)) go" where
  "RoundTrip net order l w req =
     (let (svrHost, svrPort, isService) = parseHost (rq_Host req);
          pass = (let (w', r) = passThrough net w req in Inr (l, w', r))
      in if \<not> isService then pass
         else case l_config l of
           None \<Rightarrow> pass
         | Some config \<Rightarrow>
             if \<not> Enabled (HTTP config) then pass
             else case Proxies (HTTP config) svrHost of
               None \<Rightarrow> pass
             | Some proxyRule \<Rightarrow>
                 if \<not> LoadBalance proxyRule then pass
                 else loadBalance net order l w req svrHost svrPort proxyRule)"

subsection \<open>Lemmas\<close>

lemma recordFailure_eq:
  "recordFailure b endpoint tNew now errStr = breaker_record b endpoint tNew now (failure_metric errStr)"
  by (simp add: recordFailure_def failure_metric_def breaker_RecordTimeout_def
      breaker_RecordNetworkFailure_def breaker_RecordBusinessFailure_def)

text \<open>A decimal has digits and a sign only, so it adds no word to an error text.\<close>

lemma set_digits: "set (digits n) \<subseteq> {c. is_digit c}"
proof (induction n rule: digits.induct)
  case (1 n)
  have "of_char (char_of k :: char) = (k :: nat)" if "k < 256" for k
    using that by (simp add: of_char_of)
  with 1 show ?case by (subst digits.simps) (auto simp: is_digit_def)
qed

lemma set_fmt_d: "c \<in> set (fmt_d n) \<Longrightarrow> is_digit c \<or> c = CHR ''-''"
  using set_digits by (auto simp: fmt_d_def split: if_splits)

lemma Contains_set: "str_Contains s p \<Longrightarrow> set p \<subseteq> set s"
  by (auto simp: str_Contains_iff)

lemma server_error_is_business:
  "failure_metric (''server error: '' @ fmt_d n) = BUSINESS_FAILURE"
proof -
  let ?s = "''server error: '' @ fmt_d n"
  have no: "\<not> str_Contains ?s p" if "c \<in> set p" "c \<notin> set ''server error: ''" "\<not> is_digit c" "c \<noteq> CHR ''-''" for p c
  proof
    assume "str_Contains ?s p"
    with Contains_set that(1) have "c \<in> set ?s" by blast
    with that(2) have "c \<in> set (fmt_d n)" unfolding set_append by blast
    with set_fmt_d that(3,4) show False by blast
  qed
  have "\<not> str_Contains ?s ''timeout''" by (rule no [of "CHR ''t''"]) (simp_all add: is_digit_def)
  moreover have "\<not> str_Contains ?s ''network''" by (rule no [of "CHR ''w''"]) (simp_all add: is_digit_def)
  moreover have "\<not> str_Contains ?s ''deadline exceeded''" by (rule no [of "CHR ''d''"]) (simp_all add: is_digit_def)
  moreover have "\<not> str_Contains ?s ''connection refused''" by (rule no [of "CHR ''c''"]) (simp_all add: is_digit_def)
  ultimately show ?thesis by (simp add: failure_metric_def)
qed

lemma getEndpoints_map:
  "getEndpoints order cache service =
     (case cache service of None \<Rightarrow> []
      | Some e \<Rightarrow> map hd (filter (\<lambda>ips. ips \<noteq> []) (map the (filter (\<lambda>p. p \<noteq> None) (map (ev_Endpoints e) order)))))"
proof -
  have "foldl (\<lambda>result name. case eps name of Some (ip # ips) \<Rightarrow> result @ [ip] | _ \<Rightarrow> result) acc order
      = acc @ map hd (filter (\<lambda>ips. ips \<noteq> []) (map the (filter (\<lambda>p. p \<noteq> None) (map eps order))))"
    for eps :: "string \<rightharpoonup> string list" and acc
    by (induction order arbitrary: acc) (auto split: option.splits list.splits)
  then show ?thesis
    by (simp add: getEndpoints_def client_GetServiceIps_def sc_GetEndpoints_def eps_GetIps_def split: option.splits)
qed

text \<open>A network whose answers depend on the request alone; its state is the list of requests it got.\<close>

definition answering :: "(http_request \<Rightarrow> string + http_response) \<Rightarrow> instant \<Rightarrow> http_request list net" where
  "answering ans now = \<lparr>net_RoundTrip = (\<lambda>hist req. (hist @ [req], ans req)),
     net_Do = (\<lambda>hist req. (hist @ [req], ans req)),
     net_clock = (\<lambda>hist. (hist, now, now))\<rparr>"

text \<open>The request that goes to one endpoint.\<close>

definition attempt :: "http_request \<Rightarrow> string \<Rightarrow> string \<Rightarrow> string \<Rightarrow> http_request" where
  "attempt req body port ip = req\<lparr>rq_URL_Scheme := ''http'', rq_Host := JoinHostPort ip port,
     rq_URL_Host := JoinHostPort ip port, rq_RequestURI := '''', rq_Body := Some (Inr body)\<rparr>"

lemma attempt_Host [simp]: "rq_Host (attempt req body port ip) = JoinHostPort ip port"
  by (simp add: attempt_def)

definition good_answer :: "string + http_response \<Rightarrow> bool" where
  "good_answer r \<longleftrightarrow> (case r of Inl err \<Rightarrow> False | Inr resp \<Rightarrow> rs_StatusCode resp < 500)"

lemma send_answering:
  "sendRequest (answering ans now) hist req body ip port =
     (hist @ [attempt req body port ip],
      case ans (attempt req body port ip) of
        Inl err \<Rightarrow> Inl err
      | Inr resp \<Rightarrow> if 500 \<le> rs_StatusCode resp then Inl (''server error: '' @ fmt_d (rs_StatusCode resp)) else Inr (resp\<lparr>rs_canceled := True\<rparr>))"
  by (simp add: sendRequest_def answering_def attempt_def split: sum.splits)

lemma lb_plain:
  assumes "useBreaker \<longrightarrow> brk = None"
  shows "lb_loop (answering ans now) useBreaker req body service port eps brk hist =
    Inr (brk, hist @ map (\<lambda>e. attempt req body port e)
        (takeWhile (\<lambda>e. \<not> good_answer (ans (attempt req body port e))) eps
         @ take 1 (dropWhile (\<lambda>e. \<not> good_answer (ans (attempt req body port e))) eps)),
      case dropWhile (\<lambda>e. \<not> good_answer (ans (attempt req body port e))) eps of
        [] \<Rightarrow> Inl (''all endpoints failed for service '' @ service)
      | e # _ \<Rightarrow> map_sum id (\<lambda>resp. resp\<lparr>rs_canceled := True\<rparr>) (ans (attempt req body port e)))"
proof (induction eps arbitrary: hist)
  case (Cons e eps)
  have none: "(if useBreaker then brk else None) = None" using assms by simp
  show ?case
  proof (cases "ans (attempt req body port e)")
    case (Inl err)
    with none Cons.IH show ?thesis by (simp add: send_answering good_answer_def)
  next
    case (Inr resp)
    show ?thesis
    proof (cases "500 \<le> rs_StatusCode resp")
      case True
      with none Inr Cons.IH show ?thesis by (simp add: send_answering good_answer_def)
    next
      case False
      with none Inr show ?thesis by (simp add: send_answering good_answer_def)
    qed
  qed
qed simp

text \<open>The loop keeps the breaker's invariant, and leaves an open circuit alone.\<close>

lemma breaker_ops_total:
  assumes "breaker_inv b"
  shows "\<exists>b1 ok. breaker_Allowed b k tNew now = Inr (b1, ok) \<and> breaker_inv b1"
    "\<exists>b1. breaker_record b k tNew now m = Inr b1 \<and> breaker_inv b1"
proof -
  from br.inv_step [OF assms, of "(k, tNew, OAllowed now)"]
  show "\<exists>b1 ok. breaker_Allowed b k tNew now = Inr (b1, ok) \<and> breaker_inv b1"
    by (auto simp: go_bind_Inr_iff)
  from br.inv_step [OF assms, of "(k, tNew, ORecord now m)"]
  show "\<exists>b1. breaker_record b k tNew now m = Inr b1 \<and> breaker_inv b1"
    by (auto simp: go_bind_Inr_iff)
qed

lemma allowed_other:
  "breaker_Allowed b k tNew now = Inr (b1, ok) \<Longrightarrow> j \<noteq> k \<Longrightarrow> breakers b1 j = breakers b j"
  "breaker_record b k tNew now m = Inr b1 \<Longrightarrow> j \<noteq> k \<Longrightarrow> breakers b1 j = breakers b j"
  by (auto simp: breaker_Allowed_def breaker_record_def go_bind_Inr_iff)

lemma allowed_open:
  assumes inv: "breaker_inv b" and s: "breakers b k = Some s" "state s = StateOpen" "now \<le> openUntil s"
  shows "\<exists>b1 s1. breaker_Allowed b k tNew now = Inr (b1, False) \<and> breakers b1 k = Some s1
    \<and> state s1 = StateOpen \<and> openUntil s1 = openUntil s"
proof -
  from inv s(1) have "sb_inv s" by (simp add: breaker_inv_def)
  from open_step [OF this s(2), of "OAllowed now"] s(3) obtain s1 x where
    "sub_step s (OAllowed now) = Inr (s1, x)" "x \<noteq> Some True" "state s1 = StateOpen" "openUntil s1 = openUntil s" by auto
  then have "allowed s now = Inr (s1, False)" by (auto simp: go_bind_Inr_iff)
  with s(1) \<open>state s1 = StateOpen\<close> \<open>openUntil s1 = openUntil s\<close> show ?thesis
    by (simp add: breaker_Allowed_def breaker_sub_def)
qed

lemma JoinHostPort_eq: "JoinHostPort h p = JoinHostPort h' p \<Longrightarrow> h = h'"
proof -
  assume e: "JoinHostPort h p = JoinHostPort h' p"
  have mixed: "\<not> (CHR '':'' \<in> set a \<and> CHR '':'' \<notin> set b \<and> JoinHostPort a p = JoinHostPort b p)" for a b
  proof
    assume m: "CHR '':'' \<in> set a \<and> CHR '':'' \<notin> set b \<and> JoinHostPort a p = JoinHostPort b p"
    then have "JoinHostPort a p = (CHR ''['' # a @ [CHR '']'']) @ CHR '':'' # p"
      "JoinHostPort b p = b @ CHR '':'' # p" by (simp_all add: JoinHostPort_def)
    with m have "(CHR ''['' # a @ [CHR '']'']) @ CHR '':'' # p = b @ CHR '':'' # p" by metis
    then have "CHR ''['' # a @ [CHR '']''] = b" by (simp only: append_same_eq)
    with m show False by auto
  qed
  show "h = h'"
  proof (cases "CHR '':'' \<in> set h \<longleftrightarrow> CHR '':'' \<in> set h'")
    case True
    with e show ?thesis by (auto simp: JoinHostPort_def split: if_splits)
  next
    case False
    with e mixed [of h h'] mixed [of h' h] show ?thesis by auto
  qed
qed

lemma lb_breaker:
  "breaker_inv b \<Longrightarrow> \<exists>b' hist' r. lb_loop (answering ans now) True req body service port eps (Some b) hist = Inr (Some b', hist @ hist', r)
     \<and> breaker_inv b' \<and> set hist' \<subseteq> attempt req body port ` set eps
     \<and> (\<forall>k s. breakers b k = Some s \<longrightarrow> state s = StateOpen \<longrightarrow> now \<le> openUntil s \<longrightarrow>
          (\<exists>s'. breakers b' k = Some s' \<and> state s' = StateOpen \<and> openUntil s' = openUntil s)
          \<and> JoinHostPort k port \<notin> rq_Host ` set hist')"
proof (induction eps arbitrary: b hist)
  case Nil
  then show ?case by auto
next
  case (Cons e eps)
  let ?net = "answering ans now" and ?h = "attempt req body port"
  have clock: "net_clock ?net hist = (hist, now, now)" for hist by (simp add: answering_def)
  from breaker_ops_total(1) [OF Cons.prems, of e now now] obtain b1 ok where
    b1: "breaker_Allowed b e now now = Inr (b1, ok)" "breaker_inv b1" by blast
  have open1: "ok = False \<or> k \<noteq> e" "\<exists>s1. breakers b1 k = Some s1 \<and> state s1 = StateOpen \<and> openUntil s1 = openUntil s"
    if "breakers b k = Some s" "state s = StateOpen" "now \<le> openUntil s" for k s
    using allowed_open [OF Cons.prems that, of now] allowed_other(1) [OF b1(1), of k] b1(1) that
    by (cases "k = e"; auto)+
  show ?case
  proof (cases ok)
    case False
    from Cons.IH [OF b1(2), of hist] obtain b' hist' r where
      ih: "lb_loop ?net True req body service port eps (Some b1) hist = Inr (Some b', hist @ hist', r)"
        "breaker_inv b'" "set hist' \<subseteq> ?h ` set eps"
        "\<forall>k s. breakers b1 k = Some s \<longrightarrow> state s = StateOpen \<longrightarrow> now \<le> openUntil s \<longrightarrow>
          (\<exists>s'. breakers b' k = Some s' \<and> state s' = StateOpen \<and> openUntil s' = openUntil s)
          \<and> JoinHostPort k port \<notin> rq_Host ` set hist'" by blast
    have run: "lb_loop ?net True req body service port (e # eps) (Some b) hist = Inr (Some b', hist @ hist', r)"
      using b1(1) False ih(1) clock by simp
    have "(\<exists>s'. breakers b' k = Some s' \<and> state s' = StateOpen \<and> openUntil s' = openUntil s) \<and> JoinHostPort k port \<notin> rq_Host ` set hist'"
      if "breakers b k = Some s" "state s = StateOpen" "now \<le> openUntil s" for k s
    proof -
      from open1(2) [OF that] obtain s1 where
        "breakers b1 k = Some s1" "state s1 = StateOpen" "openUntil s1 = openUntil s" by blast
      with ih(4) that(3) show ?thesis by metis
    qed
    moreover have "set hist' \<subseteq> ?h ` set (e # eps)" using ih(3) by auto
    ultimately show ?thesis using run ih(2) by blast
  next
    case True
    define m where "m = (case ans (?h e) of Inl err \<Rightarrow> failure_metric err
      | Inr resp \<Rightarrow> if 500 \<le> rs_StatusCode resp then failure_metric (''server error: '' @ fmt_d (rs_StatusCode resp)) else SUCCESS)"
    from breaker_ops_total(2) [OF b1(2), of e now now m] obtain b2 where
      b2: "breaker_record b1 e now now m = Inr b2" "breaker_inv b2" by blast
    have open2: "k \<noteq> e" "\<exists>s1. breakers b2 k = Some s1 \<and> state s1 = StateOpen \<and> openUntil s1 = openUntil s"
      if "breakers b k = Some s" "state s = StateOpen" "now \<le> openUntil s" for k s
      using open1 [OF that] True allowed_other(2) [OF b2(1), of k] by auto
    from Cons.IH [OF b2(2), of "hist @ [?h e]"] obtain b' hist' r where
      ih: "lb_loop ?net True req body service port eps (Some b2) (hist @ [?h e]) = Inr (Some b', (hist @ [?h e]) @ hist', r)"
        "breaker_inv b'" "set hist' \<subseteq> ?h ` set eps"
        "\<forall>k s. breakers b2 k = Some s \<longrightarrow> state s = StateOpen \<longrightarrow> now \<le> openUntil s \<longrightarrow>
          (\<exists>s'. breakers b' k = Some s' \<and> state s' = StateOpen \<and> openUntil s' = openUntil s)
          \<and> JoinHostPort k port \<notin> rq_Host ` set hist'" by blast
    define good where "good = (\<exists>resp. ans (?h e) = Inr resp \<and> \<not> 500 \<le> rs_StatusCode resp)"
    obtain b3 hist3 r3 where
      run: "lb_loop ?net True req body service port (e # eps) (Some b) hist = Inr (Some b3, hist @ (?h e # hist3), r3)"
        "(good \<and> b3 = b2 \<and> hist3 = []) \<or> (\<not> good \<and> b3 = b' \<and> hist3 = hist')"
    proof (cases "ans (?h e)")
      case (Inl err)
      with b1(1) True b2(1) ih(1) clock that show ?thesis
        by (simp add: send_answering m_def good_def recordFailure_eq)
    next
      case (Inr resp)
      with b1(1) True b2(1) ih(1) clock that show ?thesis
        by (cases "500 \<le> rs_StatusCode resp")
          (simp_all add: send_answering m_def good_def recordFailure_eq breaker_RecordSuccess_def)
    qed
    have "(\<exists>s'. breakers b3 k = Some s' \<and> state s' = StateOpen \<and> openUntil s' = openUntil s)
        \<and> JoinHostPort k port \<notin> rq_Host ` set (?h e # hist3)"
      if "breakers b k = Some s" "state s = StateOpen" "now \<le> openUntil s" for k s
    proof -
      from open2(2) [OF that] obtain s1 where s1:
        "breakers b2 k = Some s1" "state s1 = StateOpen" "openUntil s1 = openUntil s" by blast
      have "JoinHostPort k port \<noteq> JoinHostPort e port" using open2(1) [OF that] JoinHostPort_eq by blast
      moreover from ih(4) s1 that(3) have
        "(\<exists>s'. breakers b' k = Some s' \<and> state s' = StateOpen \<and> openUntil s' = openUntil s) \<and> JoinHostPort k port \<notin> rq_Host ` set hist'"
        by metis
      ultimately show ?thesis using run(2) s1 by auto
    qed
    moreover have "set (?h e # hist3) \<subseteq> ?h ` set (e # eps)" using run(2) ih(3) by auto
    moreover have "breaker_inv b3" using run(2) ih(2) b2(2) by auto
    ultimately show ?thesis using run(1) by blast
  qed
qed

end
