(* ===== verification/Http_Conn.thy ===== *)
theory Http_Conn
  imports Proxy_Listener Proxy_Transport
begin

section \<open>An HTTP connection\<close>

text \<open>
  \<open>handleHTTP\<close> and \<open>httpConn\<close> of \<open>internal/cli/proxy/listener.go\<close>. An \<open>http.Server\<close> serves
  the listener that hands out the connection: \<open>Serve\<close> accepts, starts a goroutine for what
  it accepted, accepts again, and returns at the first error that is not temporary,
  closing the listener. The deferred calls then close the connection. The goroutine reads a
  request, passes it to the reverse proxy, writes the answer, and reads the next one; a
  read or write on a closed connection ends it, a panic of the handler ends it too (the
  server recovers it and closes the connection).
\<close>

subsection \<open>The reverse proxy\<close>

text \<open>
  The director leaves the request as it is; what \<open>RoundTrip\<close> answers goes to the client, and
  for an error the error handler answers 502.
\<close>

definition bad_gateway :: http_response where
  "bad_gateway = \<lparr>rs_StatusCode = 502, rs_body_closed = False, rs_canceled = False\<rparr>"

definition answer_of :: "string + http_response \<Rightarrow> http_response" where
  "answer_of r = (case r of Inl err \<Rightarrow> bad_gateway | Inr resp \<Rightarrow> resp)"

definition proxy_ServeHTTP ::
  "'w net \<Rightarrow> string list \<Rightarrow> Listener \<Rightarrow> 'w \<Rightarrow> http_request \<Rightarrow> (Listener \<times> 'w \<times> http_response) go" where
  "proxy_ServeHTTP net order l w req =
     go_bind (RoundTrip net order l w req) (\<lambda>(l', w', r). Inr (l', w', answer_of r))"

subsection \<open>The goroutines\<close>

datatype serving = Reading | Forwarding http_request | Answering http_response | Gone

datatype http_pc = Accepting | ServeReturned | HandlerReturned | ConnReturned

record ('c, 'w) http_conn =
  hc_listener :: "'c singleConnListener"
  hc_pc :: http_pc
  hc_goroutines :: "serving list"
  hc_open :: bool
  hc_proxy :: Listener
  hc_world :: 'w
  hc_answered :: "http_response list"

definition handleHTTP_start :: "Listener \<Rightarrow> 'w \<Rightarrow> 'c \<Rightarrow> ('c, 'w) http_conn" where
  "handleHTTP_start l w conn = \<lparr>hc_listener = newSingleConnListener (Some conn), hc_pc = Accepting, hc_goroutines = [],
     hc_open = True, hc_proxy = l, hc_world = w, hc_answered = []\<rparr>"

text \<open>The steps of \<open>Serve\<close>, then the deferred closes of \<open>handleHTTP\<close> and of \<open>handleConnection\<close>.\<close>

definition http_main :: "('c, 'w) http_conn \<Rightarrow> ('c, 'w) http_conn go" where
  "http_main s =
     (case hc_pc s of
        Accepting \<Rightarrow>
          go_bind (sl_Accept (hc_listener s)) (\<lambda>(l, conn). case conn of
              Some c \<Rightarrow> Inr (s\<lparr>hc_listener := l, hc_goroutines := hc_goroutines s @ [Reading]\<rparr>)
            | None \<Rightarrow> go_bind (sl_Close l) (\<lambda>l'. Inr (s\<lparr>hc_listener := l', hc_pc := ServeReturned\<rparr>)))
      | ServeReturned \<Rightarrow> Inr (s\<lparr>hc_open := False, hc_pc := HandlerReturned\<rparr>)
      | HandlerReturned \<Rightarrow> Inr (s\<lparr>hc_open := False, hc_pc := ConnReturned\<rparr>)
      | ConnReturned \<Rightarrow> Inr s)"

text \<open>
  The steps of a serving goroutine. \<open>None\<close>: the client ended its side, or the read timed out.
\<close>

definition serve_read :: "http_request option \<Rightarrow> ('c, 'w) http_conn \<Rightarrow> nat \<Rightarrow> ('c, 'w) http_conn" where
  "serve_read r s i =
     (case r of
        Some req \<Rightarrow>
          if hc_open s then s\<lparr>hc_goroutines := (hc_goroutines s)[i := Forwarding req]\<rparr>
          else s\<lparr>hc_goroutines := (hc_goroutines s)[i := Gone]\<rparr>
      | None \<Rightarrow> s\<lparr>hc_goroutines := (hc_goroutines s)[i := Gone], hc_open := False\<rparr>)"

definition serve_forward ::
  "'w net \<Rightarrow> string list \<Rightarrow> http_request \<Rightarrow> ('c, 'w) http_conn \<Rightarrow> nat \<Rightarrow> ('c, 'w) http_conn" where
  "serve_forward net order req s i =
     (case proxy_ServeHTTP net order (hc_proxy s) (hc_world s) req of
        Inl p \<Rightarrow> s\<lparr>hc_goroutines := (hc_goroutines s)[i := Gone], hc_open := False\<rparr>
      | Inr (l, w, resp) \<Rightarrow>
          s\<lparr>hc_proxy := l, hc_world := w, hc_goroutines := (hc_goroutines s)[i := Answering resp]\<rparr>)"

definition serve_answer :: "http_response \<Rightarrow> ('c, 'w) http_conn \<Rightarrow> nat \<Rightarrow> ('c, 'w) http_conn" where
  "serve_answer resp s i =
     (if hc_open s
      then s\<lparr>hc_answered := hc_answered s @ [resp], hc_goroutines := (hc_goroutines s)[i := Reading]\<rparr>
      else s\<lparr>hc_goroutines := (hc_goroutines s)[i := Gone]\<rparr>)"

text \<open>A step of the goroutine with the index given; the read's result is used when it reads.\<close>

datatype http_op = HMain | HServe nat "http_request option"

definition http_serve :: "'w net \<Rightarrow> string list \<Rightarrow> http_request option \<Rightarrow> ('c, 'w) http_conn \<Rightarrow> nat \<Rightarrow> ('c, 'w) http_conn" where
  "http_serve net order r s i =
     (if i < length (hc_goroutines s) then
        case hc_goroutines s ! i of
          Reading \<Rightarrow> serve_read r s i
        | Forwarding req \<Rightarrow> serve_forward net order req s i
        | Answering resp \<Rightarrow> serve_answer resp s i
        | Gone \<Rightarrow> s
      else s)"

fun http_step :: "'w net \<Rightarrow> string list \<Rightarrow> ('c, 'w) http_conn \<Rightarrow> http_op \<Rightarrow> (('c, 'w) http_conn \<times> unit) go" where
  "http_step net order s HMain = go_bind (http_main s) (\<lambda>s'. Inr (s', ()))"
| "http_step net order s (HServe i r) = Inr (http_serve net order r s i, ())"

lemma http_serve_frame:
  "hc_listener (http_serve net order r s i) = hc_listener s \<and> hc_pc (http_serve net order r s i) = hc_pc s
   \<and> length (hc_goroutines (http_serve net order r s i)) = length (hc_goroutines s)
   \<and> (\<not> hc_open s \<longrightarrow> \<not> hc_open (http_serve net order r s i) \<and> hc_answered (http_serve net order r s i) = hc_answered s)"
  by (auto simp: http_serve_def serve_read_def serve_forward_def serve_answer_def
      split: serving.splits option.splits sum.splits prod.splits)

subsection \<open>Invariant\<close>

text \<open>
  How far the main goroutine is, as the number of its steps: one goroutine serves after the
  first, \<open>Serve\<close> has returned after the second, the connection is closed after the third.
\<close>

definition http_at :: "nat \<Rightarrow> ('c, 'w) http_conn \<Rightarrow> bool" where
  "http_at k s \<longleftrightarrow> sl_inv (hc_listener s) \<and> sl_conn (hc_listener s) \<noteq> None
     \<and> length (hc_goroutines s) = min 1 k \<and> sl_closed (hc_listener s) = (0 < k)
     \<and> hc_pc s = (if k < 2 then Accepting else if k = 2 then ServeReturned else if k = 3 then HandlerReturned else ConnReturned)
     \<and> (3 \<le> k \<longrightarrow> \<not> hc_open s)"

lemma http_at_start: "http_at 0 (handleHTTP_start l w conn)"
  by (simp add: http_at_def handleHTTP_start_def newSingleConnListener_def sl_inv_def)

lemma http_main_at:
  assumes "http_at k s"
  shows "\<exists>s'. http_main s = Inr s' \<and> http_at (Suc k) s' \<and> hc_answered s' = hc_answered s"
proof -
  consider "k = 0" | "k = 1" | "k = 2" | "3 \<le> k" by linarith
  then show ?thesis
    using assms by cases (auto simp: http_at_def http_main_def sl_Accept_def sl_Close_def sl_close_done_def sl_inv_def)
qed

lemma http_serve_at: "http_at k s \<Longrightarrow> http_at k (http_serve net order r s i)"
  using http_serve_frame [of net order r s i] by (auto simp: http_at_def)

text \<open>A run: no panic, and nothing is answered once the connection is closed.\<close>

lemma http_run:
  "http_at k s \<Longrightarrow> \<exists>s' ys. go_run (http_step net order) s ops = Inr (s', ys) \<and> http_at (k + count_list ops HMain) s'
     \<and> (3 \<le> k \<longrightarrow> hc_answered s' = hc_answered s)"
proof (induction ops arbitrary: k s)
  case (Cons e ops)
  show ?case
  proof (cases e)
    case HMain
    from http_main_at [OF Cons.prems] obtain s1 where
      s1: "http_main s = Inr s1" "http_at (Suc k) s1" "hc_answered s1 = hc_answered s" by blast
    from Cons.IH [OF s1(2)] s1 HMain show ?thesis by auto
  next
    case (HServe i r)
    let ?s1 = "http_serve net order r s i"
    have "3 \<le> k \<longrightarrow> hc_answered ?s1 = hc_answered s"
      using Cons.prems http_serve_frame [of net order r s i] by (auto simp: http_at_def)
    with Cons.IH [OF http_serve_at [OF Cons.prems, of net order r i]] HServe show ?thesis by auto
  qed
qed simp

end
