(* ===== verification/Stg_Server.thy ===== *)
theory Stg_Server
  imports Rpc_Client
begin

section \<open>The sidecar's subscription API\<close>

text \<open>
  \<open>internal/cli/stgsvr/handlers.go\<close> and \<open>service_context.go\<close>: an HTTP API to subscribe to a
  service and to unsubscribe. Each subscription gets a context, kept in a map with its cancel
  function; a context is an index here, with a mark for cancelled. The result of the gRPC
  call that \<open>client.Subscribe\<close> makes is an argument. A chain of handlers ends at the first
  that aborts.
\<close>

record StgServer =
  ctxMap :: "string \<rightharpoonup> nat"
  contexts :: "bool list"
  stg_cache :: ServiceCache

definition NewStgServer :: StgServer where
  "NewStgServer = \<lparr>ctxMap = Map.empty, contexts = [], stg_cache = NewServiceCache\<rparr>"

definition NewServiceContext :: "StgServer \<Rightarrow> string \<Rightarrow> StgServer \<times> nat" where
  "NewServiceContext s serviceName =
     (s\<lparr>contexts := contexts s @ [False], ctxMap := (ctxMap s)(serviceName \<mapsto> length (contexts s))\<rparr>,
      length (contexts s))"

definition cancel_context :: "StgServer \<Rightarrow> nat \<Rightarrow> StgServer" where
  "cancel_context s c = s\<lparr>contexts := (contexts s)[c := True]\<rparr>"

definition CancelServiceContext :: "StgServer \<Rightarrow> string \<Rightarrow> StgServer" where
  "CancelServiceContext s serviceName =
     (case ctxMap s serviceName of
        None \<Rightarrow> s
      | Some c \<Rightarrow> (cancel_context s c)\<lparr>ctxMap := (ctxMap s)(serviceName := None)\<rparr>)"

definition GetCancel :: "StgServer \<Rightarrow> string \<Rightarrow> nat option" where
  "GetCancel s serviceName = ctxMap s serviceName"

definition stg_subscribe :: "StgServer \<Rightarrow> string \<Rightarrow> string option \<Rightarrow> StgServer \<times> string option" where
  "stg_subscribe s serviceName rpcErr =
     (let (s', ctx) = NewServiceContext s serviceName in (s', rpcErr))"

definition stg_unsubscribe :: "StgServer \<Rightarrow> string \<Rightarrow> StgServer \<times> string option" where
  "stg_unsubscribe s serviceName =
     (case GetCancel s serviceName of
        None \<Rightarrow> (s, Some (''service '' @ serviceName @ '' not found''))
      | Some c \<Rightarrow>
          (let s1 = cancel_context s c; (cache, err) = client_Unsubscribe (stg_cache s1) serviceName
           in (s1\<lparr>stg_cache := cache\<rparr>, err)))"

text \<open>The two handlers of each chain; the result is the HTTP status.\<close>

definition subscribeChain :: "StgServer \<Rightarrow> string \<Rightarrow> string option \<Rightarrow> StgServer \<times> nat" where
  "subscribeChain s serviceName rpcErr =
     (if serviceName = '''' then (s, 400)
      else if GetCancel s serviceName \<noteq> None then (s, 400)
      else case stg_subscribe s serviceName rpcErr of
        (s', Some err) \<Rightarrow> (s', 500) | (s', None) \<Rightarrow> (s', 200))"

definition unsubscribeChain :: "StgServer \<Rightarrow> string \<Rightarrow> StgServer \<times> nat" where
  "unsubscribeChain s serviceName =
     (if serviceName = '''' then (s, 400)
      else case stg_unsubscribe s serviceName of
        (s', Some err) \<Rightarrow> (s', 500) | (s', None) \<Rightarrow> (s', 200))"

datatype stg_op = StgPost string "string option" | StgDelete string

fun stg_step :: "StgServer \<Rightarrow> stg_op \<Rightarrow> StgServer \<times> nat" where
  "stg_step s (StgPost svc rpcErr) = subscribeChain s svc rpcErr"
| "stg_step s (StgDelete svc) = unsubscribeChain s svc"

text \<open>A name never leaves the map.\<close>

lemma stg_step_keeps: "ctxMap s svc \<noteq> None \<Longrightarrow> ctxMap (fst (stg_step s e)) svc \<noteq> None"
  by (cases e) (auto simp: subscribeChain_def unsubscribeChain_def stg_subscribe_def stg_unsubscribe_def
      NewServiceContext_def cancel_context_def client_Unsubscribe_def Let_def split: option.splits)

lemma stg_run_keeps: "ctxMap s svc \<noteq> None \<Longrightarrow> ctxMap (fst (pure_run stg_step s es)) svc \<noteq> None"
proof (induction es arbitrary: s)
  case (Cons e es)
  obtain s1 x where s1: "stg_step s e = (s1, x)" by (cases "stg_step s e")
  with stg_step_keeps [OF Cons.prems, of e] have "ctxMap s1 svc \<noteq> None" by simp
  with Cons.IH [of s1] s1 show ?case by (auto split: prod.splits)
qed simp

text \<open>A context kept in the map exists, and a successful unsubscription cancels it.\<close>

definition stg_inv :: "StgServer \<Rightarrow> bool" where
  "stg_inv s \<longleftrightarrow> (\<forall>svc c. ctxMap s svc = Some c \<longrightarrow> c < length (contexts s))"

lemma stg_step_inv: "stg_inv s \<Longrightarrow> stg_inv (fst (stg_step s e))"
  by (cases e) (fastforce simp: stg_inv_def subscribeChain_def unsubscribeChain_def stg_subscribe_def stg_unsubscribe_def
      NewServiceContext_def cancel_context_def client_Unsubscribe_def Let_def
      split: option.splits prod.splits if_splits)+

lemma stg_run_inv: "stg_inv s \<Longrightarrow> stg_inv (fst (pure_run stg_step s es))"
proof (induction es arbitrary: s)
  case (Cons e es)
  obtain s1 x where s1: "stg_step s e = (s1, x)" by (cases "stg_step s e")
  with stg_step_inv [OF Cons.prems, of e] have "stg_inv s1" by simp
  with Cons.IH [of s1] s1 show ?case by (auto split: prod.splits)
qed simp

lemma stg_post_known:
  "svc \<noteq> '''' \<Longrightarrow> StgPost svc r \<in> set es \<Longrightarrow> ctxMap (fst (pure_run stg_step s es)) svc \<noteq> None"
proof (induction es arbitrary: s)
  case (Cons e es)
  obtain s1 x where s1: "stg_step s e = (s1, x)" by (cases "stg_step s e")
  have "ctxMap (fst (pure_run stg_step s1 es)) svc \<noteq> None"
  proof (cases "e = StgPost svc r")
    case True
    with s1 Cons.prems(1) have "ctxMap s1 svc \<noteq> None"
      by (auto simp: subscribeChain_def stg_subscribe_def NewServiceContext_def GetCancel_def Let_def
          split: option.splits if_splits)
    then show ?thesis by (rule stg_run_keeps)
  next
    case False
    with Cons.prems Cons.IH show ?thesis by simp
  qed
  with s1 show ?case by (auto split: prod.splits)
qed simp

end
