(* ===== verification/Client_Runs.thy ===== *)
theory Client_Runs
  imports Stg_Server
begin

section \<open>Subscriptions and their goroutines\<close>

text \<open>
  \<open>MeshClient.Subscribe\<close> of \<open>internal/cli/rpcclient/client.go\<close> starts a goroutine that receives
  events and applies them to the cache. Here these goroutines are interleaved with the requests
  of the subscription API, which the library serves in goroutines of their own. A subscription
  request is cut where other goroutines can come between: after the check that the name is not
  in the map, after the context is made, and after the gRPC call. An unsubscription is one
  step. Between the return of \<open>Recv\<close> and the change of the cache anything may happen. The
  library's \<open>Recv\<close> fails once its context is cancelled; what it returns before is an argument
  of the step, and so is the error of the gRPC call.
\<close>

datatype post_pc = Checked | WithContext nat | Answered nat

record post_request =
  pq_service :: string
  pq_pc :: post_pc

datatype recv_pc = Receiving | Applying ClientSubscriptionEvent | Ended

record receiver =
  rv_service :: string
  rv_ctx :: nat
  rv_pc :: recv_pc

record stg_program =
  sg_stg :: StgServer
  sg_posts :: "post_request list"
  sg_receivers :: "receiver list"

definition NewStgProgram :: stg_program where
  "NewStgProgram = \<lparr>sg_stg = NewStgServer, sg_posts = [], sg_receivers = []\<rparr>"

definition set_receiver :: "stg_program \<Rightarrow> nat \<Rightarrow> receiver \<Rightarrow> stg_program" where
  "set_receiver p i r = p\<lparr>sg_receivers := (sg_receivers p)[i := r]\<rparr>"

text \<open>A subscription request arrives and is checked; then its goroutine goes on.\<close>

definition sg_post :: "stg_program \<Rightarrow> string \<Rightarrow> stg_program" where
  "sg_post p svc = p\<lparr>sg_posts := sg_posts p @
     [\<lparr>pq_service = svc,
       pq_pc = (if svc = '''' then Answered 400
                else if GetCancel (sg_stg p) svc \<noteq> None then Answered 400 else Checked)\<rparr>]\<rparr>"

definition post_step :: "string option \<Rightarrow> stg_program \<Rightarrow> nat \<Rightarrow> stg_program" where
  "post_step rpcErr p i =
     (if i < length (sg_posts p) then
        let q = sg_posts p ! i in
        case pq_pc q of
          Checked \<Rightarrow>
            (let (s, ctx) = NewServiceContext (sg_stg p) (pq_service q)
             in p\<lparr>sg_stg := s, sg_posts := (sg_posts p)[i := q\<lparr>pq_pc := WithContext ctx\<rparr>]\<rparr>)
        | WithContext ctx \<Rightarrow>
            (case rpcErr of
               Some err \<Rightarrow> p\<lparr>sg_posts := (sg_posts p)[i := q\<lparr>pq_pc := Answered 500\<rparr>]\<rparr>
             | None \<Rightarrow> p\<lparr>sg_posts := (sg_posts p)[i := q\<lparr>pq_pc := Answered 200\<rparr>],
                 sg_receivers := sg_receivers p @ [\<lparr>rv_service = pq_service q, rv_ctx = ctx, rv_pc = Receiving\<rparr>]\<rparr>)
        | Answered code \<Rightarrow> p
      else p)"

definition sg_delete :: "stg_program \<Rightarrow> string \<Rightarrow> stg_program \<times> nat" where
  "sg_delete p svc = (let (s, code) = unsubscribeChain (sg_stg p) svc in (p\<lparr>sg_stg := s\<rparr>, code))"

text \<open>One step of a goroutine: \<open>Recv\<close> returns, or the event is applied.\<close>

definition receiver_step :: "string + ClientSubscriptionEvent \<Rightarrow> stg_program \<Rightarrow> nat \<Rightarrow> stg_program" where
  "receiver_step result p i =
     (if i < length (sg_receivers p) then
        let r = sg_receivers p ! i in
        case rv_pc r of
          Receiving \<Rightarrow>
            (if contexts (sg_stg p) ! rv_ctx r then set_receiver p i (r\<lparr>rv_pc := Ended\<rparr>)
             else case result of
               Inl err \<Rightarrow> set_receiver p i (r\<lparr>rv_pc := Ended\<rparr>)
             | Inr event \<Rightarrow> set_receiver p i (r\<lparr>rv_pc := Applying event\<rparr>))
        | Applying event \<Rightarrow>
            set_receiver (p\<lparr>sg_stg := (sg_stg p)\<lparr>stg_cache := client_event (rv_service r) (stg_cache (sg_stg p)) event\<rparr>\<rparr>)
              i (r\<lparr>rv_pc := Receiving\<rparr>)
        | Ended \<Rightarrow> p
      else p)"

datatype sg_op =
    SgPost string
  | SgPostGoes nat "string option"
  | SgDelete string
  | SgGoes nat "string + ClientSubscriptionEvent"

fun sg_step :: "stg_program \<Rightarrow> sg_op \<Rightarrow> stg_program \<times> nat option" where
  "sg_step p (SgPost svc) = (sg_post p svc, None)"
| "sg_step p (SgPostGoes i rpcErr) = (post_step rpcErr p i, None)"
| "sg_step p (SgDelete svc) = (case sg_delete p svc of (p', code) \<Rightarrow> (p', Some code))"
| "sg_step p (SgGoes i result) = (receiver_step result p i, None)"

text \<open>A request that nothing comes between is \<open>subscribeChain\<close>.\<close>

lemma post_serial:
  "let p' = fst (pure_run sg_step p [SgPost svc, SgPostGoes (length (sg_posts p)) rpcErr, SgPostGoes (length (sg_posts p)) rpcErr])
   in (sg_stg p', pq_pc (last (sg_posts p'))) = (case subscribeChain (sg_stg p) svc rpcErr of (s, code) \<Rightarrow> (s, Answered code))
     \<and> butlast (sg_posts p') = sg_posts p"
  by (auto simp: sg_post_def post_step_def subscribeChain_def stg_subscribe_def NewServiceContext_def GetCancel_def Let_def
      split: option.splits)

subsection \<open>The contexts\<close>

definition sg_inv :: "stg_program \<Rightarrow> bool" where
  "sg_inv p \<longleftrightarrow> stg_inv (sg_stg p)"

lemma NewStgProgram_inv: "sg_inv NewStgProgram"
  by (simp add: sg_inv_def NewStgProgram_def NewStgServer_def stg_inv_def)

text \<open>What an unsubscription does to the server's state.\<close>

lemma delete_cases:
  obtains (refused) code where "unsubscribeChain s svc = (s, code)" "code \<noteq> 200"
  | (cancelled) c where "ctxMap s svc = Some c"
      "unsubscribeChain s svc = (s\<lparr>contexts := (contexts s)[c := True], stg_cache := (stg_cache s)(svc := None)\<rparr>, 200)"
proof -
  show ?thesis
  proof (cases "svc = '''' \<or> ctxMap s svc = None")
    case True
    then show ?thesis
      by (cases "svc = ''''") (auto intro: refused simp: unsubscribeChain_def stg_unsubscribe_def GetCancel_def)
  next
    case False
    then obtain c where "ctxMap s svc = Some c" by auto
    then show ?thesis using False
      by (intro cancelled [of c]) (simp_all add: unsubscribeChain_def stg_unsubscribe_def GetCancel_def cancel_context_def
          client_Unsubscribe_def sc_onDelete_def Let_def)
  qed
qed

lemma receiver_step_keeps:
  "length (sg_receivers (receiver_step result p i)) = length (sg_receivers p)"
  "ctxMap (sg_stg (receiver_step result p i)) = ctxMap (sg_stg p)"
  "contexts (sg_stg (receiver_step result p i)) = contexts (sg_stg p)"
  "sg_posts (receiver_step result p i) = sg_posts p"
  "r \<in> set (sg_receivers (receiver_step result p i)) \<Longrightarrow>
     \<exists>q \<in> set (sg_receivers p). rv_service r = rv_service q \<and> rv_ctx r = rv_ctx q"
proof -
  show "length (sg_receivers (receiver_step result p i)) = length (sg_receivers p)"
    "ctxMap (sg_stg (receiver_step result p i)) = ctxMap (sg_stg p)"
    "contexts (sg_stg (receiver_step result p i)) = contexts (sg_stg p)"
    "sg_posts (receiver_step result p i) = sg_posts p"
    by (simp_all add: receiver_step_def set_receiver_def Let_def split: recv_pc.splits sum.splits)
  show "r \<in> set (sg_receivers (receiver_step result p i)) \<Longrightarrow>
     \<exists>q \<in> set (sg_receivers p). rv_service r = rv_service q \<and> rv_ctx r = rv_ctx q"
    by (auto simp: receiver_step_def set_receiver_def Let_def in_set_conv_nth nth_list_update
        split: recv_pc.splits sum.splits if_splits) force+
qed

lemma sg_step_inv: "sg_inv p \<Longrightarrow> sg_inv (fst (sg_step p e))"
proof (cases e)
  case (SgPostGoes i rpcErr)
  assume "sg_inv p"
  then show ?thesis
    by (auto simp: SgPostGoes sg_inv_def stg_inv_def post_step_def NewServiceContext_def Let_def less_Suc_eq
        split: post_pc.splits option.splits)
next
  case (SgDelete svc)
  assume inv: "sg_inv p"
  show ?thesis
  proof (cases rule: delete_cases [of "sg_stg p" svc])
    case refused
    with inv SgDelete show ?thesis by (simp add: sg_delete_def sg_inv_def)
  next
    case cancelled
    with inv SgDelete show ?thesis by (simp add: sg_delete_def sg_inv_def stg_inv_def)
  qed
qed (simp_all add: sg_inv_def stg_inv_def sg_post_def receiver_step_keeps)

lemma sg_run_inv: "sg_inv p \<Longrightarrow> sg_inv (fst (pure_run sg_step p es))"
  by (induction es arbitrary: p) (use sg_step_inv in \<open>force simp: Let_def case_prod_beta\<close>)+

subsection \<open>A cancelled subscription\<close>

definition cancelled_service :: "stg_program \<Rightarrow> string \<Rightarrow> bool" where
  "cancelled_service p svc \<longleftrightarrow> (\<exists>c. ctxMap (sg_stg p) svc = Some c \<and> contexts (sg_stg p) ! c)"

text \<open>
  No subscription request of the service is under way, and its goroutines all use the context
  that the map holds: what requests leave that follow one another.
\<close>

definition settled :: "stg_program \<Rightarrow> string \<Rightarrow> bool" where
  "settled p svc \<longleftrightarrow> (\<forall>q \<in> set (sg_posts p). pq_service q = svc \<longrightarrow> (\<exists>code. pq_pc q = Answered code))
     \<and> (\<forall>r \<in> set (sg_receivers p). rv_service r = svc \<longrightarrow> ctxMap (sg_stg p) svc = Some (rv_ctx r))"

definition none_applying :: "stg_program \<Rightarrow> string \<Rightarrow> bool" where
  "none_applying p svc \<longleftrightarrow> (\<forall>r \<in> set (sg_receivers p). rv_service r = svc \<longrightarrow> \<not> (\<exists>event. rv_pc r = Applying event))"

lemma mem_update: "x \<in> set (xs[i := y]) \<Longrightarrow> x = y \<or> x \<in> set xs"
  using set_update_subset_insert [of xs i y] by auto

definition quiet :: "stg_program \<Rightarrow> string \<Rightarrow> bool" where
  "quiet p svc \<longleftrightarrow> sg_inv p \<and> cancelled_service p svc \<and> settled p svc"

text \<open>
  Once cancelled, a settled service stays so; its goroutine receives nothing more, and only what
  it was applying at that moment still gets into the cache.
\<close>

lemma quiet_post:
  assumes "quiet p svc"
  shows "quiet (post_step rpcErr p i) svc" "none_applying p svc \<Longrightarrow> none_applying (post_step rpcErr p i) svc"
    "stg_cache (sg_stg (post_step rpcErr p i)) = stg_cache (sg_stg p)"
proof -
  have inv: "sg_inv (post_step rpcErr p i)"
    using sg_step_inv [of p "SgPostGoes i rpcErr"] assms by (simp add: quiet_def)
  from assms obtain c where c: "ctxMap (sg_stg p) svc = Some c" "contexts (sg_stg p) ! c" "c < length (contexts (sg_stg p))"
    by (auto simp: quiet_def cancelled_service_def sg_inv_def stg_inv_def)
  have "quiet (post_step rpcErr p i) svc \<and> (none_applying p svc \<longrightarrow> none_applying (post_step rpcErr p i) svc)
      \<and> stg_cache (sg_stg (post_step rpcErr p i)) = stg_cache (sg_stg p)"
  proof (cases "i < length (sg_posts p) \<and> (\<forall>code. pq_pc (sg_posts p ! i) \<noteq> Answered code)")
    case False
    then have "post_step rpcErr p i = p" by (auto simp: post_step_def)
    with assms show ?thesis by simp
  next
    case True
    let ?q = "sg_posts p ! i"
    have other: "pq_service ?q \<noteq> svc" using True assms by (auto simp: quiet_def settled_def)
    show ?thesis
    proof (cases "pq_pc ?q")
      case Checked
      with True c other assms inv show ?thesis
        by (auto simp: quiet_def post_step_def settled_def cancelled_service_def none_applying_def NewServiceContext_def
            nth_append Let_def dest!: mem_update)
    next
      case (WithContext ctx)
      with True c other assms inv show ?thesis
        by (cases rpcErr) (auto simp: quiet_def post_step_def settled_def cancelled_service_def none_applying_def Let_def
            dest!: mem_update)
    qed (use True in simp)
  qed
  then show "quiet (post_step rpcErr p i) svc" "none_applying p svc \<Longrightarrow> none_applying (post_step rpcErr p i) svc"
    "stg_cache (sg_stg (post_step rpcErr p i)) = stg_cache (sg_stg p)" by simp_all
qed

lemma quiet_receiver:
  assumes "quiet p svc"
  shows "quiet (receiver_step result p i) svc"
    "none_applying p svc \<Longrightarrow> none_applying (receiver_step result p i) svc
       \<and> stg_cache (sg_stg (receiver_step result p i)) svc = stg_cache (sg_stg p) svc"
proof -
  from assms obtain c where c: "ctxMap (sg_stg p) svc = Some c" "contexts (sg_stg p) ! c"
    by (auto simp: quiet_def cancelled_service_def)
  have own: "contexts (sg_stg p) ! rv_ctx r" if "r \<in> set (sg_receivers p)" "rv_service r = svc" for r
    using assms c that by (force simp: quiet_def settled_def)
  have "settled (receiver_step result p i) svc" unfolding settled_def receiver_step_keeps
  proof (intro conjI ballI impI)
    fix r assume r: "r \<in> set (sg_receivers (receiver_step result p i))" "rv_service r = svc"
    from receiver_step_keeps(5) [OF r(1)] r(2) assms show "ctxMap (sg_stg p) svc = Some (rv_ctx r)"
      by (auto simp: quiet_def settled_def)
  qed (use assms in \<open>simp add: quiet_def settled_def\<close>)
  with sg_step_inv [of p "SgGoes i result"] assms show "quiet (receiver_step result p i) svc"
    by (simp add: quiet_def cancelled_service_def receiver_step_keeps)
  assume none: "none_applying p svc"
  show "none_applying (receiver_step result p i) svc
       \<and> stg_cache (sg_stg (receiver_step result p i)) svc = stg_cache (sg_stg p) svc"
  proof (cases "i < length (sg_receivers p)")
    case True
    let ?r = "sg_receivers p ! i"
    have "?r \<in> set (sg_receivers p)" using True by simp
    note r = own [OF this] none [unfolded none_applying_def, rule_format, OF this]
    show ?thesis
    proof (cases "rv_service ?r = svc")
      case True
      with r \<open>i < _\<close> none show ?thesis
        by (cases "rv_pc ?r") (auto simp: none_applying_def receiver_step_def set_receiver_def Let_def dest!: mem_update)
    next
      case False
      with \<open>i < _\<close> none show ?thesis
        by (cases "rv_pc ?r") (auto simp: none_applying_def receiver_step_def set_receiver_def Let_def client_event_frame
            simp del: client_event.simps split: sum.splits dest!: mem_update)
    qed
  qed (use none in \<open>simp add: receiver_step_def\<close>)
qed

lemma quiet_delete:
  assumes "quiet p svc"
  shows "quiet (fst (sg_delete p svc')) svc" "none_applying (fst (sg_delete p svc')) svc = none_applying p svc"
    "stg_cache (sg_stg (fst (sg_delete p svc'))) svc = stg_cache (sg_stg p) svc
     \<or> svc' = svc \<and> stg_cache (sg_stg (fst (sg_delete p svc'))) svc = None"
proof -
  from assms obtain c where c: "ctxMap (sg_stg p) svc = Some c" "contexts (sg_stg p) ! c" "c < length (contexts (sg_stg p))"
    by (auto simp: quiet_def cancelled_service_def sg_inv_def stg_inv_def)
  have inv: "sg_inv (fst (sg_delete p svc'))"
    using sg_step_inv [of p "SgDelete svc'"] assms by (simp add: quiet_def case_prod_beta)
  have "quiet (fst (sg_delete p svc')) svc \<and> none_applying (fst (sg_delete p svc')) svc = none_applying p svc
    \<and> (stg_cache (sg_stg (fst (sg_delete p svc'))) svc = stg_cache (sg_stg p) svc
     \<or> svc' = svc \<and> stg_cache (sg_stg (fst (sg_delete p svc'))) svc = None)"
  proof (cases rule: delete_cases [of "sg_stg p" svc'])
    case refused
    with assms show ?thesis by (simp add: sg_delete_def)
  next
    case (cancelled c')
    with assms c inv show ?thesis
      by (cases "c = c'") (auto simp: quiet_def sg_delete_def settled_def cancelled_service_def none_applying_def)
  qed
  then show "quiet (fst (sg_delete p svc')) svc" "none_applying (fst (sg_delete p svc')) svc = none_applying p svc"
    "stg_cache (sg_stg (fst (sg_delete p svc'))) svc = stg_cache (sg_stg p) svc
     \<or> svc' = svc \<and> stg_cache (sg_stg (fst (sg_delete p svc'))) svc = None" by simp_all
qed

lemma quiet_step:
  assumes "quiet p svc"
  shows "quiet (fst (sg_step p e)) svc"
    "none_applying p svc \<Longrightarrow>
     none_applying (fst (sg_step p e)) svc
     \<and> (stg_cache (sg_stg (fst (sg_step p e))) svc = stg_cache (sg_stg p) svc
        \<or> e = SgDelete svc \<and> stg_cache (sg_stg (fst (sg_step p e))) svc = None)"
proof -
  have "quiet (sg_post p svc') svc \<and> (none_applying (sg_post p svc') svc = none_applying p svc)
      \<and> stg_cache (sg_stg (sg_post p svc')) = stg_cache (sg_stg p)" for svc'
    using assms by (auto simp: quiet_def sg_post_def settled_def cancelled_service_def none_applying_def sg_inv_def GetCancel_def)
  note steps = this quiet_post [OF assms] quiet_receiver [OF assms] quiet_delete [OF assms]
  from steps show "quiet (fst (sg_step p e)) svc" by (cases e) (simp_all add: case_prod_beta)
  from steps show "none_applying p svc \<Longrightarrow>
     none_applying (fst (sg_step p e)) svc
     \<and> (stg_cache (sg_stg (fst (sg_step p e))) svc = stg_cache (sg_stg p) svc
        \<or> e = SgDelete svc \<and> stg_cache (sg_stg (fst (sg_step p e))) svc = None)"
    by (cases e) (simp_all add: case_prod_beta)
qed

lemma quiet_run:
  "quiet p svc \<Longrightarrow> none_applying p svc \<Longrightarrow>
     stg_cache (sg_stg (fst (pure_run sg_step p ops))) svc = stg_cache (sg_stg p) svc
     \<or> SgDelete svc \<in> set ops \<and> stg_cache (sg_stg (fst (pure_run sg_step p ops))) svc = None"
proof (induction ops arbitrary: p)
  case (Cons e ops)
  note s = quiet_step [OF Cons.prems(1), of e]
  from Cons.IH [OF s(1)] s(2) Cons.prems(2) show ?case
    by (auto simp: Let_def case_prod_beta)
qed simp

lemma delete_ok:
  assumes "sg_inv p" "sg_step p (SgDelete svc) = (p', Some 200)"
  shows "sg_receivers p' = sg_receivers p" "settled p' svc = settled p svc" "cancelled_service p' svc"
    "stg_cache (sg_stg p') svc = None"
    "ctxMap (sg_stg p) svc \<noteq> Some c \<Longrightarrow> contexts (sg_stg p') ! c = contexts (sg_stg p) ! c"
proof -
  have "sg_receivers p' = sg_receivers p \<and> settled p' svc = settled p svc \<and> cancelled_service p' svc
    \<and> stg_cache (sg_stg p') svc = None
    \<and> (ctxMap (sg_stg p) svc \<noteq> Some c \<longrightarrow> contexts (sg_stg p') ! c = contexts (sg_stg p) ! c)"
  proof (cases rule: delete_cases [of "sg_stg p" svc])
    case refused
    with assms(2) show ?thesis by (auto simp: sg_delete_def)
  next
    case cancelled
    with assms show ?thesis by (auto simp: sg_delete_def cancelled_service_def settled_def sg_inv_def stg_inv_def)
  qed
  then show "sg_receivers p' = sg_receivers p" "settled p' svc = settled p svc" "cancelled_service p' svc"
    "stg_cache (sg_stg p') svc = None"
    "ctxMap (sg_stg p) svc \<noteq> Some c \<Longrightarrow> contexts (sg_stg p') ! c = contexts (sg_stg p) ! c" by simp_all
qed

text \<open>The event that a goroutine is applying gets in, cancelled or not.\<close>

lemma applied_event:
  assumes "i < length (sg_receivers p)" "rv_service (sg_receivers p ! i) = svc"
    and "rv_pc (sg_receivers p ! i) = Applying event" "ev_OpType event \<noteq> DELETED"
  shows "stg_cache (sg_stg (receiver_step result p i)) svc = Some event"
    "\<forall>j < length (sg_receivers p). j \<noteq> i \<and> rv_service (sg_receivers p ! j) = svc \<longrightarrow>
       (\<forall>ev. rv_pc (sg_receivers p ! j) \<noteq> Applying ev) \<Longrightarrow> none_applying (receiver_step result p i) svc"
proof -
  show "stg_cache (sg_stg (receiver_step result p i)) svc = Some event"
    using assms client_event_result [of svc "stg_cache (sg_stg p)" event]
    by (simp add: receiver_step_def set_receiver_def Let_def del: client_event.simps)
  assume others: "\<forall>j < length (sg_receivers p). j \<noteq> i \<and> rv_service (sg_receivers p ! j) = svc \<longrightarrow>
       (\<forall>ev. rv_pc (sg_receivers p ! j) \<noteq> Applying ev)"
  let ?r = "(sg_receivers p ! i)\<lparr>rv_pc := Receiving\<rparr>"
  have "x = ?r \<or> rv_service x \<noteq> svc \<or> (\<forall>ev. rv_pc x \<noteq> Applying ev)" if "x \<in> set ((sg_receivers p)[i := ?r])" for x
    using that others assms(1) by (auto simp: in_set_conv_nth nth_list_update split: if_splits)
  with assms(1,3) show "none_applying (receiver_step result p i) svc"
    by (force simp: none_applying_def receiver_step_def set_receiver_def Let_def)
qed

end
