(* ===== verification/Proxy_Requests.thy ===== *)
theory Proxy_Requests
  imports Proxy_Transport
begin

section \<open>Concurrent requests and the breaker they share\<close>

text \<open>
  The proxy serves every connection in its own goroutine, so \<open>loadBalance\<close> of
  \<open>internal/cli/proxy/http_transport.go\<close> runs any number of times at once on one breaker. Here
  a request is cut at the breaker's lock and at the network: it asks the breaker, sends, gets
  its answer, records the result. The theory shows that running one request alone is \<open>lb_loop\<close>,
  and that a run of all of them is, for the breaker, a run of its operations.
\<close>

datatype lb_pc =
    Trying "string list"
  | Sending string "string list"
  | Recording string "string list" "string + http_response"
  | Finished "string + http_response"

record lb_request_state =
  lr_req :: http_request
  lr_body :: string
  lr_service :: string
  lr_port :: string
  lr_useBreaker :: bool
  lr_pc :: lb_pc

record balancer =
  bl_breaker :: "Breaker option"
  bl_requests :: "lb_request_state list"

text \<open>What others can see of a step: nothing, or a request that leaves (and whether the breaker was asked).\<close>

datatype lb_event = Internal | Sent bool string http_request

text \<open>\<open>sendRequest\<close> after the answer has come: a status of 500 or more is an error.\<close>

definition send_result :: "string + http_response \<Rightarrow> string + http_response" where
  "send_result answer =
     (case answer of
        Inl err \<Rightarrow> Inl err
      | Inr resp \<Rightarrow>
          if 500 \<le> rs_StatusCode resp then Inl (''server error: '' @ fmt_d (rs_StatusCode resp))
          else Inr (resp\<lparr>rs_canceled := True\<rparr>))"

text \<open>The breaker that a request asks.\<close>

definition asked :: "Breaker option \<Rightarrow> lb_request_state \<Rightarrow> Breaker option" where
  "asked brk r = (if lr_useBreaker r then brk else None)"

text \<open>One step of a request; \<open>answer\<close> is used when the network answers, the clock when the breaker is called.\<close>

definition request_step ::
  "Breaker option \<Rightarrow> lb_request_state \<Rightarrow> instant \<Rightarrow> instant \<Rightarrow> string + http_response
   \<Rightarrow> (Breaker option \<times> lb_request_state \<times> lb_event) go" where
  "request_step brk r tNew now answer =
     (case lr_pc r of
        Trying [] \<Rightarrow>
          Inr (brk, r\<lparr>lr_pc := Finished (Inl (''all endpoints failed for service '' @ lr_service r))\<rparr>, Internal)
      | Trying (endpoint # endpoints) \<Rightarrow>
          (let sent = Sent (asked brk r \<noteq> None) endpoint (attempt (lr_req r) (lr_body r) (lr_port r) endpoint) in
           case asked brk r of
             None \<Rightarrow> Inr (brk, r\<lparr>lr_pc := Sending endpoint endpoints\<rparr>, sent)
           | Some b \<Rightarrow>
               go_bind (breaker_Allowed b endpoint tNew now) (\<lambda>(b1, ok).
                 if \<not> ok then Inr (Some b1, r\<lparr>lr_pc := Trying endpoints\<rparr>, Internal)
                 else Inr (Some b1, r\<lparr>lr_pc := Sending endpoint endpoints\<rparr>, sent)))
      | Sending endpoint endpoints \<Rightarrow>
          Inr (brk, r\<lparr>lr_pc := Recording endpoint endpoints (send_result answer)\<rparr>, Internal)
      | Recording endpoint endpoints result \<Rightarrow>
          (case asked brk r of
             None \<Rightarrow>
               Inr (brk, r\<lparr>lr_pc := (case result of Inl err \<Rightarrow> Trying endpoints | Inr resp \<Rightarrow> Finished (Inr resp))\<rparr>, Internal)
           | Some b \<Rightarrow>
               (case result of
                  Inl err \<Rightarrow>
                    go_bind (recordFailure b endpoint tNew now err) (\<lambda>b1.
                      Inr (Some b1, r\<lparr>lr_pc := Trying endpoints\<rparr>, Internal))
                | Inr resp \<Rightarrow>
                    go_bind (breaker_RecordSuccess b endpoint tNew now) (\<lambda>b1.
                      Inr (Some b1, r\<lparr>lr_pc := Finished (Inr resp)\<rparr>, Internal))))
      | Finished result \<Rightarrow> Inr (brk, r, Internal))"

datatype lb_op =
    Arrive http_request string string string bool "string list"
  | Goes nat instant instant "string + http_response"

fun lb_step :: "balancer \<Rightarrow> lb_op \<Rightarrow> (balancer \<times> lb_event) go" where
  "lb_step p (Arrive req body service port useBreaker endpoints) =
     Inr (p\<lparr>bl_requests := bl_requests p @ [\<lparr>lr_req = req, lr_body = body, lr_service = service, lr_port = port,
            lr_useBreaker = useBreaker, lr_pc = Trying endpoints\<rparr>]\<rparr>, Internal)"
| "lb_step p (Goes i tNew now answer) =
     (if i < length (bl_requests p) then
        go_bind (request_step (bl_breaker p) (bl_requests p ! i) tNew now answer) (\<lambda>(brk, r, ev).
          Inr (p\<lparr>bl_breaker := brk, bl_requests := (bl_requests p)[i := r]\<rparr>, ev))
      else Inr (p, Internal))"

subsection \<open>A request alone\<close>

lemma sendRequest_answer:
  "sendRequest net w req body ip port =
     (fst (net_Do net w (attempt req body port ip)), send_result (snd (net_Do net w (attempt req body port ip))))"
  by (simp add: sendRequest_def send_result_def attempt_def Let_def split: prod.split sum.split)

definition alone :: "Breaker option \<Rightarrow> http_request \<Rightarrow> string \<Rightarrow> string \<Rightarrow> string \<Rightarrow> bool \<Rightarrow> lb_pc \<Rightarrow> balancer" where
  "alone brk req body service port useBreaker pc = \<lparr>bl_breaker = brk, bl_requests =
     [\<lparr>lr_req = req, lr_body = body, lr_service = service, lr_port = port, lr_useBreaker = useBreaker, lr_pc = pc\<rparr>]\<rparr>"

lemma alone_step:
  "lb_step (alone brk req body service port use pc) (Goes 0 t now answer) =
     go_bind (request_step brk \<lparr>lr_req = req, lr_body = body, lr_service = service, lr_port = port,
         lr_useBreaker = use, lr_pc = pc\<rparr> t now answer)
       (\<lambda>(brk', r, ev). Inr (\<lparr>bl_breaker = brk', bl_requests = [r]\<rparr>, ev))"
  by (simp add: alone_def)

lemma run_ConsI:
  "lb_step p op = Inr (p1, y) \<Longrightarrow> \<exists>ops ys. go_run lb_step p1 ops = Inr (p2, ys) \<Longrightarrow>
     \<exists>ops ys. go_run lb_step p ops = Inr (p2, ys)"
proof (elim exE)
  fix ops ys
  assume "lb_step p op = Inr (p1, y)" "go_run lb_step p1 ops = Inr (p2, ys)"
  then have "go_run lb_step p (op # ops) = Inr (p2, y # ys)" by simp
  then show ?thesis by blast
qed

lemma lb_loop_run:
  "lb_loop net use req body service port eps brk w = Inr (brk', w', res) \<Longrightarrow>
     \<exists>ops ys. go_run lb_step (alone brk req body service port use (Trying eps)) ops
       = Inr (alone brk' req body service port use (Finished res), ys)"
proof (induction eps arbitrary: brk w)
  case Nil
  then have res: "brk' = brk" "res = Inl (''all endpoints failed for service '' @ service)" by simp_all
  have "lb_step (alone brk req body service port use (Trying [])) (Goes 0 0 0 (Inl []))
      = Inr (alone brk' req body service port use (Finished res), Internal)"
    unfolding alone_step res by (simp add: request_step_def alone_def)
  then show ?case by (rule run_ConsI) (intro exI, rule go_run.simps(1))
next
  case (Cons e eps)
  let ?at = "\<lambda>brk pc. alone brk req body service port use pc"
  let ?do = "\<lambda>w. net_Do net w (attempt req body port e)"
  have goes: "lb_step (?at brk (Sending e eps)) (Goes 0 0 0 answer) = Inr (?at brk (Recording e eps (send_result answer)), Internal)"
    for brk answer unfolding alone_step by (simp add: request_step_def alone_def)
  show ?case
  proof (cases "if use then brk else None")
    case None
    have none: "asked brk \<lparr>lr_req = req, lr_body = body, lr_service = service, lr_port = port, lr_useBreaker = use, lr_pc = pc\<rparr> = None"
      for pc using None by (simp add: asked_def split: if_splits)
    have ask: "\<exists>y. lb_step (?at brk (Trying (e # eps))) (Goes 0 0 0 (Inl [])) = Inr (?at brk (Sending e eps), y)"
      unfolding alone_step by (simp add: request_step_def none Let_def alone_def)
    have rec: "lb_step (?at brk (Recording e eps r)) (Goes 0 0 0 (Inl []))
        = Inr (?at brk (case r of Inl err \<Rightarrow> Trying eps | Inr resp \<Rightarrow> Finished (Inr resp)), Internal)" for r
      unfolding alone_step by (simp add: request_step_def none alone_def)
    have "\<exists>ops ys. go_run lb_step (?at brk (case send_result (snd (?do w)) of Inl err \<Rightarrow> Trying eps | Inr resp \<Rightarrow> Finished (Inr resp))) ops
        = Inr (?at brk' (Finished res), ys)"
      using Cons.prems Cons.IH [of brk "fst (?do w)"] None
      by (auto simp: sendRequest_answer split: sum.splits intro: exI [of _ "[]"])
    note tail = this
    from ask obtain y where y: "lb_step (?at brk (Trying (e # eps))) (Goes 0 0 0 (Inl [])) = Inr (?at brk (Sending e eps), y)" ..
    show ?thesis by (rule run_ConsI [OF y], rule run_ConsI [OF goes], rule run_ConsI [OF rec], rule tail)
  next
    case (Some b)
    then have use: "use" "brk = Some b" by (auto split: if_splits)
    have asks: "asked (Some b) \<lparr>lr_req = req, lr_body = body, lr_service = service, lr_port = port, lr_useBreaker = use, lr_pc = pc\<rparr> = Some b"
      for b pc using use by (simp add: asked_def)
    obtain w1 tNew now where clock: "net_clock net w = (w1, tNew, now)" by (cases "net_clock net w")
    with Cons.prems use obtain b1 ok where allowed: "breaker_Allowed b e tNew now = Inr (b1, ok)"
      by (auto simp: go_bind_Inr_iff)
    have ask: "\<exists>y. lb_step (?at brk (Trying (e # eps))) (Goes 0 tNew now (Inl []))
        = Inr (?at (Some b1) (if ok then Sending e eps else Trying eps), y)"
      using use(2) unfolding alone_step by (simp add: request_step_def asks allowed Let_def alone_def)
    show ?thesis
    proof (cases ok)
      case False
      with Cons.prems use clock allowed have "lb_loop net use req body service port eps (Some b1) w1 = Inr (brk', w', res)"
        by simp
      from Cons.IH [OF this] ask False show ?thesis by (auto intro: run_ConsI simp del: lb_step.simps)
    next
      case True
      obtain w3 t3 now3 where clock3: "net_clock net (fst (?do w1)) = (w3, t3, now3)"
        by (cases "net_clock net (fst (?do w1))")
      define r where "r = send_result (snd (?do w1))"
      have "\<exists>y ops ys b2. lb_step (?at (Some b1) (Recording e eps r)) (Goes 0 t3 now3 (Inl [])) = Inr (b2, y)
          \<and> go_run lb_step b2 ops = Inr (?at brk' (Finished res), ys)"
      proof (cases r)
        case (Inl err)
        with Cons.prems use clock allowed True clock3 obtain b2 where
          b2: "recordFailure b1 e t3 now3 err = Inr b2"
          "lb_loop net use req body service port eps (Some b2) w3 = Inr (brk', w', res)"
          by (auto simp: sendRequest_answer r_def go_bind_Inr_iff)
        from Cons.IH [OF b2(2)] obtain ops ys where
          "go_run lb_step (?at (Some b2) (Trying eps)) ops = Inr (?at brk' (Finished res), ys)" by blast
        moreover have "lb_step (?at (Some b1) (Recording e eps r)) (Goes 0 t3 now3 (Inl [])) = Inr (?at (Some b2) (Trying eps), Internal)"
          using Inl b2(1) unfolding alone_step by (simp add: request_step_def asks alone_def)
        ultimately show ?thesis by blast
      next
        case (Inr resp)
        with Cons.prems use clock allowed True clock3 obtain b2 where
          b2: "breaker_RecordSuccess b1 e t3 now3 = Inr b2" "brk' = Some b2" "res = Inr resp"
          by (auto simp: sendRequest_answer r_def go_bind_Inr_iff)
        then have "lb_step (?at (Some b1) (Recording e eps r)) (Goes 0 t3 now3 (Inl [])) = Inr (?at brk' (Finished res), Internal)"
          using Inr unfolding alone_step by (simp add: request_step_def asks alone_def)
        moreover have "go_run lb_step (?at brk' (Finished res)) [] = Inr (?at brk' (Finished res), [])" by simp
        ultimately show ?thesis by blast
      qed
      then obtain y3 b3 where last: "lb_step (?at (Some b1) (Recording e eps r)) (Goes 0 t3 now3 (Inl [])) = Inr (b3, y3)"
        "\<exists>ops ys. go_run lb_step b3 ops = Inr (?at brk' (Finished res), ys)" by blast
      from ask True obtain y where y: "lb_step (?at brk (Trying (e # eps))) (Goes 0 tNew now (Inl []))
          = Inr (?at (Some b1) (Sending e eps), y)" by auto
      show ?thesis
        by (rule run_ConsI [OF y], rule run_ConsI [OF goes], rule run_ConsI [OF last(1) [unfolded r_def]], rule last(2))
    qed
  qed
qed

subsection \<open>The breaker's view of a run\<close>

definition result_metric :: "string + http_response \<Rightarrow> Metric" where
  "result_metric result = (case result of Inl err \<Rightarrow> failure_metric err | Inr resp \<Rightarrow> SUCCESS)"

text \<open>The call of the breaker that a step makes, if any, and the calls of a run.\<close>

fun breaker_call :: "balancer \<Rightarrow> lb_op \<Rightarrow> keyed_op list" where
  "breaker_call p (Arrive req body service port useBreaker endpoints) = []"
| "breaker_call p (Goes i tNew now answer) =
     (if i < length (bl_requests p) \<and> asked (bl_breaker p) (bl_requests p ! i) \<noteq> None then
        case lr_pc (bl_requests p ! i) of
          Trying (endpoint # endpoints) \<Rightarrow> [(endpoint, tNew, OAllowed now)]
        | Recording endpoint endpoints result \<Rightarrow> [(endpoint, tNew, ORecord now (result_metric result))]
        | _ \<Rightarrow> []
      else [])"

fun breaker_calls :: "balancer \<Rightarrow> lb_op list \<Rightarrow> keyed_op list" where
  "breaker_calls p [] = []"
| "breaker_calls p (op # ops) =
     breaker_call p op @ (case lb_step p op of Inl panic \<Rightarrow> [] | Inr (p', ev) \<Rightarrow> breaker_calls p' ops)"

text \<open>How many requests have left for an endpoint after its breaker was asked.\<close>

fun sent_to :: "string \<Rightarrow> lb_event \<Rightarrow> bool" where
  "sent_to k (Sent guarded endpoint req) \<longleftrightarrow> guarded \<and> endpoint = k"
| "sent_to k Internal \<longleftrightarrow> False"

abbreviation sends :: "string \<Rightarrow> lb_event list \<Rightarrow> nat" where
  "sends k ys \<equiv> length (filter (sent_to k) ys)"

lemma answers_of_append:
  "length es = length ys \<Longrightarrow> answers_of k (es @ es') (ys @ ys') = answers_of k es ys @ answers_of k es' ys'"
  by (simp add: answers_of_def)

lemma lb_step_call:
  assumes "bl_breaker p = Some b" "breaker_inv b"
  shows "\<exists>p' y b' zs. lb_step p op = Inr (p', y) \<and> bl_breaker p' = Some b' \<and> breaker_inv b'
    \<and> go_run breaker_step b (breaker_call p op) = Inr (b', zs)
    \<and> (\<forall>k. sends k [y] = count_list (answers_of k (breaker_call p op) zs) (Some True))"
proof (cases op)
  case (Arrive req body service port useBreaker endpoints)
  with assms show ?thesis by (simp add: answers_of_def)
next
  case (Goes i tNew now answer)
  show ?thesis
  proof (cases "i < length (bl_requests p)")
    case False
    with Goes assms show ?thesis by (simp add: answers_of_def)
  next
    case True
    let ?r = "bl_requests p ! i"
    note step = Goes True assms(1) request_step_def answers_of_def
    consider (unasked) "asked (Some b) ?r = None" | (asked) "asked (Some b) ?r = Some b"
      by (cases "lr_useBreaker ?r") (simp_all add: asked_def)
    then show ?thesis
    proof cases
      case unasked
      with assms(2) show ?thesis
        by (cases "lr_pc ?r") (auto simp: step Let_def split: list.splits)
    next
      case asked
      show ?thesis
      proof (cases "lr_pc ?r")
        case (Trying eps)
        show ?thesis
        proof (cases eps)
          case Nil
          with asked Trying assms(2) show ?thesis by (simp add: step)
        next
          case (Cons e es)
          from breaker_ops_total(1) [OF assms(2), of e tNew now] obtain b1 ok where
            "breaker_Allowed b e tNew now = Inr (b1, ok)" "breaker_inv b1" by blast
          with Cons asked Trying show ?thesis by (cases ok) (auto simp: step)
        qed
      next
        case (Recording e es result)
        from breaker_ops_total(2) [OF assms(2), of e tNew now "result_metric result"] obtain b1 where
          "breaker_record b e tNew now (result_metric result) = Inr b1" "breaker_inv b1" by blast
        with asked Recording show ?thesis
          by (cases result) (auto simp: step recordFailure_eq breaker_RecordSuccess_def result_metric_def)
      qed (use asked assms(2) in \<open>simp_all add: step\<close>)
    qed
  qed
qed

lemma lb_run_calls:
  "bl_breaker p = Some b \<Longrightarrow> breaker_inv b \<Longrightarrow>
     \<exists>p' ys b' zs. go_run lb_step p ops = Inr (p', ys) \<and> bl_breaker p' = Some b' \<and> breaker_inv b'
       \<and> go_run breaker_step b (breaker_calls p ops) = Inr (b', zs)
       \<and> (\<forall>k. sends k ys = count_list (answers_of k (breaker_calls p ops) zs) (Some True))"
proof (induction ops arbitrary: p b)
  case Nil
  then show ?case by (simp add: answers_of_def)
next
  case (Cons op ops)
  from lb_step_call [OF Cons.prems, of op] obtain p1 y b1 zs1 where
    one: "lb_step p op = Inr (p1, y)" "bl_breaker p1 = Some b1" "breaker_inv b1"
      "go_run breaker_step b (breaker_call p op) = Inr (b1, zs1)"
    and sent1: "\<forall>k. sends k [y] = count_list (answers_of k (breaker_call p op) zs1) (Some True)" by blast
  from Cons.IH [OF one(2,3)] obtain p' ys b' zs where
    rest: "go_run lb_step p1 ops = Inr (p', ys)" "bl_breaker p' = Some b'" "breaker_inv b'"
      "go_run breaker_step b1 (breaker_calls p1 ops) = Inr (b', zs)"
    and sent: "\<forall>k. sends k ys = count_list (answers_of k (breaker_calls p1 ops) zs) (Some True)" by blast
  have calls: "breaker_calls p (op # ops) = breaker_call p op @ breaker_calls p1 ops" using one(1) by simp
  have "sends k (y # ys) = count_list (answers_of k (breaker_calls p (op # ops)) (zs1 @ zs)) (Some True)" for k
  proof -
    have "sends k (y # ys) = sends k [y] + sends k ys" by simp
    then show ?thesis
      unfolding calls using sent1 sent answers_of_append [of "breaker_call p op" zs1 k] go_run_length [OF one(4)] by simp
  qed
  moreover have "go_run breaker_step b (breaker_calls p (op # ops)) = Inr (b', zs1 @ zs)"
    unfolding calls go_run_append using one(4) rest(4) by simp
  ultimately show ?case using one(1) rest(1-3) by auto
qed

subsection \<open>One circuit in a run\<close>

definition calls_to :: "string \<Rightarrow> balancer \<Rightarrow> lb_op list \<Rightarrow> breaker_op list" where
  "calls_to k p ops = ops_of (of_key k (breaker_calls p ops))"

text \<open>The requests that leave for an endpoint are the admissions of its circuit.\<close>

lemma circuit_run:
  assumes "bl_breaker p = Some b" "breaker_inv b" "breakers b k = Some s"
    and "go_run lb_step p ops = Inr (p', ys)"
  shows "\<exists>b' s' zs. bl_breaker p' = Some b' \<and> breakers b' k = Some s'
    \<and> go_run sub_step s (calls_to k p ops) = Inr (s', zs) \<and> sends k ys = count_list zs (Some True)"
proof -
  from lb_run_calls [OF assms(1,2), of ops] assms(4) obtain b' zs where
    r: "bl_breaker p' = Some b'" "go_run breaker_step b (breaker_calls p ops) = Inr (b', zs)"
      "sends k ys = count_list (answers_of k (breaker_calls p ops) zs) (Some True)" by auto
  note keyed = keyed_run [OF r(2), of k]
  show ?thesis
  proof (cases "of_key k (breaker_calls p ops)")
    case Nil
    then have "answers_of k (breaker_calls p ops) zs = []"
      by (auto simp: of_key_def answers_of_def filter_empty_conv dest: set_zip_leftD)
    with Nil keyed r assms(3) show ?thesis by (auto simp: calls_to_def ops_of_def)
  next
    case (Cons e rest)
    obtain k' t op where e: "e = (k', t, op)" by (cases e)
    have "e \<in> set (of_key k (breaker_calls p ops))" using Cons by simp
    then have "k' = k" by (simp add: of_key_def e)
    with Cons e keyed obtain s0 s' where "breaker_sub b k t = Inr s0" "breakers b' k = Some s'"
      "go_run sub_step s0 (calls_to k p ops) = Inr (s', answers_of k (breaker_calls p ops) zs)"
      unfolding calls_to_def by blast
    moreover from this(1) assms(3) have "s0 = s" by (simp add: breaker_sub_def)
    ultimately show ?thesis using r by auto
  qed
qed

text \<open>Every clock reading of a run is at most \<open>u\<close>.\<close>

fun goes_by :: "instant \<Rightarrow> lb_op \<Rightarrow> bool" where
  "goes_by u (Goes i tNew now answer) \<longleftrightarrow> now \<le> u"
| "goes_by u (Arrive req body service port useBreaker endpoints) \<longleftrightarrow> True"

lemma breaker_call_time: "goes_by u op \<Longrightarrow> e \<in> set (breaker_call p op) \<Longrightarrow> op_time (snd (snd e)) \<le> u"
  by (cases op) (auto split: if_splits lb_pc.splits list.splits)

lemma breaker_calls_time:
  "list_all (goes_by u) ops \<Longrightarrow> e \<in> set (breaker_calls p ops) \<Longrightarrow> op_time (snd (snd e)) \<le> u"
proof (induction ops arbitrary: p)
  case (Cons op ops)
  then show ?case by (auto split: sum.splits dest: breaker_call_time)
qed simp

lemma calls_to_time: "list_all (goes_by u) ops \<Longrightarrow> \<forall>e \<in> set (calls_to k p ops). op_time e \<le> u"
  using breaker_calls_time [of u ops] by (fastforce simp: calls_to_def ops_of_def of_key_def)

text \<open>The result of a request is recorded in whatever state the circuit has by then.\<close>

lemma record_run:
  assumes "bl_breaker p = Some b" "breaker_inv b" "i < length (bl_requests p)"
    and "lr_useBreaker (bl_requests p ! i)" "lr_pc (bl_requests p ! i) = Sending k es" "breakers b k = Some s"
  shows "\<exists>p' b' s'. go_run lb_step p [Goes i t0 now0 answer, Goes i tNew now answer'] = Inr (p', [Internal, Internal])
    \<and> bl_breaker p' = Some b' \<and> breakers b' k = Some s'
    \<and> mode_of s' = fst (mode_record (sb_settings s) now (result_metric (send_result answer)) (mode_of s))
    \<and> (\<forall>j. j \<noteq> i \<longrightarrow> bl_requests p' ! j = bl_requests p ! j)"
proof -
  let ?m = "result_metric (send_result answer)" and ?r = "bl_requests p ! i"
  let ?r1 = "?r\<lparr>lr_pc := Recording k es (send_result answer)\<rparr>"
  let ?p1 = "p\<lparr>bl_requests := (bl_requests p)[i := ?r1]\<rparr>"
  have one: "lb_step p (Goes i t0 now0 answer) = Inr (?p1, Internal)"
    using assms(3,5) by (simp add: request_step_def)
  from assms(2,6) have "sb_inv s" by (simp add: breaker_inv_def)
  from record_mode [OF this, of now ?m] obtain s' where s': "sub_step s (ORecord now ?m) = Inr (s', None)"
    "mode_of s' = fst (mode_record (sb_settings s) now ?m (mode_of s))" by blast
  then have "sb_record s now ?m = Inr s'" by (auto simp: go_bind_Inr_iff)
  with assms(6) have rec: "breaker_record b k tNew now ?m = Inr (b\<lparr>breakers := (breakers b)(k \<mapsto> s')\<rparr>)"
    by (simp add: breaker_record_def breaker_sub_def)
  have asks: "asked (Some b) ?r1 = Some b" using assms(4) by (simp add: asked_def)
  obtain pc where two: "lb_step ?p1 (Goes i tNew now answer') =
      Inr (?p1\<lparr>bl_breaker := Some (b\<lparr>breakers := (breakers b)(k \<mapsto> s')\<rparr>),
        bl_requests := (bl_requests p)[i := ?r1\<lparr>lr_pc := pc\<rparr>]\<rparr>, Internal)"
    using assms(1,3) asks rec
    by (cases "send_result answer") (auto simp: request_step_def recordFailure_eq breaker_RecordSuccess_def result_metric_def)
  from one two s'(2) show ?thesis by (simp del: lb_step.simps)
qed

end
