(* ===== verification/Sidecar_Plane.thy ===== *)
theory Sidecar_Plane
  imports Client_Runs Proxy_Requests
begin

section \<open>Subscriptions and traffic together\<close>

text \<open>
  The sidecar's two servers share the service cache: the subscription API and the goroutines of
  the subscriptions write it, \<open>loadBalance\<close> reads it once per request (\<open>getEndpoints\<close>). Here
  their steps are interleaved: every step of Client_Runs, a request that enters \<open>loadBalance\<close>,
  and every step of a request in it (Proxy_Requests).
\<close>

record sidecar_plane =
  sd_stg :: stg_program
  sd_lb :: balancer

text \<open>\<open>loadBalance\<close> up to its loop: the body is read, then the endpoints of the moment.\<close>

definition lb_enter ::
  "string list \<Rightarrow> sidecar_plane \<Rightarrow> http_request \<Rightarrow> string \<Rightarrow> string \<Rightarrow> ProxyRuleConfig \<Rightarrow> string + lb_op" where
  "lb_enter order d req service port rule =
     (case readBody req of
        Inl err \<Rightarrow> Inl (''failed to read request body: '' @ err)
      | Inr body \<Rightarrow>
          Inr (Arrive req body service port (UseBreaker rule)
            (getEndpoints order (stg_cache (sg_stg (sd_stg d))) service)))"

datatype sd_op =
    SdStg sg_op
  | SdRequest "string list" http_request string string ProxyRuleConfig
  | SdGoes nat instant instant "string + http_response"

datatype sd_event = Answer "nat option" | Traffic lb_event | Refused string

fun sd_step :: "sidecar_plane \<Rightarrow> sd_op \<Rightarrow> (sidecar_plane \<times> sd_event) go" where
  "sd_step d (SdStg op) =
     (case sg_step (sd_stg d) op of (p, code) \<Rightarrow> Inr (d\<lparr>sd_stg := p\<rparr>, Answer code))"
| "sd_step d (SdRequest order req service port rule) =
     (case lb_enter order d req service port rule of
        Inl err \<Rightarrow> Inr (d, Refused err)
      | Inr op \<Rightarrow> go_bind (lb_step (sd_lb d) op) (\<lambda>(l, ev). Inr (d\<lparr>sd_lb := l\<rparr>, Traffic ev)))"
| "sd_step d (SdGoes i tNew now answer) =
     go_bind (lb_step (sd_lb d) (Goes i tNew now answer)) (\<lambda>(l, ev). Inr (d\<lparr>sd_lb := l\<rparr>, Traffic ev))"

text \<open>The invariant: that of the subscriptions, and the breaker's, if there is one.\<close>

definition sd_inv :: "sidecar_plane \<Rightarrow> bool" where
  "sd_inv d \<longleftrightarrow> sg_inv (sd_stg d) \<and> (\<forall>b. bl_breaker (sd_lb d) = Some b \<longrightarrow> breaker_inv b)"

lemma lb_step_total:
  assumes "\<forall>b. bl_breaker l = Some b \<longrightarrow> breaker_inv b"
  shows "\<exists>l' ev. lb_step l op = Inr (l', ev) \<and> (\<forall>b. bl_breaker l' = Some b \<longrightarrow> breaker_inv b)"
proof (cases "bl_breaker l")
  case (Some b)
  with assms lb_step_call [of l b op] show ?thesis by (auto simp del: lb_step.simps)
next
  case None
  then show ?thesis
    by (cases op) (auto simp: request_step_def asked_def Let_def split: lb_pc.split list.split)
qed

interpretation sd: go_machine sd_step sd_inv "\<lambda>_. True"
proof unfold_locales
  fix d :: sidecar_plane and e :: sd_op
  assume inv: "sd_inv d"
  then have lb: "\<exists>l' ev. lb_step (sd_lb d) op = Inr (l', ev) \<and> (\<forall>b. bl_breaker l' = Some b \<longrightarrow> breaker_inv b)" for op
    by (intro lb_step_total) (simp add: sd_inv_def)
  show "\<exists>d' x. sd_step d e = Inr (d', x) \<and> sd_inv d'"
  proof (cases e)
    case (SdStg op)
    with inv sg_step_inv [of "sd_stg d" op] show ?thesis by (auto simp: sd_inv_def split: prod.splits)
  next
    case (SdRequest order req service port rule)
    show ?thesis
    proof (cases "lb_enter order d req service port rule")
      case (Inl err)
      with SdRequest inv show ?thesis by simp
    next
      case (Inr op)
      with SdRequest inv lb [of op] show ?thesis by (auto simp: sd_inv_def)
    qed
  next
    case (SdGoes i tNew now answer)
    with inv lb [of "Goes i tNew now answer"] show ?thesis by (auto simp: sd_inv_def simp del: lb_step.simps)
  qed
qed

subsection \<open>A service that is gone\<close>

text \<open>A request without an endpoint to try: it will be, or has been, answered with an error.\<close>

definition unserved :: "lb_request_state \<Rightarrow> bool" where
  "unserved r \<longleftrightarrow> lr_pc r = Trying [] \<or> lr_pc r = Finished (Inl (''all endpoints failed for service '' @ lr_service r))"

text \<open>
  From the \<open>n\<close>th subscription request and the \<open>m\<close>th proxied request on, the service is refused
  and unserved.
\<close>

definition gone :: "nat \<Rightarrow> nat \<Rightarrow> string \<Rightarrow> sidecar_plane \<Rightarrow> bool" where
  "gone n m svc d \<longleftrightarrow> quiet (sd_stg d) svc \<and> none_applying (sd_stg d) svc \<and> stg_cache (sg_stg (sd_stg d)) svc = None
     \<and> n \<le> length (sg_posts (sd_stg d)) \<and> m \<le> length (bl_requests (sd_lb d))
     \<and> (\<forall>j. n \<le> j \<and> j < length (sg_posts (sd_stg d)) \<and> pq_service (sg_posts (sd_stg d) ! j) = svc \<longrightarrow>
          pq_pc (sg_posts (sd_stg d) ! j) = Answered 400)
     \<and> (\<forall>j. m \<le> j \<and> j < length (bl_requests (sd_lb d)) \<and> lr_service (bl_requests (sd_lb d) ! j) = svc \<longrightarrow>
          unserved (bl_requests (sd_lb d) ! j))"

lemma post_step_posts:
  "length (sg_posts (post_step rpcErr p i)) = length (sg_posts p)"
  "j < length (sg_posts p) \<Longrightarrow> pq_service (sg_posts (post_step rpcErr p i) ! j) = pq_service (sg_posts p ! j)"
  "j < length (sg_posts p) \<Longrightarrow> pq_pc (sg_posts p ! j) = Answered code \<Longrightarrow>
     pq_pc (sg_posts (post_step rpcErr p i) ! j) = Answered code"
  by (auto simp: post_step_def Let_def NewServiceContext_def nth_list_update split: post_pc.splits option.splits)

lemma request_step_keeps:
  assumes "request_step brk r tNew now answer = Inr (brk', r', ev)"
  shows "lr_service r' = lr_service r" "unserved r \<Longrightarrow> unserved r' \<and> ev = Internal"
proof -
  show "lr_service r' = lr_service r"
    using assms by (auto simp: request_step_def Let_def go_bind_Inr_iff split: lb_pc.splits list.splits option.splits sum.splits if_splits)
  assume "unserved r"
  then show "unserved r' \<and> ev = Internal" using assms by (auto simp: unserved_def request_step_def)
qed

lemma delete_posts [simp]: "sg_posts (fst (sg_delete p svc)) = sg_posts p"
  by (simp add: sg_delete_def case_prod_beta)

lemma getEndpoints_none: "cache svc = None \<Longrightarrow> getEndpoints order cache svc = []"
  by (simp add: getEndpoints_map)

lemma gone_stg:
  assumes "gone n m svc d"
  shows "gone n m svc (d\<lparr>sd_stg := fst (sg_step (sd_stg d) op)\<rparr>)"
proof -
  let ?p = "sd_stg d"
  from assms have q: "quiet ?p svc" "none_applying ?p svc" "stg_cache (sg_stg ?p) svc = None" "n \<le> length (sg_posts ?p)"
    and old: "\<And>j. n \<le> j \<Longrightarrow> j < length (sg_posts ?p) \<Longrightarrow> pq_service (sg_posts ?p ! j) = svc \<Longrightarrow> pq_pc (sg_posts ?p ! j) = Answered 400"
    by (auto simp: gone_def)
  from q(1) have known: "ctxMap (sg_stg ?p) svc \<noteq> None" by (auto simp: quiet_def cancelled_service_def)
  have posts: "n \<le> length (sg_posts (fst (sg_step ?p op)))
    \<and> (\<forall>j. n \<le> j \<and> j < length (sg_posts (fst (sg_step ?p op))) \<and> pq_service (sg_posts (fst (sg_step ?p op)) ! j) = svc
        \<longrightarrow> pq_pc (sg_posts (fst (sg_step ?p op)) ! j) = Answered 400)"
  proof (cases op)
    case (SgPost svc')
    with q(4) old known show ?thesis by (auto simp: sg_post_def GetCancel_def nth_append less_Suc_eq)
  next
    case (SgPostGoes i rpcErr)
    with q(4) old show ?thesis by (auto simp: post_step_posts)
  next
    case (SgDelete svc')
    with q(4) old show ?thesis by (simp add: case_prod_beta)
  next
    case (SgGoes i result)
    with q(4) old show ?thesis by (simp add: receiver_step_keeps)
  qed
  from quiet_step(1) [OF q(1), of op] quiet_step(2) [OF q(1,2), of op] q(3) posts assms show ?thesis
    by (auto simp: gone_def)
qed

lemma gone_lb:
  assumes "gone n m svc d" "lb_step (sd_lb d) op = Inr (l, ev)"
    and "\<And>req body service port use eps. op = Arrive req body service port use eps \<Longrightarrow> service = svc \<Longrightarrow> eps = []"
  shows "gone n m svc (d\<lparr>sd_lb := l\<rparr>)"
proof -
  let ?rs = "bl_requests (sd_lb d)"
  from assms(1) have m: "m \<le> length ?rs"
    and old: "\<And>j. m \<le> j \<Longrightarrow> j < length ?rs \<Longrightarrow> lr_service (?rs ! j) = svc \<Longrightarrow> unserved (?rs ! j)"
    by (auto simp: gone_def)
  have "m \<le> length (bl_requests l) \<and> (\<forall>j. m \<le> j \<and> j < length (bl_requests l) \<and> lr_service (bl_requests l ! j) = svc
      \<longrightarrow> unserved (bl_requests l ! j))"
  proof (cases op)
    case (Arrive req body service port use eps)
    have fresh: "unserved \<lparr>lr_req = req, lr_body = body, lr_service = service, lr_port = port, lr_useBreaker = use, lr_pc = Trying []\<rparr>"
      by (simp add: unserved_def)
    from Arrive assms(2,3) m old show ?thesis
      by (auto simp: nth_append less_Suc_eq fresh)
  next
    case (Goes i tNew now answer)
    show ?thesis
    proof (cases "i < length ?rs")
      case False
      with Goes assms(2) m old show ?thesis by auto
    next
      case True
      with Goes assms(2) obtain brk r where
        r: "request_step (bl_breaker (sd_lb d)) (?rs ! i) tNew now answer = Inr (brk, r, ev)"
        "l = (sd_lb d)\<lparr>bl_breaker := brk, bl_requests := ?rs[i := r]\<rparr>" by (auto simp: go_bind_Inr_iff)
      with request_step_keeps [OF r(1)] m old True show ?thesis by (auto simp: nth_list_update)
    qed
  qed
  with assms(1) show ?thesis by (simp add: gone_def)
qed

lemma gone_step:
  assumes "gone n m svc d" "sd_step d e = Inr (d', x)"
  shows "gone n m svc d'"
proof (cases e)
  case (SdStg op)
  with gone_stg [OF assms(1), of op] assms(2) show ?thesis by (auto split: prod.splits)
next
  case (SdRequest order req service port rule)
  show ?thesis
  proof (cases "lb_enter order d req service port rule")
    case (Inl err)
    with SdRequest assms show ?thesis by simp
  next
    case (Inr op)
    with SdRequest assms(2) obtain l ev where l: "lb_step (sd_lb d) op = Inr (l, ev)" "d' = d\<lparr>sd_lb := l\<rparr>"
      by (auto simp: go_bind_Inr_iff)
    have "eps = []" if "op = Arrive req' body service' port' use eps" "service' = svc" for req' body service' port' use eps
      using that Inr assms(1) by (auto simp: lb_enter_def gone_def getEndpoints_none split: sum.splits)
    from gone_lb [OF assms(1) l(1)] this l(2) show ?thesis by blast
  qed
next
  case (SdGoes i tNew now answer)
  with assms(2) obtain l ev where l: "lb_step (sd_lb d) (Goes i tNew now answer) = Inr (l, ev)" "d' = d\<lparr>sd_lb := l\<rparr>"
    by (auto simp: go_bind_Inr_iff simp del: lb_step.simps)
  from gone_lb [OF assms(1) l(1)] l(2) show ?thesis by blast
qed

lemma gone_run: "gone n m svc d \<Longrightarrow> go_run sd_step d ops = Inr (d', xs) \<Longrightarrow> gone n m svc d'"
proof (induction ops arbitrary: d xs)
  case (Cons e ops)
  from Cons.prems(2) obtain d1 y ys where "sd_step d e = Inr (d1, y)" "go_run sd_step d1 ops = Inr (d', ys)"
    by (rule go_run_ConsE)
  with gone_step [OF Cons.prems(1)] Cons.IH show ?case by blast
qed simp

end
