(* ===== verification/Proxy_Properties.thy ===== *)
theory Proxy_Properties
  imports Breaker_Properties Proxy_Relay Http_Conn Sidecar_Plane
begin

section \<open>Properties of the proxy and of its subscription API\<close>

text \<open>
  What a request through \<open>httpTransport.RoundTrip\<close> contacts and returns, with and without the
  circuit breaker; how a \<open>Host\<close> header is read; which connections are taken for HTTP; the
  listener of one connection, how it is served, and the relay of any other; the life of a name in the subscription API.
\<close>

subsection \<open>Requests\<close>


text \<open>A request whose host has a load balancing rule.\<close>

definition lb_request :: "Listener \<Rightarrow> http_request \<Rightarrow> string \<Rightarrow> string \<Rightarrow> ProxyRuleConfig \<Rightarrow> bool" where
  "lb_request l req svc port rule \<longleftrightarrow> parseHost (rq_Host req) = (svc, port, True)
     \<and> (case l_config l of None \<Rightarrow> False | Some config \<Rightarrow>
          Enabled (HTTP config) \<and> Proxies (HTTP config) svc = Some rule \<and> LoadBalance rule)"

lemma RoundTrip_lb:
  assumes "lb_request l req svc port rule" "readBody req = Inr body"
  shows "RoundTrip net order l w req =
    go_bind (lb_loop net (UseBreaker rule) req body svc port (getEndpoints order (l_cache l) svc) (l_breaker l) w)
      (\<lambda>(brk, w', r). Inr (l\<lparr>l_breaker := brk\<rparr>, w', r))"
  using assms by (auto simp: lb_request_def RoundTrip_def loadBalance_def split: option.splits)





definition demo_request :: http_request where
  "demo_request = \<lparr>rq_Host = ''svc:81'', rq_URL_Scheme = '''', rq_URL_Host = '''', rq_RequestURI = ''/'', rq_Body = None\<rparr>"

definition demo_response :: http_response where
  "demo_response = \<lparr>rs_StatusCode = 200, rs_body_closed = False, rs_canceled = False\<rparr>"






text \<open>
  A load-balanced request with a breaker never panics and keeps the breaker's invariant. An
  endpoint whose circuit is open (and whose deadline has not passed) gets no request, and its
  circuit stays open with the same deadline, whatever the other endpoints answer.
\<close>

lemma balanced_skips_open:
  assumes "lb_request l req svc port rule" "readBody req = Inr body"
    and "UseBreaker rule" "l_breaker l = Some b" "breaker_inv b"
  shows "\<exists>b' reqs r. RoundTrip (answering ans now) order l [] req = Inr (l\<lparr>l_breaker := Some b'\<rparr>, reqs, r)
    \<and> breaker_inv b'
    \<and> (\<forall>k s. breakers b k = Some s \<longrightarrow> state s = StateOpen \<longrightarrow> now \<le> openUntil s \<longrightarrow>
         (\<exists>s'. breakers b' k = Some s' \<and> state s' = StateOpen \<and> openUntil s' = openUntil s)
         \<and> JoinHostPort k port \<notin> rq_Host ` set reqs)"
proof -
  from lb_breaker [OF assms(5), of ans now req body svc port "getEndpoints order (l_cache l) svc" "[]"]
  obtain b' reqs r where
    "lb_loop (answering ans now) True req body svc port (getEndpoints order (l_cache l) svc) (Some b) []
       = Inr (Some b', reqs, r)"
    "breaker_inv b'"
    "\<forall>k s. breakers b k = Some s \<longrightarrow> state s = StateOpen \<longrightarrow> now \<le> openUntil s \<longrightarrow>
         (\<exists>s'. breakers b' k = Some s' \<and> state s' = StateOpen \<and> openUntil s' = openUntil s)
         \<and> JoinHostPort k port \<notin> rq_Host ` set reqs" by auto
  with assms(3,4) RoundTrip_lb [OF assms(1,2), of "answering ans now" order "[]"] show ?thesis by auto
qed



subsection \<open>Concurrent requests\<close>




text \<open>
  C11: A result counts for the circuit as it is when the result comes, not as it was when the
  request left. A request may have been admitted while the circuit was closed, or in an earlier
  half-open period: if the circuit is half-open when its result is recorded, the result is
  taken for a probe's. A success counts towards closing (the last one needed closes the
  circuit, though the period's own probes are still unanswered), a time-out or network failure
  opens it again, a business failure changes nothing; in each case the probes in use are
  as before.
\<close>

theorem late_results_count:
  assumes "bl_breaker p = Some b" "breaker_inv b" "i < length (bl_requests p)"
    and "lr_useBreaker (bl_requests p ! i)" "lr_pc (bl_requests p ! i) = Sending k es"
    and "breakers b k = Some s" "state s = StateHalfOpen"
  shows "\<exists>p' b' s'. go_run lb_step p [Goes i t0 now0 answer, Goes i tNew now answer'] = Inr (p', [Internal, Internal])
    \<and> bl_breaker p' = Some b' \<and> breakers b' k = Some s'
    \<and> (\<forall>j. j \<noteq> i \<longrightarrow> bl_requests p' ! j = bl_requests p ! j)
    \<and> mode_of s' = (case result_metric (send_result answer) of
          SUCCESS \<Rightarrow> if probeSuccess s + 1 < st_halfOpenAllowed (sb_settings s)
            then Probing (halfOpenSince s) (probeUsed s) (probeSuccess s + 1) else Admitting
        | BUSINESS_FAILURE \<Rightarrow> Probing (halfOpenSince s) (probeUsed s) (probeSuccess s)
        | _ \<Rightarrow> Rejecting (now + st_openDuration (sb_settings s)))"
proof -
  have "mode_of s = Probing (halfOpenSince s) (probeUsed s) (probeSuccess s)"
    using assms(7) by (simp add: state_mode_iff)
  with record_run [OF assms(1-6), of t0 now0 answer tNew now answer'] show ?thesis
    by (cases "result_metric (send_result answer)") auto
qed

text \<open>
  In the witness two probes of a first half-open period are slow. The period expires, the
  circuit opens and turns half-open again; then the two old requests succeed and close the
  circuit while the one probe of the second period is still unanswered.
\<close>

definition late_balancer :: balancer where
  "late_balancer = \<lparr>bl_breaker = Some \<lparr>br_opts = sample_options, breakers = [''a'' \<mapsto>
     (sample_sub StateOpen 0 0 (sample_window [None, None, None] 0 zero_unit))
       \<lparr>openUntil := time_Second, sb_settings := (newSettings sample_options)
         \<lparr>st_interval := 10 * time_Second, st_halfOpenMaxDuration := time_Second, st_openDuration := time_Second\<rparr>\<rparr>]\<rparr>,
     bl_requests = []\<rparr>"

theorem late_results_count_witness:
  "let arrive = Arrive demo_request '''' ''svc'' ''81'' True [''a''];
       ok = Inr demo_response;
       ops = [arrive, arrive, arrive, arrive,
         Goes 0 0 (2 * time_Second) ok, Goes 1 0 (2 * time_Second) ok,
         Goes 2 0 (4 * time_Second) ok, Goes 3 0 (6 * time_Second) ok,
         Goes 0 0 0 ok, Goes 0 0 (7 * time_Second) ok]
   in \<exists>p ys p' ys' b' s'. go_run lb_step late_balancer ops = Inr (p, ys) \<and> sends ''a'' ys = 3
     \<and> go_run lb_step p [Goes 1 0 0 ok, Goes 1 0 (8 * time_Second) ok] = Inr (p', ys')
     \<and> bl_breaker p' = Some b' \<and> breakers b' ''a'' = Some s' \<and> state s' = StateClosed
     \<and> lr_pc (bl_requests p' ! 3) = Sending ''a'' []"
proof -
  let ?arrive = "Arrive demo_request '''' ''svc'' ''81'' True [''a'']" and ?ok = "Inr demo_response :: string + http_response"
  let ?ops = "[?arrive, ?arrive, ?arrive, ?arrive,
         Goes 0 0 (2 * time_Second) ?ok, Goes 1 0 (2 * time_Second) ?ok,
         Goes 2 0 (4 * time_Second) ?ok, Goes 3 0 (6 * time_Second) ?ok,
         Goes 0 0 0 ?ok, Goes 0 0 (7 * time_Second) ?ok]"
  note eval = late_balancer_def request_step_def asked_def breaker_Allowed_def breaker_sub_def breaker_RecordSuccess_def
    breaker_record_def allowed_def sb_record_def advance_def allowed_halfOpen_def time_Sub_def sample_defs
    send_result_def demo_response_def counter_Record_defs Let_def
  have start: "\<exists>b. bl_breaker late_balancer = Some b \<and> breaker_inv b"
    using sample_options_good
    by (simp add: late_balancer_def breaker_inv_def sample_inv_defs newSettings_def time_Second_def)
  with lb_run_calls [of late_balancer _ ?ops] obtain p ys b where
    run: "go_run lb_step late_balancer ?ops = Inr (p, ys)" "bl_breaker p = Some b" "breaker_inv b" by blast
  from run(1,2) have ys: "sends ''a'' ys = 3" and p: "1 < length (bl_requests p)" "lr_useBreaker (bl_requests p ! 1)"
      "lr_pc (bl_requests p ! 1) = Sending ''a'' []" "lr_pc (bl_requests p ! 3) = Sending ''a'' []"
    and "\<exists>s. breakers b ''a'' = Some s \<and> state s = StateHalfOpen \<and> probeSuccess s = 1 \<and> st_halfOpenAllowed (sb_settings s) = 2"
    by (auto simp: eval)
  then obtain s where s: "breakers b ''a'' = Some s" "state s = StateHalfOpen" "probeSuccess s = 1"
    "st_halfOpenAllowed (sb_settings s) = 2" by blast
  have "result_metric (send_result ?ok) = SUCCESS" by (simp add: send_result_def demo_response_def result_metric_def)
  with late_results_count [OF run(2,3) p(1-3) s(1,2), of 0 0 ?ok 0 "8 * time_Second" ?ok] s(3,4) p(4) obtain p' ys' b' s' where
    "go_run lb_step p [Goes 1 0 0 ?ok, Goes 1 0 (8 * time_Second) ?ok] = Inr (p', ys')" "bl_breaker p' = Some b'"
    "breakers b' ''a'' = Some s'" "lr_pc (bl_requests p' ! 3) = Sending ''a'' []" "mode_of s' = Admitting"
    by (auto simp del: go_run.simps)
  with run(1) ys show ?thesis unfolding Let_def by (blast dest: mode_of_D(1))
qed





subsection \<open>Hosts and connections\<close>




text \<open>
  C39: Which handler a connection gets. With at least 64 bytes the method's name decides, and
  what arrives later never changes the decision. A client that sends fewer than 64 bytes and
  keeps its side open, as one that waits for the response to a short request does, is given to
  no handler at all; one that closes its side is treated as TCP whatever it sent.
\<close>

theorem protocol_detection:
  shows "handleConnection reader =
      (if 64 \<le> length (st_bytes reader)
       then Some (if list_ex (str_HasPrefix (st_bytes reader)) http_prefixes then HandleHTTP else HandleTCP)
       else if st_ended reader then Some HandleTCP else None)
    \<and> (\<forall>h more e. handleConnection reader = Some h \<longrightarrow> \<not> st_ended reader \<longrightarrow>
         handleConnection \<lparr>st_bytes = st_bytes reader @ more, st_ended = e\<rparr> = Some h)
    \<and> handleConnection \<lparr>st_bytes = ''GET / HTTP/1.1'' @ [CHR 0x0D, CHR 0x0A] @ ''Host: svc'' @ [CHR 0x0D, CHR 0x0A, CHR 0x0D, CHR 0x0A],
         st_ended = False\<rparr> = None"
proof -
  let ?http = "\<lambda>s. list_ex (str_HasPrefix s) http_prefixes"
  have exact: "handleConnection s = (if 64 \<le> length (st_bytes s)
       then Some (if ?http (st_bytes s) then HandleHTTP else HandleTCP)
       else if st_ended s then Some HandleTCP else None)" for s
    using isHTTP_long [of s] by (auto simp: handleConnection_def isHTTP_def bufio_Peek_def)
  have "?http (xs @ ys) = ?http xs" if "64 \<le> length xs" for xs ys
  proof -
    have "str_HasPrefix (xs @ ys) p = str_HasPrefix xs p" if "p \<in> set http_prefixes" for p
      using prefixes_short that \<open>64 \<le> length xs\<close> by (fastforce simp: str_HasPrefix_def)
    then show ?thesis by (auto simp: list_ex_iff)
  qed
  then have "\<forall>h more e. handleConnection reader = Some h \<longrightarrow> \<not> st_ended reader \<longrightarrow>
         handleConnection \<lparr>st_bytes = st_bytes reader @ more, st_ended = e\<rparr> = Some h"
    by (auto simp: exact split: if_splits)
  moreover have "handleConnection \<lparr>st_bytes = ''GET / HTTP/1.1'' @ [CHR 0x0D, CHR 0x0A] @ ''Host: svc'' @ [CHR 0x0D, CHR 0x0A, CHR 0x0D, CHR 0x0A],
         st_ended = False\<rparr> = None" by (simp add: exact)
  ultimately show ?thesis using exact [of reader] by blast
qed

theorem protocol_detection_witness:
  "handleConnection \<lparr>st_bytes = replicate 70 CHR ''G'' @ ''ET'', st_ended = True\<rparr> = Some HandleTCP"
proof -
  let ?r = "\<lparr>st_bytes = replicate 70 CHR ''G'', st_ended = False\<rparr>"
  from protocol_detection [of ?r] have "handleConnection ?r = Some HandleTCP"
    by (simp add: http_prefixes_def str_HasPrefix_def numeral_eq_Suc)
  with protocol_detection [of ?r] show ?thesis by simp
qed

text \<open>
  The listener of one connection: in any sequence of \<open>Accept\<close> and \<open>Close\<close>, the connection is
  handed out by the first call if that is an \<open>Accept\<close> and never otherwise, and the \<open>done\<close>
  channel is closed from the first call on and never twice. (So the second \<open>Accept\<close> of the HTTP
  server fails at once and its \<open>Serve\<close> returns while the request is still being handled.)
\<close>

lemma connection_served_once:
  "\<exists>l. go_run sl_step (newSingleConnListener conn) es
      = Inr (l, case es of SlAccept # rest \<Rightarrow> conn # replicate (length rest) None
               | _ \<Rightarrow> replicate (length es) None)
    \<and> sl_done l = (es \<noteq> [])"
proof -
  let ?l = "newSingleConnListener conn"
  have "sl_inv ?l" by (simp add: sl_inv_def newSingleConnListener_def)
  from sl.run_refines [OF this, of es] obtain l xs where
    run: "go_run sl_step ?l es = Inr (l, xs)" "sl_inv l" "pure_run slot_step (slot_of ?l) es = (slot_of l, xs)"
    by (auto simp: list_all_iff)
  have "slot_of ?l = conn" by (simp add: slot_of_def newSingleConnListener_def)
  with run(3) have "xs = (case es of SlAccept # rest \<Rightarrow> conn # replicate (length rest) None
      | _ \<Rightarrow> replicate (length es) None)"
    by (cases es rule: list.exhaust; cases "hd es") (auto simp: slot_run_None map_replicate_const)
  moreover have "sl_done l = (es \<noteq> [])"
    using run(1,2) sl_run_closed [OF run(1)] by (auto simp: sl_inv_def newSingleConnListener_def)
  ultimately show ?thesis using run(1) by blast
qed

subsection \<open>The subscription API\<close>

text \<open>
  Once a client has asked for a service, successfully or not, the name is taken for good. After
  any requests since the start, served one after the other, an unsubscription of it answers 200, cancels its context and
  empties its cache entry, and yet every later subscription of it is refused with 400 (service
  already existed, unsubscribe first), for the unsubscription keeps the name in the map.
\<close>

lemma never_subscribed_again:
  assumes "svc \<noteq> ''''" "StgPost svc r \<in> set es"
  shows "let s = fst (pure_run stg_step NewStgServer es); (s1, code1) = stg_step s (StgDelete svc)
    in code1 = 200 \<and> stg_cache s1 svc = None \<and> (\<exists>c. ctxMap s1 svc = Some c \<and> contexts s1 ! c)
      \<and> (\<forall>es' r'. last (snd (pure_run stg_step s1 (es' @ [StgPost svc r']))) = 400)"
proof -
  let ?s = "fst (pure_run stg_step NewStgServer es)"
  from stg_post_known [OF assms] obtain c where c: "ctxMap ?s svc = Some c" by blast
  have "stg_inv ?s" by (rule stg_run_inv) (simp add: stg_inv_def NewStgServer_def)
  with c have "c < length (contexts ?s)" by (simp add: stg_inv_def)
  moreover define s1 where "s1 = (cancel_context ?s c)\<lparr>stg_cache := fst (client_Unsubscribe (stg_cache ?s) svc)\<rparr>"
  moreover have del: "stg_step ?s (StgDelete svc) = (s1, 200)"
    using assms(1) c by (simp add: unsubscribeChain_def stg_unsubscribe_def GetCancel_def s1_def
        client_Unsubscribe_def cancel_context_def)
  ultimately have s1: "ctxMap s1 svc = Some c" "contexts s1 ! c" "stg_cache s1 svc = None"
    using c by (simp_all add: cancel_context_def client_Unsubscribe_def sc_onDelete_def)
  have "last (snd (pure_run stg_step s1 (es' @ [StgPost svc r']))) = 400" for es' r'
  proof -
    have "ctxMap (fst (pure_run stg_step s1 es')) svc \<noteq> None" by (rule stg_run_keeps) (simp add: s1)
    then have "snd (stg_step (fst (pure_run stg_step s1 es')) (StgPost svc r')) = 400"
      using assms(1) by (simp add: subscribeChain_def GetCancel_def)
    then show ?thesis by (simp add: pure_run_snoc case_prod_beta Let_def)
  qed
  with del s1 show ?thesis by (simp add: Let_def)
qed

subsection \<open>The relay\<close>

lemma rounds_run:
  "relay_run r (replicate k (CopyUp n NoFault)) = r\<lparr>rl_up := (copy_round n NoFault ^^ k) (rl_up r)\<rparr>"
  "relay_run r (replicate k (CopyDown n NoFault)) = r\<lparr>rl_down := (copy_round n NoFault ^^ k) (rl_down r)\<rparr>"
  by (induction k arbitrary: r) (simp_all add: relay_run_def faulty_def funpow_swap1)

lemma relay_run_append: "relay_run r (es @ es') = relay_run (relay_run r es) es'"
  by (simp add: relay_run_def)

text \<open>
  C17: The TCP relay loses, repeats and reorders nothing. In any interleaving of the two copying
  goroutines with what the two sides do, what has been written to the target is a prefix of
  what the client has sent, the bytes peeked for the protocol detection first, and likewise
  in the other direction. Unless the connections break, a copy that has ended has delivered
  everything, has closed its write side and has seen the end of its source, and \<open>handleTCP\<close>
  returns only after both have; once both sides have ended, enough rounds make it return.
\<close>

theorem relay_in_order:
  fixes peeked ops
  defines "r \<equiv> relay_run (handleTCP_start peeked) ops"
  shows "(\<exists>rest. peeked @ client_bytes ops = fl_written (rl_up r) @ rest)
    \<and> (\<exists>rest. target_bytes ops = fl_written (rl_down r) @ rest)
    \<and> (Broken \<notin> set ops \<longrightarrow>
        (fl_pc (rl_up r) = CopyEnded \<longrightarrow> fl_written (rl_up r) = peeked @ client_bytes ops \<and> fl_write_closed (rl_up r) \<and> fl_eof (rl_up r))
      \<and> (fl_pc (rl_down r) = CopyEnded \<longrightarrow> fl_written (rl_down r) = target_bytes ops \<and> fl_write_closed (rl_down r) \<and> fl_eof (rl_down r)))
    \<and> (rl_returned r \<longrightarrow> fl_pc (rl_up r) = CopyEnded \<and> fl_pc (rl_down r) = CopyEnded)
    \<and> (\<forall>k n. fl_eof (rl_up r) \<longrightarrow> fl_eof (rl_down r)
        \<longrightarrow> length (fl_buffered (rl_up r)) + length (fl_pending (rl_up r)) < k
        \<longrightarrow> length (fl_buffered (rl_down r)) + length (fl_pending (rl_down r)) < k
        \<longrightarrow> rl_returned (relay_run r (replicate k (CopyUp n NoFault) @ replicate k (CopyDown n NoFault) @ [Return])))"
proof -
  let ?s = "handleTCP_start peeked"
  have start: "flow_ok (rl_broken ?s) peeked (rl_up ?s)" "flow_ok (rl_broken ?s) [] (rl_down ?s)"
    "\<not> fl_eof (rl_up ?s)" "\<not> fl_eof (rl_down ?s)" "\<not> rl_returned ?s" "\<not> rl_broken ?s"
    by (simp_all add: handleTCP_start_def flow_ok_def Let_def)
  have up: "flow_ok (rl_broken r) (peeked @ client_bytes ops) (rl_up r)"
    using relay_up_ok [OF start(1), of ops] start(3) by (simp add: r_def)
  have down: "flow_ok (rl_broken r) (target_bytes ops) (rl_down r)"
    using relay_down_ok [OF start(2), of ops] start(4) by (simp add: r_def)
  have broken: "rl_broken r \<longleftrightarrow> Broken \<in> set ops" using relay_broken [of ?s ops] start(6) by (simp add: r_def)
  have ret: "rl_returned r \<longrightarrow> fl_pc (rl_up r) = CopyEnded \<and> fl_pc (rl_down r) = CopyEnded"
    using relay_returned [of ?s ops] start(5) by (simp add: r_def)
  have fin: "rl_returned (relay_run r (replicate k (CopyUp n NoFault) @ replicate k (CopyDown n NoFault) @ [Return]))"
    if "fl_eof (rl_up r)" "fl_eof (rl_down r)" "length (fl_buffered (rl_up r)) + length (fl_pending (rl_up r)) < k"
      "length (fl_buffered (rl_down r)) + length (fl_pending (rl_down r)) < k" for k n
    using copy_rounds_end [OF that(1,3), of n] copy_rounds_end [OF that(2,4), of n]
    by (simp add: relay_run_append rounds_run) (simp add: relay_run_def)
  have "\<exists>rest. peeked @ client_bytes ops = fl_written (rl_up r) @ rest"
    "\<exists>rest. target_bytes ops = fl_written (rl_down r) @ rest"
    using up down by (auto simp: flow_ok_def)
  moreover have "fl_written (rl_up r) = peeked @ client_bytes ops \<and> fl_write_closed (rl_up r) \<and> fl_eof (rl_up r)"
    if "Broken \<notin> set ops" "fl_pc (rl_up r) = CopyEnded" using that up broken by (auto simp: flow_ok_def)
  moreover have "fl_written (rl_down r) = target_bytes ops \<and> fl_write_closed (rl_down r) \<and> fl_eof (rl_down r)"
    if "Broken \<notin> set ops" "fl_pc (rl_down r) = CopyEnded" using that down broken by (auto simp: flow_ok_def)
  ultimately show ?thesis using ret fin by blast
qed

theorem relay_in_order_witness:
  "let r = relay_run (handleTCP_start ''ab'') [ClientSends ''c'', CopyUp 1 NoFault, ClientEnds, CopyUp 5 NoFault, CopyUp 5 NoFault]
   in fl_pc (rl_up r) = CopyEnded \<and> fl_written (rl_up r) = ''abc''"
proof -
  let ?ops = "[ClientSends ''c'', CopyUp 1 NoFault, ClientEnds, CopyUp 5 NoFault, CopyUp 5 NoFault]"
  have "fl_pc (rl_up (relay_run (handleTCP_start ''ab'') ?ops)) = CopyEnded"
    by (simp add: relay_run_def handleTCP_start_def copy_round_def conn_Read_def copy_ends_def faulty_def Let_def)
  with relay_in_order [where peeked = "''ab''" and ops = ?ops] show ?thesis by (simp add: Let_def)
qed

subsection \<open>An HTTP connection\<close>

text \<open>
  C16: An HTTP connection is cut off. Whatever the requests, the answers and the order of the steps,
  serving a connection returns without a panic, at most one goroutine serves it, and three
  steps of the accepting goroutine, none of which waits for the serving one, close the
  connection; from then on nothing is answered. So of the same steps in two orders one
  delivers the answer of a request (or 502 for an error of \<open>RoundTrip\<close>) and the other
  reads and forwards the request and delivers nothing.
\<close>

theorem http_connection_cut:
  shows "(\<exists>s ys. go_run (http_step net order) (handleHTTP_start l w conn) ops = Inr (s, ys)
      \<and> length (hc_goroutines s) \<le> 1
      \<and> (3 \<le> count_list ops HMain \<longrightarrow> \<not> hc_open s
           \<and> (\<forall>more. \<exists>s' zs. go_run (http_step net order) s more = Inr (s', zs) \<and> hc_answered s' = hc_answered s)))
    \<and> (\<forall>req l' w' r. RoundTrip net order l w req = Inr (l', w', r) \<longrightarrow>
        (let serve = HServe 0 (Some req) in
         (\<exists>s ys. go_run (http_step net order) (handleHTTP_start l w conn) [HMain, serve, serve, serve, HMain, HMain] = Inr (s, ys)
            \<and> hc_answered s = [answer_of r] \<and> hc_world s = w')
       \<and> (\<exists>s ys. go_run (http_step net order) (handleHTTP_start l w conn) [HMain, serve, serve, HMain, HMain, serve] = Inr (s, ys)
            \<and> hc_answered s = [] \<and> hc_world s = w')))"
proof (intro conjI allI impI)
  from http_run [OF http_at_start, of net order l w conn ops] obtain s ys where
    run: "go_run (http_step net order) (handleHTTP_start l w conn) ops = Inr (s, ys)" and at: "http_at (count_list ops HMain) s"
    by auto
  from at have "length (hc_goroutines s) \<le> 1" "3 \<le> count_list ops HMain \<longrightarrow> \<not> hc_open s" by (simp_all add: http_at_def)
  moreover have "3 \<le> count_list ops HMain \<longrightarrow>
      (\<forall>more. \<exists>s' zs. go_run (http_step net order) s more = Inr (s', zs) \<and> hc_answered s' = hc_answered s)"
    using http_run [OF at, of net order] by blast
  ultimately show "\<exists>s ys. go_run (http_step net order) (handleHTTP_start l w conn) ops = Inr (s, ys)
      \<and> length (hc_goroutines s) \<le> 1
      \<and> (3 \<le> count_list ops HMain \<longrightarrow> \<not> hc_open s
           \<and> (\<forall>more. \<exists>s' zs. go_run (http_step net order) s more = Inr (s', zs) \<and> hc_answered s' = hc_answered s))"
    using run by blast
next
  fix req l' w' r
  assume "RoundTrip net order l w req = Inr (l', w', r)"
  then show "let serve = HServe 0 (Some req) in
         (\<exists>s ys. go_run (http_step net order) (handleHTTP_start l w conn) [HMain, serve, serve, serve, HMain, HMain] = Inr (s, ys)
            \<and> hc_answered s = [answer_of r] \<and> hc_world s = w')
       \<and> (\<exists>s ys. go_run (http_step net order) (handleHTTP_start l w conn) [HMain, serve, serve, HMain, HMain, serve] = Inr (s, ys)
            \<and> hc_answered s = [] \<and> hc_world s = w')"
    by (simp add: handleHTTP_start_def newSingleConnListener_def http_main_def sl_Accept_def sl_Close_def sl_close_done_def
        http_serve_def serve_read_def serve_forward_def serve_answer_def proxy_ServeHTTP_def)
qed

theorem http_connection_cut_witness:
  "\<exists>s ys. go_run (http_step (answering (\<lambda>_. Inl ''connection refused'') 0) [])
      (handleHTTP_start \<lparr>l_cache = NewServiceCache, l_config = None, l_breaker = None\<rparr> [] ())
      (let serve = HServe 0 (Some \<lparr>rq_Host = ''svc:80'', rq_URL_Scheme = '''', rq_URL_Host = '''', rq_RequestURI = ''/'', rq_Body = None\<rparr>)
       in [HMain, serve, serve, serve, HMain, HMain]) = Inr (s, ys) \<and> hc_answered s = [bad_gateway]"
proof -
  let ?net = "answering (\<lambda>_. Inl ''connection refused'') 0 :: http_request list net"
  let ?l = "\<lparr>l_cache = NewServiceCache, l_config = None, l_breaker = None\<rparr>"
  let ?req = "\<lparr>rq_Host = ''svc:80'', rq_URL_Scheme = '''', rq_URL_Host = '''', rq_RequestURI = ''/'', rq_Body = None\<rparr>"
  have "\<exists>w'. RoundTrip ?net [] ?l [] ?req = Inr (?l, w', Inl ''connection refused'')"
    by (auto simp: RoundTrip_def passThrough_def answering_def Let_def split: prod.splits option.splits)
  then obtain w' where "RoundTrip ?net [] ?l [] ?req = Inr (?l, w', Inl ''connection refused'')" ..
  with http_connection_cut [of ?net "[]" ?l "[]" "()" "[]"] show ?thesis
    by (simp only: Let_def) (force simp: answer_of_def)
qed



subsection \<open>The sidecar's traffic and its subscriptions\<close>



end
