(* ===== verification/Mesh_Properties.thy ===== *)
theory Mesh_Properties
  imports Slice_Properties Proxy_Properties
begin

section \<open>The mesh as a whole\<close>







end
