(* ===== verification/Hooks.thy ===== *)
theory Hooks
  imports CRD_Machine Grpc_Server Net_Addr
begin

section \<open>The controller's HTTP hooks\<close>

text \<open>
  \<open>internal/ctrl/hooks\<close>: the admission webhook (\<open>mutate_webhook.go\<close>), the probes
  (\<open>readyz.go\<close>, \<open>healthz.go\<close>) and the stop hook (\<open>prestop.go\<close>). JSON decoding and encoding
  (of types of the Kubernetes API) are arguments. A panic in a handler is caught by the HTTP
  server and ends the connection only.
\<close>

subsection \<open>The admission webhook\<close>

record AdmissionRequest =
  ar_UID :: string
  ar_Object_Raw :: string

record AdmissionResponse =
  ad_UID :: string
  ad_Allowed :: bool
  ad_PatchType :: "string option"
  ad_Patch :: "string option"

record AdmissionReview =
  rv_TypeMeta :: "string \<times> string"
  rv_Request :: "AdmissionRequest option"
  rv_Response :: "AdmissionResponse option"

text \<open>API version and kind; the handler's answers leave them empty.\<close>

definition no_TypeMeta :: "string \<times> string" where
  "no_TypeMeta = ('''', '''')"

record Pod =
  pod_Labels :: "(string \<times> string) list"
  pod_InitContainers :: "CoreContainer list"
  pod_Containers :: "CoreContainer list"

text \<open>One operation of the JSON patch that the webhook answers with.\<close>

record patch_op =
  pt_op :: string
  pt_path :: string
  pt_value :: CoreContainer

definition getPodFromAdmissionReview ::
  "(string \<Rightarrow> string + Pod) \<Rightarrow> AdmissionReview option \<Rightarrow> Pod \<times> bool" where
  "getPodFromAdmissionReview unmarshal admissionReview =
     (let zero = \<lparr>pod_Labels = [], pod_InitContainers = [], pod_Containers = []\<rparr> in
      case admissionReview of
        None \<Rightarrow> (zero, False)
      | Some review \<Rightarrow>
          (case rv_Request review of
             None \<Rightarrow> (zero, False)
           | Some admissionRequest \<Rightarrow>
               (case unmarshal (ar_Object_Raw admissionRequest) of
                  Inl err \<Rightarrow> (zero, False) | Inr pod \<Rightarrow> (pod, True))))"

definition needInjected :: "Pod \<Rightarrow> string \<Rightarrow> string \<times> bool" where
  "needInjected pod label =
     (case map_of (pod_Labels pod) label of None \<Rightarrow> ('''', False) | Some val \<Rightarrow> (val, True))"

definition containerInjected :: "Pod \<Rightarrow> string \<Rightarrow> bool" where
  "containerInjected pod containerName =
     (if list_ex (\<lambda>container. cc_Name container = containerName) (pod_InitContainers pod) then True
      else list_ex (\<lambda>container. cc_Name container = containerName) (pod_Containers pod))"

text \<open>The name is read before the test for nil, so the branch for a nil container is never taken.\<close>

definition responsePatch ::
  "(patch_op list \<Rightarrow> string + string) \<Rightarrow> string \<Rightarrow> CoreContainer option \<Rightarrow> AdmissionResponse go" where
  "responsePatch marshal UID container =
     go_bind (go_deref container) (\<lambda>c.
       let containerName = cc_Name c;
           value = (case container of
               None \<Rightarrow> \<lparr>cc_Name = containerName, cc_Image = '''', cc_Command = [], cc_Resources = JObj [], cc_rest = []\<rparr>
             | Some v \<Rightarrow> v)
       in case marshal [\<lparr>pt_op = ''add'', pt_path = ''/spec/containers/-'', pt_value = value\<rparr>] of
            Inr ctnPatch \<Rightarrow> Inr \<lparr>ad_UID = UID, ad_Allowed = True, ad_PatchType = Some ''JSONPatch'', ad_Patch = Some ctnPatch\<rparr>
          | Inl err \<Rightarrow> Inr \<lparr>ad_UID = UID, ad_Allowed = False, ad_PatchType = None, ad_Patch = None\<rparr>)"

text \<open>The handler: method and body in, status and review out.\<close>

record mutateHandler =
  mh_kv :: container_cache
  mh_label :: string

definition plain_response :: "string \<Rightarrow> bool \<Rightarrow> AdmissionResponse" where
  "plain_response UID ok = \<lparr>ad_UID = UID, ad_Allowed = ok, ad_PatchType = None, ad_Patch = None\<rparr>"

definition NewMutateHandler :: "container_cache \<Rightarrow> string \<Rightarrow> mutateHandler" where
  "NewMutateHandler c label = \<lparr>mh_kv = c, mh_label = label\<rparr>"

text \<open>What goes out: the status, and the review unless it is nil.\<close>

definition responseAdmissionReview :: "nat \<Rightarrow> AdmissionReview option \<Rightarrow> nat \<times> AdmissionReview option" where
  "responseAdmissionReview statusCode body = (statusCode, body)"

definition mutate_ServeHTTP ::
  "(string \<Rightarrow> string + AdmissionReview) \<Rightarrow> (string \<Rightarrow> string + Pod) \<Rightarrow> (patch_op list \<Rightarrow> string + string)
   \<Rightarrow> mutateHandler \<Rightarrow> string \<Rightarrow> string \<Rightarrow> (nat \<times> AdmissionReview option) go" where
  "mutate_ServeHTTP decode unmarshal marshal m meth body =
     (if meth \<noteq> ''POST'' then Inr (responseAdmissionReview 405 None)
      else case decode body of
        Inl err \<Rightarrow> Inr (responseAdmissionReview 400 None)
      | Inr admissionReview \<Rightarrow>
          (let (pod, ok) = getPodFromAdmissionReview unmarshal (Some admissionReview) in
           if \<not> ok then Inr (responseAdmissionReview 400 None)
           else
             let respond = (\<lambda>r. responseAdmissionReview 200
                   (Some \<lparr>rv_TypeMeta = no_TypeMeta, rv_Request = None, rv_Response = Some r\<rparr>));
                 (containerName, needInject) = needInjected pod (mh_label m) in
             go_bind (go_deref (rv_Request admissionReview)) (\<lambda>request.
               if \<not> needInject then Inr (respond (plain_response (ar_UID request) True))
               else if containerInjected pod containerName then Inr (respond (plain_response (ar_UID request) True))
               else
                 let (container, exist) = gc_Get None (mh_kv m) containerName in
                 if \<not> exist then Inr (respond (plain_response (ar_UID request) False))
                 else go_bind (responsePatch marshal (ar_UID request) container) (\<lambda>r. Inr (respond r)))))"

text \<open>What the API server does with the patch (RFC 6902, \<open>add\<close> at the end of an array).\<close>

definition apply_op :: "Pod \<Rightarrow> patch_op \<Rightarrow> Pod" where
  "apply_op pod p = (if pt_op p = ''add'' \<and> pt_path p = ''/spec/containers/-''
     then pod\<lparr>pod_Containers := pod_Containers pod @ [pt_value p]\<rparr> else pod)"

definition admitted :: "(string \<Rightarrow> patch_op list) \<Rightarrow> AdmissionResponse \<Rightarrow> Pod \<Rightarrow> Pod" where
  "admitted readPatch r pod = (case ad_Patch r of None \<Rightarrow> pod | Some b \<Rightarrow> foldl apply_op pod (readPatch b))"

lemma containerInjected_iff:
  "containerInjected pod n \<longleftrightarrow> n \<in> cc_Name ` set (pod_InitContainers pod @ pod_Containers pod)"
  by (auto simp: containerInjected_def list_ex_iff)

text \<open>The handler's decision, for a request it can read and a cache of named containers.\<close>

definition decide :: "(patch_op list \<Rightarrow> string + string) \<Rightarrow> mutateHandler \<Rightarrow> string \<Rightarrow> Pod \<Rightarrow> AdmissionResponse" where
  "decide marshal m UID pod =
     (case map_of (pod_Labels pod) (mh_label m) of
        None \<Rightarrow> plain_response UID True
      | Some n \<Rightarrow>
          if containerInjected pod n then plain_response UID True
          else case mh_kv m n of
            Some (Some c) \<Rightarrow>
              (case marshal [\<lparr>pt_op = ''add'', pt_path = ''/spec/containers/-'', pt_value = c\<rparr>] of
                 Inr b \<Rightarrow> \<lparr>ad_UID = UID, ad_Allowed = True, ad_PatchType = Some ''JSONPatch'', ad_Patch = Some b\<rparr>
               | Inl err \<Rightarrow> plain_response UID False)
          | _ \<Rightarrow> plain_response UID False)"

lemma mutate_decides:
  assumes "cache_ok (mh_kv m)"
    and "decode body = Inr review" "rv_Request review = Some rq" "unmarshal (ar_Object_Raw rq) = Inr pod"
  shows "mutate_ServeHTTP decode unmarshal marshal m ''POST'' body
    = Inr (200, Some \<lparr>rv_TypeMeta = no_TypeMeta, rv_Request = None, rv_Response = Some (decide marshal m (ar_UID rq) pod)\<rparr>)"
proof (cases "map_of (pod_Labels pod) (mh_label m)")
  case None
  with assms show ?thesis by (simp add: mutate_ServeHTTP_def responseAdmissionReview_def getPodFromAdmissionReview_def needInjected_def decide_def)
next
  case (Some n)
  show ?thesis
  proof (cases "mh_kv m n")
    case None
    with Some assms(2-) show ?thesis
      by (simp add: mutate_ServeHTTP_def responseAdmissionReview_def getPodFromAdmissionReview_def needInjected_def decide_def gc_defs)
  next
    case (Some p)
    with cache_okD [OF assms(1)] obtain c where "mh_kv m n = Some (Some c)" by blast
    with \<open>map_of (pod_Labels pod) (mh_label m) = Some n\<close> assms(2-) show ?thesis
      by (auto simp: mutate_ServeHTTP_def responseAdmissionReview_def getPodFromAdmissionReview_def needInjected_def decide_def gc_defs
          responsePatch_def plain_response_def Let_def split: sum.splits)
  qed
qed

subsection \<open>Probes\<close>

text \<open>
  A checker has a name and a check over a world (\<open>None\<close> is no error), which gets the time-out
  of the handler's context. The two handlers run every check in order and collect the failures.
\<close>

record 'w checker =
  ck_Name :: string
  ck_Check :: "duration \<Rightarrow> 'w \<Rightarrow> 'w \<times> string option"

record 'w ReadyzHandler =
  rz_checkers :: "'w checker list"
  rz_timeout :: duration

record 'w HealthzHandler =
  hz_checkers :: "'w checker list"
  hz_timeout :: duration

definition NewReadyzHandler :: "duration \<Rightarrow> 'w checker list \<Rightarrow> 'w ReadyzHandler" where
  "NewReadyzHandler timeout checkers = \<lparr>rz_checkers = checkers, rz_timeout = timeout\<rparr>"

definition NewHealthzHandler :: "duration \<Rightarrow> 'w checker list \<Rightarrow> 'w HealthzHandler" where
  "NewHealthzHandler timeout checkers = \<lparr>hz_checkers = checkers, hz_timeout = timeout\<rparr>"

fun run_checks :: "duration \<Rightarrow> 'w checker list \<Rightarrow> 'w \<Rightarrow> string list \<Rightarrow> 'w \<times> string list" where
  "run_checks ctx [] w failures = (w, failures)"
| "run_checks ctx (c # cs) w failures =
     (case ck_Check c ctx w of
        (w', None) \<Rightarrow> run_checks ctx cs w' failures
      | (w', Some err) \<Rightarrow> run_checks ctx cs w' (failures @ [ck_Name c @ '': '' @ err]))"

definition newline :: string where
  "newline = [CHR 0x0A]"

definition readyz_ServeHTTP :: "'w ReadyzHandler \<Rightarrow> 'w \<Rightarrow> 'w \<times> nat \<times> string" where
  "readyz_ServeHTTP h w =
     (let (w', failures) = run_checks (rz_timeout h) (rz_checkers h) w [] in
      if 0 < length failures then (w', 503, ''not ready'' @ newline @ join_lines failures @ newline)
      else (w', 200, ''ok'' @ newline))"

definition healthz_ServeHTTP :: "'w HealthzHandler \<Rightarrow> 'w \<Rightarrow> 'w \<times> nat \<times> string" where
  "healthz_ServeHTTP h w =
     (let (w', failures) = run_checks (hz_timeout h) (hz_checkers h) w [] in
      if 0 < length failures then (w', 503, ''not healthy'' @ newline @ join_lines failures @ newline)
      else (w', 200, ''ok'' @ newline))"

text \<open>The checkers; a client's \<open>List\<close> call with limit 1 is an argument.\<close>

definition NewDefaultHealthChecker :: "string \<Rightarrow> 'w checker" where
  "NewDefaultHealthChecker name = \<lparr>ck_Name = name, ck_Check = (\<lambda>ctx w. (w, None))\<rparr>"

definition NewKubeClientChecker :: "(duration \<Rightarrow> 'w \<Rightarrow> 'w \<times> string option) \<Rightarrow> 'w checker" where
  "NewKubeClientChecker listSlices = \<lparr>ck_Name = ''kube-client'', ck_Check = listSlices\<rparr>"

definition NewDynamicClientChecker :: "(duration \<Rightarrow> 'w \<Rightarrow> 'w \<times> string option) \<Rightarrow> 'w checker" where
  "NewDynamicClientChecker listResource = \<lparr>ck_Name = ''dynamic-client'', ck_Check = listResource\<rparr>"

definition NewGrpcServerChecker :: "('w \<Rightarrow> bool) \<Rightarrow> 'w checker" where
  "NewGrpcServerChecker readyFn = \<lparr>ck_Name = ''grpc-server'',
     ck_Check = (\<lambda>ctx w. (w, if readyFn w then None else Some ''grpc server is not yet listening''))\<rparr>"

text \<open>Checks that leave the world alone: 200 exactly when all pass.\<close>

definition quiet :: "'w checker \<Rightarrow> bool" where
  "quiet c \<longleftrightarrow> (\<forall>ctx w. fst (ck_Check c ctx w) = w)"

lemma run_checks_quiet:
  "list_all quiet cs \<Longrightarrow> run_checks ctx cs w failures
     = (w, failures @ concat (map (\<lambda>c. case snd (ck_Check c ctx w) of None \<Rightarrow> [] | Some err \<Rightarrow> [ck_Name c @ '': '' @ err]) cs))"
proof (induction cs arbitrary: failures)
  case (Cons c cs)
  then have "ck_Check c ctx w = (w, snd (ck_Check c ctx w))" by (metis list.pred_inject(2) quiet_def prod.collapse)
  with Cons show ?case by (cases "snd (ck_Check c ctx w)") simp_all
qed simp

lemma probe_status:
  assumes "list_all quiet cs"
  shows "fst (snd (readyz_ServeHTTP (NewReadyzHandler ctx cs) w)) = (if list_all (\<lambda>c. snd (ck_Check c ctx w) = None) cs then 200 else 503)"
    "fst (snd (healthz_ServeHTTP (NewHealthzHandler ctx cs) w)) = (if list_all (\<lambda>c. snd (ck_Check c ctx w) = None) cs then 200 else 503)"
  using assms by (auto simp: readyz_ServeHTTP_def healthz_ServeHTTP_def NewReadyzHandler_def NewHealthzHandler_def run_checks_quiet list_all_iff
      split: option.splits)

subsection \<open>The stop hook\<close>

text \<open>The handler's \<open>sync.Once\<close> and the channel it closes (open or closed).\<close>

record preStopHandler =
  ps_once :: bool
  ps_closed :: bool

definition NewPreStopHandler :: "bool \<Rightarrow> preStopHandler" where
  "NewPreStopHandler closed = \<lparr>ps_once = False, ps_closed = closed\<rparr>"

definition preStop_ServeHTTP :: "preStopHandler \<Rightarrow> string \<Rightarrow> (preStopHandler \<times> nat) go" where
  "preStop_ServeHTTP h meth =
     (if meth \<noteq> ''POST'' then Inr (h, 405)
      else if ps_once h then Inr (h, 200)
      else if ps_closed h then Inl CloseOfClosedChannel
      else Inr (h\<lparr>ps_once := True, ps_closed := True\<rparr>, 200))"

definition preStop_inv :: "preStopHandler \<Rightarrow> bool" where
  "preStop_inv h \<longleftrightarrow> ps_closed h = ps_once h"

interpretation pstop: go_machine preStop_ServeHTTP preStop_inv "\<lambda>_. True"
  by unfold_locales (auto simp: preStop_ServeHTTP_def preStop_inv_def)

lemma preStop_twice:
  "preStop_ServeHTTP h meth = Inr (h', c) \<Longrightarrow> ps_once h \<Longrightarrow> h' = h \<and> c = (if meth = ''POST'' then 200 else 405)"
  by (auto simp: preStop_ServeHTTP_def split: if_splits)

end
