(* ===== verification/Ctl_Server.thy ===== *)
theory Ctl_Server
  imports Hooks
begin

section \<open>The controller's HTTPS server and the shutdown command\<close>

text \<open>
  \<open>internal/ctrl/httpsvr.go\<close>, the handlers that \<open>startup.go\<close> registers, and
  \<open>internal/ctrl/shutdown.go\<close>, the command that asks a running controller to stop. TLS, the
  listener and the file system are arguments; a handler works on a state \<open>'s\<close> and answers a
  method with a status.
\<close>

subsection \<open>Routes\<close>

record grpc_Options =
  grpc_network :: string
  grpc_address :: string

record StartUpOptions =
  so_label :: string
  so_gvrVersion :: string
  so_gvrGroup :: string
  so_gvrResource :: string
  so_crdWorkerMaxRetries :: int
  so_grpcOptions :: grpc_Options
  so_certFile :: string
  so_keyFile :: string
  so_address :: string
  so_gracefulShutdownTimeout :: int

type_synonym 's http_handler = "'s \<Rightarrow> string \<Rightarrow> ('s \<times> nat) go"

record 's HttpsServer =
  hs_mux :: "string \<rightharpoonup> 's http_handler"
  hs_tlsCertFile :: string
  hs_tlsKeyFile :: string
  hs_address :: string
  hs_gracefulShutdownTimeout :: duration

definition NewHttpsServer :: "StartUpOptions \<Rightarrow> 's HttpsServer" where
  "NewHttpsServer opts = \<lparr>hs_mux = Map.empty, hs_tlsCertFile = so_certFile opts, hs_tlsKeyFile = so_keyFile opts,
     hs_address = so_address opts, hs_gracefulShutdownTimeout = i64 (so_gracefulShutdownTimeout opts * time_Second)\<rparr>"

text \<open>\<open>ServeMux.Handle\<close> panics on an empty or a repeated pattern.\<close>

definition RegisterHandler :: "'s HttpsServer \<Rightarrow> string \<Rightarrow> 's http_handler \<Rightarrow> 's HttpsServer go" where
  "RegisterHandler s pattern handler =
     (if pattern = '''' \<or> hs_mux s pattern \<noteq> None then Inl PatternConflict
      else Inr (s\<lparr>hs_mux := (hs_mux s)(pattern \<mapsto> handler)\<rparr>))"

definition serve_mux :: "'s HttpsServer \<Rightarrow> string \<Rightarrow> 's http_handler" where
  "serve_mux s path w meth = (case hs_mux s path of None \<Rightarrow> Inr (w, 404) | Some handler \<Rightarrow> handler w meth)"

definition StartUp_handlers ::
  "'s HttpsServer \<Rightarrow> 's http_handler \<Rightarrow> 's http_handler \<Rightarrow> 's http_handler \<Rightarrow> 's http_handler
   \<Rightarrow> 's http_handler \<Rightarrow> 's HttpsServer go" where
  "StartUp_handlers httpSvr prometheus preStop mutate readyz healthz =
     go_bind (RegisterHandler httpSvr ''/prometheus'' prometheus) (\<lambda>s1.
     go_bind (RegisterHandler s1 ''/preStop'' preStop) (\<lambda>s2.
     go_bind (RegisterHandler s2 ''/mutate'' mutate) (\<lambda>s3.
     go_bind (RegisterHandler s3 ''/readyz'' readyz) (\<lambda>s4.
     RegisterHandler s4 ''/healthz'' healthz))))"

text \<open>
  The two probes as \<open>StartUp\<close> makes them. What they look at is the gRPC server and, through
  their list calls, the API server.
\<close>

definition StartUp_readyz ::
  "(duration \<Rightarrow> 'k \<Rightarrow> 'k \<times> string option) \<Rightarrow> (duration \<Rightarrow> 'k \<Rightarrow> 'k \<times> string option) \<Rightarrow> (GrpcServer \<times> 'k) ReadyzHandler" where
  "StartUp_readyz listSlices listResource = NewReadyzHandler (5 * time_Second)
     [NewGrpcServerChecker (\<lambda>(grpcSvr, k). gs_IsReady grpcSvr),
      NewKubeClientChecker (\<lambda>ctx (grpcSvr, k). let (k', err) = listSlices ctx k in ((grpcSvr, k'), err)),
      NewDynamicClientChecker (\<lambda>ctx (grpcSvr, k). let (k', err) = listResource ctx k in ((grpcSvr, k'), err))]"

definition StartUp_healthz :: "'w HealthzHandler" where
  "StartUp_healthz = NewHealthzHandler (5 * time_Second) [NewDefaultHealthChecker ''default-healthz'']"

lemma StartUp_handlers_mux:
  "StartUp_handlers (NewHttpsServer opts) prometheus preStop mutate readyz healthz
     = Inr ((NewHttpsServer opts)\<lparr>hs_mux := [''/prometheus'' \<mapsto> prometheus, ''/preStop'' \<mapsto> preStop,
         ''/mutate'' \<mapsto> mutate, ''/readyz'' \<mapsto> readyz, ''/healthz'' \<mapsto> healthz]\<rparr>)"
  by (simp add: StartUp_handlers_def RegisterHandler_def NewHttpsServer_def)

subsection \<open>The shutdown command\<close>

record ShutdownOptions =
  sd_certFile :: string
  sd_address :: string
  sd_gracefulShutdownTimeout :: int

definition addressValidate :: "string \<Rightarrow> string \<times> bool" where
  "addressValidate address =
     (if address = '''' then ('''', False)
      else case SplitHostPort address of
        None \<Rightarrow> ('''', False)
      | Some (host, port) \<Rightarrow>
          (let host' = (if host = '''' then ''localhost'' else host) in (JoinHostPort host' port, True)))"

text \<open>What the HTTP client is configured with; \<open>'r\<close> is the certificate pool.\<close>

record 'r http_client =
  hc_Timeout :: duration
  hc_RootCAs :: 'r
  hc_ServerName :: string

datatype shutdown_log =
    InvalidAddress | CertUnreadable string | CertNotAppended | RequestFailed string | BadStatus nat | StopRequested

definition Shutdown ::
  "(string \<Rightarrow> string + string) \<Rightarrow> (string \<Rightarrow> 'r option) \<Rightarrow> ('r http_client \<Rightarrow> 'w \<Rightarrow> string \<Rightarrow> 'w \<times> (string + nat))
   \<Rightarrow> 'w \<Rightarrow> ShutdownOptions \<Rightarrow> 'w \<times> shutdown_log" where
  "Shutdown readFile certPool post w opt =
     (let (address, valid) = addressValidate (sd_address opt) in
      if \<not> valid then (w, InvalidAddress)
      else case readFile (sd_certFile opt) of
        Inl err \<Rightarrow> (w, CertUnreadable err)
      | Inr caPem \<Rightarrow>
          (case certPool caPem of
             None \<Rightarrow> (w, CertNotAppended)
           | Some rootCAs \<Rightarrow>
               (let host = (case SplitHostPort address of None \<Rightarrow> '''' | Some (h, p) \<Rightarrow> h);
                    client = \<lparr>hc_Timeout = i64 (sd_gracefulShutdownTimeout opt * time_Second),
                      hc_RootCAs = rootCAs, hc_ServerName = host\<rparr>
                in case post client w (''https://'' @ address @ ''/preStop'') of
                     (w', Inl err) \<Rightarrow> (w', RequestFailed err)
                   | (w', Inr code) \<Rightarrow> if code \<noteq> 200 then (w', BadStatus code) else (w', StopRequested))))"

lemma JoinHostPort_nonempty: "JoinHostPort h p \<noteq> ''''"
  by (simp add: JoinHostPort_def)

lemma localhost_free: "bracket_free ''localhost''" "CHR '':'' \<notin> set ''localhost''"
  by (simp_all add: bracket_free_def)

lemma addressValidate_join:
  assumes "bracket_free h" "bracket_free p" "CHR '':'' \<notin> set p"
  shows "addressValidate (JoinHostPort h p) = (JoinHostPort (if h = '''' then ''localhost'' else h) p, True)"
  by (simp add: addressValidate_def split_join [OF assms] JoinHostPort_nonempty)

lemma addressValidate_sound:
  assumes "addressValidate a = (b, True)"
  shows "\<exists>h p. bracket_free h \<and> bracket_free p \<and> CHR '':'' \<notin> set p
    \<and> SplitHostPort a = Some (h, p) \<and> b = JoinHostPort (if h = '''' then ''localhost'' else h) p"
  using assms split_sound by (auto simp: addressValidate_def Let_def split: option.splits if_splits)

end
