(* ===== verification/Tools.thy ===== *)
theory Tools
  imports Prelude
begin

section \<open>Helpers and metrics\<close>

text \<open>
  \<open>pkg/utils/tools.go\<close>, \<open>pkg/metrics/metric.go\<close> and \<open>pkg/metrics/options.go\<close>: constructors that panic
  when the library reports an error, a configuration that is read once, and the
  registration of the metrics. What the libraries answer is a parameter.
\<close>

subsection \<open>Constructors that panic\<close>

definition or_die :: "string + 'a \<Rightarrow> 'a go" where
  "or_die r = (case r of Inl err \<Rightarrow> Inl (PanicWith err) | Inr x \<Rightarrow> Inr x)"

lemma or_die_simps [simp]:
  "or_die (Inl err) = Inl (PanicWith err)"
  "or_die (Inr x) = Inr x"
  by (simp_all add: or_die_def)

definition NewListenerOrDie :: "(string \<Rightarrow> string \<Rightarrow> string + 'l) \<Rightarrow> string \<Rightarrow> string \<Rightarrow> 'l go" where
  "NewListenerOrDie listen network address = or_die (listen network address)"

text \<open>
  \<open>sync.OnceValues\<close>: the function is called at the first call; every call gets its results.
\<close>

definition sync_OnceValues :: "('w \<Rightarrow> 'w \<times> 'r) \<Rightarrow> 'w \<times> 'r option \<Rightarrow> ('w \<times> 'r option) \<times> 'r" where
  "sync_OnceValues f s =
     (case s of
        (w, Some r) \<Rightarrow> ((w, Some r), r)
      | (w, None) \<Rightarrow> (let (w', r) = f w in ((w', Some r), r)))"

text \<open>What the process has read of the cluster's configuration, and the world it is read from.\<close>

type_synonym ('w, 'c) config_once = "'w \<times> (string + 'c) option"

definition InClusterConfigOrDie ::
  "('w \<Rightarrow> 'w \<times> (string + 'c)) \<Rightarrow> ('w, 'c) config_once \<Rightarrow> (('w, 'c) config_once \<times> 'c) go" where
  "InClusterConfigOrDie load s =
     (let (s', cfg) = sync_OnceValues load s in go_bind (or_die cfg) (\<lambda>c. Inr (s', c)))"

definition NewDynamicClientOrDie ::
  "('w \<Rightarrow> 'w \<times> (string + 'c)) \<Rightarrow> ('c \<Rightarrow> string + 'd) \<Rightarrow> ('w, 'c) config_once \<Rightarrow> (('w, 'c) config_once \<times> 'd) go" where
  "NewDynamicClientOrDie load dynamicNew s =
     go_bind (InClusterConfigOrDie load s) (\<lambda>(s', cfg). go_bind (or_die (dynamicNew cfg)) (\<lambda>d. Inr (s', d)))"

definition NewKubernetesClientOrDie ::
  "('w \<Rightarrow> 'w \<times> (string + 'c)) \<Rightarrow> ('c \<Rightarrow> string + 'k) \<Rightarrow> ('w, 'c) config_once \<Rightarrow> (('w, 'c) config_once \<times> 'k) go" where
  "NewKubernetesClientOrDie load kubernetesNew s =
     go_bind (InClusterConfigOrDie load s) (\<lambda>(s', cfg). go_bind (or_die (kubernetesNew cfg)) (\<lambda>k. Inr (s', k)))"

text \<open>\<open>StartUp\<close> makes both clients.\<close>

definition StartUp_clients ::
  "('w \<Rightarrow> 'w \<times> (string + 'c)) \<Rightarrow> ('c \<Rightarrow> string + 'k) \<Rightarrow> ('c \<Rightarrow> string + 'd) \<Rightarrow> ('w, 'c) config_once
   \<Rightarrow> (('w, 'c) config_once \<times> 'k \<times> 'd) go" where
  "StartUp_clients load kubernetesNew dynamicNew s =
     go_bind (NewKubernetesClientOrDie load kubernetesNew s) (\<lambda>(s1, k8sClient).
     go_bind (NewDynamicClientOrDie load dynamicNew s1) (\<lambda>(s2, dynamicClient).
       Inr (s2, k8sClient, dynamicClient)))"

text \<open>
  The configuration is read once: both clients are made of the one that was read first,
  whatever the cluster would answer later.
\<close>

lemma clients_share_config:
  assumes "StartUp_clients load kubernetesNew dynamicNew (w, None) = Inr (s, k, d)"
  shows "\<exists>w' cfg. load w = (w', Inr cfg) \<and> s = (w', Some (Inr cfg))
    \<and> kubernetesNew cfg = Inr k \<and> dynamicNew cfg = Inr d"
  using assms
  by (cases "load w"; cases "snd (load w)")
    (auto simp: StartUp_clients_def NewKubernetesClientOrDie_def NewDynamicClientOrDie_def InClusterConfigOrDie_def
      sync_OnceValues_def or_die_def Let_def go_bind_Inr_iff split: sum.splits)

text \<open>A failure is remembered as well: every later attempt panics with the same error.\<close>

lemma config_failure_remembered:
  assumes "load w = (w', Inl err)"
  shows "snd (fst (sync_OnceValues load (w, None))) = Some (Inl err)
    \<and> InClusterConfigOrDie load (fst (sync_OnceValues load (w, None))) = Inl (PanicWith err)"
  using assms by (simp add: InClusterConfigOrDie_def sync_OnceValues_def)

subsection \<open>Metrics\<close>

text \<open>
  The server of the metrics, which nothing starts. \<open>serve listener closed\<close> is what
  \<open>http.Server.Serve\<close> has answered (\<open>None\<close>: it is still serving), given whether the goroutine
  that waits for the context has closed the server.
\<close>

record metrics_Options =
  metrics_address :: string

definition NewMetricsOptions :: metrics_Options where
  "NewMetricsOptions = \<lparr>metrics_address = ''''\<rparr>"

definition RunMetricsServer ::
  "(string \<Rightarrow> string \<Rightarrow> string + 'l) \<Rightarrow> ('l \<Rightarrow> bool \<Rightarrow> string option) \<Rightarrow> bool \<Rightarrow> metrics_Options \<Rightarrow> string option go" where
  "RunMetricsServer listen serve ctxDone opts =
     go_bind (NewListenerOrDie listen ''tcp'' (metrics_address opts)) (\<lambda>listener. Inr (serve listener ctxDone))"

text \<open>The three collectors, by their names and labels.\<close>

record metric =
  mt_Namespace :: string
  mt_Subsystem :: string
  mt_Name :: string
  mt_labels :: "string list"

definition SideCarsConnected :: metric where
  "SideCarsConnected = \<lparr>mt_Namespace = ''default'', mt_Subsystem = ''mesh_ctrl'', mt_Name = ''sidecars_connected'', mt_labels = []\<rparr>"

definition SubscriptionEventsTotal :: metric where
  "SubscriptionEventsTotal = \<lparr>mt_Namespace = ''default'', mt_Subsystem = ''mesh_ctrl'',
     mt_Name = ''subscription_events_total'', mt_labels = [''event_type'', ''op_type'']\<rparr>"

definition ReconcileDurationSeconds :: metric where
  "ReconcileDurationSeconds = \<lparr>mt_Namespace = ''default'', mt_Subsystem = ''mesh_ctrl'',
     mt_Name = ''reconcile_duration_seconds'', mt_labels = []\<rparr>"

definition metric_key :: "metric \<Rightarrow> string \<times> string \<times> string" where
  "metric_key m = (mt_Namespace m, mt_Subsystem m, mt_Name m)"

text \<open>
  \<open>registerer.Register\<close> is a parameter; the library documents that a collector whose name is
  registered already is refused and any other valid one is added. \<open>MustRegister\<close> panics at
  the first refusal.
\<close>

definition register_contract :: "('r \<Rightarrow> metric \<Rightarrow> string + 'r) \<Rightarrow> ('r \<Rightarrow> (string \<times> string \<times> string) set) \<Rightarrow> bool" where
  "register_contract register keys \<longleftrightarrow>
     (\<forall>r m. metric_key m \<in> keys r \<longrightarrow> (\<exists>err. register r m = Inl err))
   \<and> (\<forall>r m. metric_key m \<notin> keys r \<longrightarrow> (\<exists>r'. register r m = Inr r' \<and> keys r' = insert (metric_key m) (keys r)))"

definition must_register_all :: "('r \<Rightarrow> metric \<Rightarrow> string + 'r) \<Rightarrow> 'r \<Rightarrow> metric list \<Rightarrow> 'r go" where
  "must_register_all register = go_fold (\<lambda>r m. or_die (register r m))"

text \<open>\<open>sync.Once.Do\<close>: the flag is set by the first call.\<close>

definition MustRegister :: "('r \<Rightarrow> metric \<Rightarrow> string + 'r) \<Rightarrow> bool \<times> 'r \<Rightarrow> (bool \<times> 'r) go" where
  "MustRegister register s =
     (case s of (once, r) \<Rightarrow>
        if once then Inr (once, r)
        else go_bind (must_register_all register r
               [SideCarsConnected, SubscriptionEventsTotal, ReconcileDurationSeconds]) (\<lambda>r'. Inr (True, r')))"

text \<open>
  However often it is called, the metrics are registered once, and no call panics unless one
  of the names was taken before.
\<close>

lemma MustRegister_idempotent: "MustRegister register s = Inr s' \<Longrightarrow> MustRegister register s' = Inr s'"
  by (auto simp: MustRegister_def go_bind_Inr_iff split: prod.splits if_splits)

lemma MustRegister_once:
  assumes "register_contract register keys"
    and "keys r \<inter> {metric_key SideCarsConnected, metric_key SubscriptionEventsTotal, metric_key ReconcileDurationSeconds} = {}"
  shows "\<exists>r'. go_iter (Suc n) (MustRegister register) (False, r) = Inr (True, r')
    \<and> keys r' = keys r \<union> {metric_key SideCarsConnected, metric_key SubscriptionEventsTotal, metric_key ReconcileDurationSeconds}"
proof -
  have add: "\<exists>r'. register r m = Inr r' \<and> keys r' = insert (metric_key m) (keys r)" if "metric_key m \<notin> keys r" for r m
    using assms(1) that by (simp add: register_contract_def)
  from assms(2) add obtain r1 where
    r1: "register r SideCarsConnected = Inr r1" "keys r1 = insert (metric_key SideCarsConnected) (keys r)" by force
  have "metric_key SubscriptionEventsTotal \<notin> keys r1" unfolding r1(2) using assms(2)
    by (simp add: metric_key_def SideCarsConnected_def SubscriptionEventsTotal_def)
  then obtain r2 where
    r2: "register r1 SubscriptionEventsTotal = Inr r2" "keys r2 = insert (metric_key SubscriptionEventsTotal) (keys r1)"
    using add by force
  have "metric_key ReconcileDurationSeconds \<notin> keys r2" unfolding r2(2) r1(2) using assms(2)
    by (simp add: metric_key_def SideCarsConnected_def SubscriptionEventsTotal_def ReconcileDurationSeconds_def)
  then obtain r3 where
    r3: "register r2 ReconcileDurationSeconds = Inr r3" "keys r3 = insert (metric_key ReconcileDurationSeconds) (keys r2)"
    using add by force
  have "MustRegister register (False, r) = Inr (True, r3)"
    using r1(1) r2(1) r3(1) by (simp add: MustRegister_def must_register_all_def)
  moreover have "go_iter n (MustRegister register) (True, r3) = Inr (True, r3)"
    by (induction n) (simp_all add: MustRegister_def)
  moreover have "keys r3 = keys r \<union> {metric_key SideCarsConnected, metric_key SubscriptionEventsTotal, metric_key ReconcileDurationSeconds}"
    unfolding r3(2) r2(2) r1(2) by auto
  ultimately show ?thesis by auto
qed

end
