(* ===== verification/Flags.thy ===== *)
theory Flags
  imports Ctl_Server Proxy_Transport Tools
begin

section \<open>Options and flags\<close>

text \<open>
  The \<open>options.go\<close> files of both programs and \<open>internal/cli/proxy/server.go\<close>. A flag
  set (\<open>github.com/spf13/pflag\<close>) is a parameter: \<open>reg fs name v\<close> defines a flag with the
  default \<open>v\<close>. Defining one assigns its default to the variable, so each \<open>AddFlags\<close> returns the
  options with their defaults and the extended set. Usage texts are left out.
\<close>

datatype flag_value = FString string | FInt int | FInt64 int | FFloat64 float64

type_synonym 'f registrar = "'f \<Rightarrow> string \<Rightarrow> flag_value \<Rightarrow> 'f go"

text \<open>\<open>pflag\<close> documents: a name that is defined already panics, any other is added.\<close>

definition flag_contract :: "'f registrar \<Rightarrow> ('f \<Rightarrow> string set) \<Rightarrow> bool" where
  "flag_contract reg names \<longleftrightarrow>
     (\<forall>fs n v. n \<in> names fs \<longrightarrow> reg fs n v = Inl FlagRedefined)
   \<and> (\<forall>fs n v. n \<notin> names fs \<longrightarrow> (\<exists>fs'. reg fs n v = Inr fs' \<and> names fs' = insert n (names fs)))"

fun define_all :: "'f registrar \<Rightarrow> 'f \<Rightarrow> (string \<times> flag_value) list \<Rightarrow> 'f go" where
  "define_all reg fs [] = Inr fs"
| "define_all reg fs ((n, v) # ds) = go_bind (reg fs n v) (\<lambda>fs'. define_all reg fs' ds)"

lemma define_all_append: "define_all reg fs (ds @ ds') = go_bind (define_all reg fs ds) (\<lambda>fs'. define_all reg fs' ds')"
  by (induction ds arbitrary: fs) (auto simp: go_bind_assoc)

lemma define_all_names:
  assumes "flag_contract reg names"
  shows "define_all reg fs ds = Inr fs' \<Longrightarrow> names fs' = fst ` set ds \<union> names fs"
    and "distinct (map fst ds) \<Longrightarrow> fst ` set ds \<inter> names fs = {} \<Longrightarrow> \<exists>fs'. define_all reg fs ds = Inr fs'"
    and "\<not> (distinct (map fst ds) \<and> fst ` set ds \<inter> names fs = {}) \<Longrightarrow> define_all reg fs ds = Inl FlagRedefined"
proof -
  have reg: "reg fs n v = Inl FlagRedefined" if "n \<in> names fs" for fs n v
    using assms that by (simp add: flag_contract_def)
  have reg': "\<exists>fs'. reg fs n v = Inr fs' \<and> names fs' = insert n (names fs)" if "n \<notin> names fs" for fs n v
    using assms that by (simp add: flag_contract_def)
  have all: "if distinct (map fst ds) \<and> fst ` set ds \<inter> names fs = {}
    then \<exists>fs'. define_all reg fs ds = Inr fs' \<and> names fs' = fst ` set ds \<union> names fs
    else define_all reg fs ds = Inl FlagRedefined" for fs
  proof (induction ds arbitrary: fs)
    case (Cons d ds)
    obtain n v where d: "d = (n, v)" by (cases d)
    show ?case
    proof (cases "n \<in> names fs")
      case False
      with reg' obtain fs1 where fs1: "reg fs n v = Inr fs1" "names fs1 = insert n (names fs)" by blast
      have "(distinct (map fst (d # ds)) \<and> fst ` set (d # ds) \<inter> names fs = {})
        = (distinct (map fst ds) \<and> fst ` set ds \<inter> names fs1 = {})"
        using d False fs1(2) by (auto simp: image_iff)
      with Cons.IH [of fs1] fs1 d show ?thesis by (auto split: if_splits)
    qed (use d reg in auto)
  qed simp
  show "names fs' = fst ` set ds \<union> names fs" if "define_all reg fs ds = Inr fs'"
    using all [of fs] that by (auto split: if_splits)
  show "\<exists>fs'. define_all reg fs ds = Inr fs'" if "distinct (map fst ds)" "fst ` set ds \<inter> names fs = {}"
    using all [of fs] that by auto
  show "define_all reg fs ds = Inl FlagRedefined" if "\<not> (distinct (map fst ds) \<and> fst ` set ds \<inter> names fs = {})"
    using all [of fs] that by (auto split: if_splits)
qed

subsection \<open>The sidecar program's options\<close>

definition breaker_AddFlags :: "'f registrar \<Rightarrow> Options \<Rightarrow> 'f \<Rightarrow> (Options \<times> 'f) go" where
  "breaker_AddFlags reg o1 fs =
     go_bind (reg fs ''window-size'' (FInt (opt_windowCapacity o1))) (\<lambda>f1.
     go_bind (reg f1 ''half-open-allowed'' (FInt (opt_halfOpenAllowed o1))) (\<lambda>f2.
     go_bind (reg f2 ''min-request-count'' (FInt (opt_minRequestCount o1))) (\<lambda>f3.
     go_bind (reg f3 ''failure-rate-threshold'' (FFloat64 (opt_failureRateThreshold o1))) (\<lambda>f4.
     go_bind (reg f4 ''half-open-max-duration'' (FInt64 (opt_halfOpenMaxDuration o1))) (\<lambda>f5.
     go_bind (reg f5 ''open-duration'' (FInt64 (opt_openDuration o1))) (\<lambda>f6. Inr (o1, f6)))))))"

record stgsvr_Options =
  stgSvrAddress :: string

definition stgsvr_NewOptions :: stgsvr_Options where
  "stgsvr_NewOptions = \<lparr>stgSvrAddress = ''''\<rparr>"

definition stgsvr_AddFlags :: "'f registrar \<Rightarrow> stgsvr_Options \<Rightarrow> 'f \<Rightarrow> (stgsvr_Options \<times> 'f) go" where
  "stgsvr_AddFlags reg o1 fs =
     go_bind (reg fs ''stg-svr-address'' (FString '':8081'')) (\<lambda>f1. Inr (o1\<lparr>stgSvrAddress := '':8081''\<rparr>, f1))"

record rpcclient_Options =
  rc_uid :: string
  rc_capacity :: int
  rc_remote :: string

definition rpcclient_NewOptions :: rpcclient_Options where
  "rpcclient_NewOptions = \<lparr>rc_uid = '''', rc_capacity = 0, rc_remote = ''''\<rparr>"

definition rpcclient_AddFlags :: "'f registrar \<Rightarrow> rpcclient_Options \<Rightarrow> 'f \<Rightarrow> (rpcclient_Options \<times> 'f) go" where
  "rpcclient_AddFlags reg o1 fs =
     go_bind (reg fs ''uid'' (FString ''mesh-cli'')) (\<lambda>f1.
     go_bind (reg f1 ''cache-capacity'' (FInt 100)) (\<lambda>f2.
     go_bind (reg f2 ''target'' (FString ''mesh-ctrl:50051'')) (\<lambda>f3.
       Inr (\<lparr>rc_uid = ''mesh-cli'', rc_capacity = 100, rc_remote = ''mesh-ctrl:50051''\<rparr>, f3))))"

record proxy_Options =
  listenAddress :: string
  configFile :: string
  breakerOpts :: Options
  px_config :: "Config option"

definition proxy_NewOptions :: proxy_Options where
  "proxy_NewOptions = \<lparr>listenAddress = '':8081'', configFile = '''', breakerOpts = breaker_NewOptions, px_config = None\<rparr>"

definition proxy_AddFlags :: "'f registrar \<Rightarrow> proxy_Options \<Rightarrow> 'f \<Rightarrow> (proxy_Options \<times> 'f) go" where
  "proxy_AddFlags reg o1 fs =
     go_bind (reg fs ''listen-address'' (FString (listenAddress o1))) (\<lambda>f1.
     go_bind (reg f1 ''config'' (FString (configFile o1))) (\<lambda>f2.
     go_bind (breaker_AddFlags reg (breakerOpts o1) f2) (\<lambda>(b, f3). Inr (o1\<lparr>breakerOpts := b\<rparr>, f3))))"

record cli_Options =
  stgSvrOptions :: stgsvr_Options
  breakerOptions :: Options
  proxyOptions :: proxy_Options
  rpcClientOptions :: rpcclient_Options

definition cli_NewOptions :: cli_Options where
  "cli_NewOptions = \<lparr>stgSvrOptions = stgsvr_NewOptions, breakerOptions = breaker_NewOptions,
     proxyOptions = proxy_NewOptions, rpcClientOptions = rpcclient_NewOptions\<rparr>"

definition cli_AddFlags :: "'f registrar \<Rightarrow> cli_Options \<Rightarrow> 'f \<Rightarrow> (cli_Options \<times> 'f) go" where
  "cli_AddFlags reg o1 fs =
     go_bind (stgsvr_AddFlags reg (stgSvrOptions o1) fs) (\<lambda>(s, f1).
     go_bind (breaker_AddFlags reg (breakerOptions o1) f1) (\<lambda>(b, f2).
     go_bind (proxy_AddFlags reg (proxyOptions o1) f2) (\<lambda>(p, f3).
     go_bind (rpcclient_AddFlags reg (rpcClientOptions o1) f3) (\<lambda>(r, f4).
       Inr (\<lparr>stgSvrOptions = s, breakerOptions = b, proxyOptions = p, rpcClientOptions = r\<rparr>, f4)))))"

text \<open>\<open>LoadConfig\<close> and \<open>NewProxy\<close>: a breaker exists only when the HTTP proxy is enabled.\<close>

definition proxy_LoadConfig :: "(string \<Rightarrow> string + Config) \<Rightarrow> proxy_Options \<Rightarrow> proxy_Options \<times> string option" where
  "proxy_LoadConfig load o1 =
     (if configFile o1 = '''' then (o1\<lparr>px_config := Some zero_config\<rparr>, None)
      else case load (configFile o1) of
        Inl err \<Rightarrow> (o1, Some err)
      | Inr config \<Rightarrow> (o1\<lparr>px_config := Some config\<rparr>, None))"

definition NewProxy :: "(string \<Rightarrow> string + Config) \<Rightarrow> ServiceCache \<Rightarrow> proxy_Options \<Rightarrow> string + Listener" where
  "NewProxy load cache opts =
     (case proxy_LoadConfig load opts of
        (opts', Some err) \<Rightarrow> Inl err
      | (opts', None) \<Rightarrow>
          Inr (NewListener cache (px_config opts')
            (case px_config opts' of
                None \<Rightarrow> None
              | Some config \<Rightarrow> if Enabled (HTTP config) then Some (NewBreaker (breakerOpts opts')) else None)))"

subsection \<open>The controller's options\<close>

definition grpc_NewOptions :: grpc_Options where
  "grpc_NewOptions = \<lparr>grpc_network = '''', grpc_address = ''''\<rparr>"

definition InitializeOptions :: "string \<Rightarrow> string \<Rightarrow> grpc_Options" where
  "InitializeOptions network address = \<lparr>grpc_network = network, grpc_address = address\<rparr>"

definition NewStartUpOptions :: StartUpOptions where
  "NewStartUpOptions = \<lparr>so_label = '''', so_gvrVersion = '''', so_gvrGroup = '''', so_gvrResource = '''',
     so_crdWorkerMaxRetries = -1, so_grpcOptions = grpc_NewOptions, so_certFile = '''',
     so_keyFile = '''', so_address = '''', so_gracefulShutdownTimeout = 0\<rparr>"

definition grpc_AddFlags :: "'f registrar \<Rightarrow> grpc_Options \<Rightarrow> 'f \<Rightarrow> (grpc_Options \<times> 'f) go" where
  "grpc_AddFlags reg o1 fs =
     go_bind (reg fs ''grpc-network'' (FString ''tcp'')) (\<lambda>f1.
     go_bind (reg f1 ''grpc-address'' (FString '':50051'')) (\<lambda>f2.
       Inr (InitializeOptions ''tcp'' '':50051'', f2)))"

definition startup_AddFlags :: "'f registrar \<Rightarrow> StartUpOptions \<Rightarrow> 'f \<Rightarrow> (StartUpOptions \<times> 'f) go" where
  "startup_AddFlags reg o1 fs =
     go_bind (reg fs ''label'' (FString ''masha.io/injection'')) (\<lambda>f1.
     go_bind (reg f1 ''gvr-version'' (FString ''v1'')) (\<lambda>f2.
     go_bind (reg f2 ''gvr-group'' (FString ''masha.io'')) (\<lambda>f3.
     go_bind (reg f3 ''gvr-resource'' (FString ''containers'')) (\<lambda>f4.
     go_bind (reg f4 ''crd-worker-max-retries'' (FInt (so_crdWorkerMaxRetries o1))) (\<lambda>f5.
     go_bind (reg f5 ''cert-file'' (FString '''')) (\<lambda>f6.
     go_bind (reg f6 ''key-file'' (FString '''')) (\<lambda>f7.
     go_bind (reg f7 ''address'' (FString '':443'')) (\<lambda>f8.
     go_bind (reg f8 ''graceful-shutdown-timeout'' (FInt 10)) (\<lambda>f9.
     go_bind (grpc_AddFlags reg (so_grpcOptions o1) f9) (\<lambda>(grpcOptions, f10).
       Inr (o1\<lparr>so_label := ''masha.io/injection'', so_gvrVersion := ''v1'', so_gvrGroup := ''masha.io'',
         so_gvrResource := ''containers'', so_certFile := '''', so_keyFile := '''', so_address := '':443'',
         so_gracefulShutdownTimeout := 10, so_grpcOptions := grpcOptions\<rparr>, f10)))))))))))"

definition NewShutdownOptions :: ShutdownOptions where
  "NewShutdownOptions = \<lparr>sd_certFile = '''', sd_address = '''', sd_gracefulShutdownTimeout = 0\<rparr>"

definition shutdown_AddFlags :: "'f registrar \<Rightarrow> ShutdownOptions \<Rightarrow> 'f \<Rightarrow> (ShutdownOptions \<times> 'f) go" where
  "shutdown_AddFlags reg o1 fs =
     go_bind (reg fs ''cert-file'' (FString '''')) (\<lambda>f1.
     go_bind (reg f1 ''address'' (FString '':443'')) (\<lambda>f2.
     go_bind (reg f2 ''graceful-shutdown-timeout'' (FInt 10)) (\<lambda>f3.
       Inr (\<lparr>sd_certFile = '''', sd_address = '':443'', sd_gracefulShutdownTimeout = 10\<rparr>, f3))))"

text \<open>\<open>pkg/metrics/options.go\<close>, which no command registers.\<close>

definition metrics_AddFlags :: "'f registrar \<Rightarrow> metrics_Options \<Rightarrow> 'f \<Rightarrow> (metrics_Options \<times> 'f) go" where
  "metrics_AddFlags reg o1 fs =
     go_bind (reg fs ''metrics-address'' (FString '':8080'')) (\<lambda>f1. Inr (o1\<lparr>metrics_address := '':8080''\<rparr>, f1))"

subsection \<open>The commands\<close>

text \<open>
  The constructors of \<open>cmd/cli/cli.go\<close> and \<open>cmd/ctrl/app\<close>: the options of a command, and its
  flag set after they are registered. A subcommand has a flag set of its own.
\<close>

definition cli_NewCommand :: "'f registrar \<Rightarrow> 'f \<Rightarrow> (cli_Options \<times> 'f) go" where
  "cli_NewCommand reg fs = cli_AddFlags reg cli_NewOptions fs"

definition NewStartUpCommand :: "'f registrar \<Rightarrow> 'f \<Rightarrow> (StartUpOptions \<times> 'f) go" where
  "NewStartUpCommand reg fs = startup_AddFlags reg NewStartUpOptions fs"

definition NewShutDownCommand :: "'f registrar \<Rightarrow> 'f \<Rightarrow> (ShutdownOptions \<times> 'f) go" where
  "NewShutDownCommand reg fs = shutdown_AddFlags reg NewShutdownOptions fs"

definition ctrl_NewCommand :: "'f registrar \<Rightarrow> 'f \<Rightarrow> ((StartUpOptions \<times> 'f) \<times> (ShutdownOptions \<times> 'f)) go" where
  "ctrl_NewCommand reg fs =
     go_bind (NewStartUpCommand reg fs) (\<lambda>startup.
     go_bind (NewShutDownCommand reg fs) (\<lambda>shutdown. Inr (startup, shutdown)))"

text \<open>
  The main functions. \<open>Execute\<close> (parsing the arguments, running the command) is the library's:
  \<open>execute\<close> gives the error it returns. The sidecar's exits with a code, the controller's panics.
\<close>

definition cli_main :: "'f registrar \<Rightarrow> 'f \<Rightarrow> (cli_Options \<times> 'f \<Rightarrow> string option) \<Rightarrow> nat go" where
  "cli_main reg fs execute =
     go_bind (cli_NewCommand reg fs) (\<lambda>command.
       case execute command of Some err \<Rightarrow> Inr 1 | None \<Rightarrow> Inr 0)"

definition ctrl_main ::
  "'f registrar \<Rightarrow> 'f \<Rightarrow> ((StartUpOptions \<times> 'f) \<times> (ShutdownOptions \<times> 'f) \<Rightarrow> string option) \<Rightarrow> nat go" where
  "ctrl_main reg fs execute =
     go_bind (ctrl_NewCommand reg fs) (\<lambda>command.
       case execute command of Some err \<Rightarrow> Inl (PanicWith err) | None \<Rightarrow> Inr 0)"

subsection \<open>The definitions of each set as one list\<close>

definition breaker_flags :: "Options \<Rightarrow> (string \<times> flag_value) list" where
  "breaker_flags o1 = [(''window-size'', FInt (opt_windowCapacity o1)), (''half-open-allowed'', FInt (opt_halfOpenAllowed o1)),
     (''min-request-count'', FInt (opt_minRequestCount o1)), (''failure-rate-threshold'', FFloat64 (opt_failureRateThreshold o1)),
     (''half-open-max-duration'', FInt64 (opt_halfOpenMaxDuration o1)), (''open-duration'', FInt64 (opt_openDuration o1))]"

definition startup_flags :: "StartUpOptions \<Rightarrow> (string \<times> flag_value) list" where
  "startup_flags o1 = [(''label'', FString ''masha.io/injection''), (''gvr-version'', FString ''v1''),
     (''gvr-group'', FString ''masha.io''), (''gvr-resource'', FString ''containers''),
     (''crd-worker-max-retries'', FInt (so_crdWorkerMaxRetries o1)), (''cert-file'', FString ''''), (''key-file'', FString ''''),
     (''address'', FString '':443''), (''graceful-shutdown-timeout'', FInt 10), (''grpc-network'', FString ''tcp''),
     (''grpc-address'', FString '':50051'')]"

lemma breaker_AddFlags_all:
  "breaker_AddFlags reg o1 fs = go_bind (define_all reg fs (breaker_flags o1)) (\<lambda>f. Inr (o1, f))"
  by (simp add: breaker_AddFlags_def breaker_flags_def go_bind_assoc)

lemma cli_AddFlags_all:
  "\<exists>k. cli_AddFlags reg o1 fs = go_bind (define_all reg fs
     ((''stg-svr-address'', FString '':8081'') # breaker_flags (breakerOptions o1)
      @ [(''listen-address'', FString (listenAddress (proxyOptions o1))), (''config'', FString (configFile (proxyOptions o1)))]
      @ breaker_flags (breakerOpts (proxyOptions o1)))) k"
  by (rule exI [of _ "\<lambda>f3. go_bind (rpcclient_AddFlags reg (rpcClientOptions o1) f3) (\<lambda>(r, f4).
       Inr (\<lparr>stgSvrOptions = (stgSvrOptions o1)\<lparr>stgSvrAddress := '':8081''\<rparr>, breakerOptions = breakerOptions o1,
         proxyOptions = proxyOptions o1, rpcClientOptions = r\<rparr>, f4))"])
    (simp add: cli_AddFlags_def stgsvr_AddFlags_def proxy_AddFlags_def breaker_AddFlags_all define_all_append go_bind_assoc)

lemma startup_AddFlags_all:
  "startup_AddFlags reg o1 fs = go_bind (define_all reg fs (startup_flags o1)) (\<lambda>f.
     Inr (o1\<lparr>so_label := ''masha.io/injection'', so_gvrVersion := ''v1'', so_gvrGroup := ''masha.io'',
         so_gvrResource := ''containers'', so_certFile := '''', so_keyFile := '''', so_address := '':443'',
         so_gracefulShutdownTimeout := 10, so_grpcOptions := InitializeOptions ''tcp'' '':50051''\<rparr>, f))"
  by (simp add: startup_AddFlags_def grpc_AddFlags_def startup_flags_def go_bind_assoc)

end
