(* ===== verification/Hook_Properties.thy ===== *)
theory Hook_Properties
  imports Flags Ctl_Properties
begin

section \<open>Properties of the controller's hooks, its shutdown and the options\<close>

subsection \<open>The webhook\<close>

lemma decide_admitted:
  assumes "\<And>ps b. marshal ps = Inr b \<Longrightarrow> readPatch b = ps" and "cache_ok (mh_kv m)"
    and "ad_Allowed (decide marshal m UID pod)"
  shows "decide marshal m UID' (admitted readPatch (decide marshal m UID pod) pod) = plain_response UID' True"
proof -
  have "containerInjected (pod\<lparr>pod_Containers := pod_Containers pod @ [c]\<rparr>) n" if "mh_kv m n = Some (Some c)" for n c
    using cache_okD [OF assms(2) that] by (auto simp: containerInjected_iff)
  with assms(1,3) show ?thesis
    by (auto simp: decide_def admitted_def apply_op_def plain_response_def split: option.splits if_splits sum.splits)
qed

text \<open>
  C14: The admission webhook over the cache that the informer's callbacks and the worker build. From
  an empty cache, after any interleaving of them, a readable review is answered with 200 and
  never a panic. A pod without the label passes as it is; one whose label names a container it
  already has passes as it is; one whose label names a cached container passes with that very
  container appended; any other pod is refused. An admitted pod, reviewed again as patched,
  passes unchanged: the container is injected once. Every answer leaves the API version and kind
  of the review empty, which the API server requires to be those of the request.
\<close>

theorem injected_once:
  assumes "cs_cache s0 = NewGeneralCache" "go_run (crd_step kc wq fu w) s0 es = Inr (s, ys)"
    and "\<forall>ps b. marshal ps = Inr b \<longrightarrow> readPatch b = ps"
    and "decode body = Inr review" "rv_Request review = Some rq" "unmarshal (ar_Object_Raw rq) = Inr pod"
    and "mh_kv m = cs_cache s"
  shows "\<exists>r. mutate_ServeHTTP decode unmarshal marshal m ''POST'' body
      = Inr (200, Some \<lparr>rv_TypeMeta = no_TypeMeta, rv_Request = None, rv_Response = Some r\<rparr>)
    \<and> ad_UID r = ar_UID rq
    \<and> (case map_of (pod_Labels pod) (mh_label m) of
         None \<Rightarrow> ad_Allowed r \<and> admitted readPatch r pod = pod
       | Some n \<Rightarrow>
           (if n \<in> cc_Name ` set (pod_InitContainers pod @ pod_Containers pod)
            then ad_Allowed r \<and> admitted readPatch r pod = pod
            else (ad_Allowed r \<longrightarrow> (\<exists>c. cs_cache s n = Some (Some c) \<and> cc_Name c = n
                    \<and> admitted readPatch r pod = pod\<lparr>pod_Containers := pod_Containers pod @ [c]\<rparr>))
               \<and> (\<not> ad_Allowed r \<longrightarrow> cs_cache s n = None \<or> (\<exists>c err. cs_cache s n = Some (Some c)
                    \<and> marshal [\<lparr>pt_op = ''add'', pt_path = ''/spec/containers/-'', pt_value = c\<rparr>] = Inl err))))
    \<and> (ad_Allowed r \<longrightarrow> (\<forall>body' review' rq'. decode body' = Inr review' \<longrightarrow> rv_Request review' = Some rq' \<longrightarrow>
         unmarshal (ar_Object_Raw rq') = Inr (admitted readPatch r pod) \<longrightarrow>
         mutate_ServeHTTP decode unmarshal marshal m ''POST'' body'
           = Inr (200, Some \<lparr>rv_TypeMeta = no_TypeMeta, rv_Request = None, rv_Response = Some (plain_response (ar_UID rq') True)\<rparr>)))"
proof -
  have "crd_inv s0" using assms(1) by (simp add: crd_inv_def cache_ok_def NewGeneralCache_def)
  from crd.run_inv [OF this _ assms(2)] have ok: "cache_ok (mh_kv m)"
    using assms(7) by (simp add: crd_inv_def list_all_iff)
  let ?r = "decide marshal m (ar_UID rq) pod"
  have run: "mutate_ServeHTTP decode unmarshal marshal m ''POST'' body
      = Inr (200, Some \<lparr>rv_TypeMeta = no_TypeMeta, rv_Request = None, rv_Response = Some ?r\<rparr>)"
    by (rule mutate_decides [where unmarshal = unmarshal and decode = decode, OF ok assms(4,5,6)])
  have uid: "ad_UID ?r = ar_UID rq"
    by (simp add: decide_def plain_response_def split: option.splits sum.splits)
  have "case map_of (pod_Labels pod) (mh_label m) of
         None \<Rightarrow> ad_Allowed ?r \<and> admitted readPatch ?r pod = pod
       | Some n \<Rightarrow>
           (if n \<in> cc_Name ` set (pod_InitContainers pod @ pod_Containers pod)
            then ad_Allowed ?r \<and> admitted readPatch ?r pod = pod
            else (ad_Allowed ?r \<longrightarrow> (\<exists>c. cs_cache s n = Some (Some c) \<and> cc_Name c = n
                    \<and> admitted readPatch ?r pod = pod\<lparr>pod_Containers := pod_Containers pod @ [c]\<rparr>))
               \<and> (\<not> ad_Allowed ?r \<longrightarrow> cs_cache s n = None \<or> (\<exists>c err. cs_cache s n = Some (Some c)
                    \<and> marshal [\<lparr>pt_op = ''add'', pt_path = ''/spec/containers/-'', pt_value = c\<rparr>] = Inl err)))"
    using cache_okD [OF ok [unfolded assms(7)]] assms(3) by (fastforce simp: decide_def admitted_def apply_op_def plain_response_def assms(7)
        containerInjected_iff split: option.splits sum.splits)
  moreover have "mutate_ServeHTTP decode unmarshal marshal m ''POST'' body'
      = Inr (200, Some \<lparr>rv_TypeMeta = no_TypeMeta, rv_Request = None, rv_Response = Some (plain_response (ar_UID rq') True)\<rparr>)"
    if "ad_Allowed ?r" "decode body' = Inr review'" "rv_Request review' = Some rq'"
      "unmarshal (ar_Object_Raw rq') = Inr (admitted readPatch ?r pod)" for body' review' rq'
    using mutate_decides [where unmarshal = unmarshal and decode = decode and marshal = marshal, OF ok that(2-4)]
      decide_admitted [where UID' = "ar_UID rq'", OF _ ok that(1)] assms(3) by simp
  ultimately show ?thesis using run uid by blast
qed

definition demo_patch :: "patch_op list" where
  "demo_patch = [\<lparr>pt_op = ''add'', pt_path = ''/spec/containers/-'', pt_value = sample_container ''car'' ''v1''\<rparr>]"

definition demo_pod :: Pod where
  "demo_pod = \<lparr>pod_Labels = [(''inject'', ''car'')], pod_InitContainers = [], pod_Containers = []\<rparr>"

definition demo_review :: "string \<Rightarrow> AdmissionReview" where
  "demo_review raw = \<lparr>rv_TypeMeta = (''admission.k8s.io/v1'', ''AdmissionReview''), rv_Request = Some \<lparr>ar_UID = ''u1'', ar_Object_Raw = raw\<rparr>, rv_Response = None\<rparr>"

lemma demo_added:
  "go_run (crd_step plain_kube plain_work_queue (\<lambda>u. Inr (sample_resource ''car'' ''v1'')) \<lparr>w_label = ''inject'', w_maxRetries = 2\<rparr>)
     (sample_state\<lparr>cs_cache := NewGeneralCache\<rparr>) [CrdAdded (AnyUnstructured (Some JNull))]
   = Inr (sample_state\<lparr>cs_cache := [''car'' \<mapsto> Some (sample_container ''car'' ''v1'')], cs_queue := ([''Add/ns/car''], \<lambda>_. 0)\<rparr>, [()])"
  by (simp add: crd_OnAdded_def ParseContainer_def toContainerUnstructured_def gc_Add_def NewGeneralCache_def
      crd_enqueue_def plain_work_queue_def sample_ctl_defs sample_state_def ToCoreV1Container_def event_key_def
      EventTypeAdd_def Let_def)

theorem injected_once_witness:
  "\<exists>r. mutate_ServeHTTP (\<lambda>body. Inr (demo_review body)) (\<lambda>raw. Inr demo_pod) (\<lambda>ps. if ps = demo_patch then Inr ''p'' else Inl ''e'')
      \<lparr>mh_kv = [''car'' \<mapsto> Some (sample_container ''car'' ''v1'')], mh_label = ''inject''\<rparr> ''POST'' ''x''
    = Inr (200, Some \<lparr>rv_TypeMeta = no_TypeMeta, rv_Request = None, rv_Response = Some r\<rparr>) \<and> ad_UID r = ''u1''"
proof -
  let ?s0 = "sample_state\<lparr>cs_cache := NewGeneralCache\<rparr>"
  have e: "cs_cache ?s0 = NewGeneralCache" by simp
  have p: "\<forall>ps b. (if ps = demo_patch then Inr ''p'' else Inl ''e'') = Inr b \<longrightarrow> demo_patch = ps"
    by simp
  have d: "(\<lambda>body. Inr (demo_review body)) ''x'' = (Inr (demo_review ''x'') :: string + AdmissionReview)"
    "rv_Request (demo_review ''x'') = Some \<lparr>ar_UID = ''u1'', ar_Object_Raw = ''x''\<rparr>"
    "(\<lambda>raw. Inr demo_pod) (ar_Object_Raw \<lparr>ar_UID = ''u1'', ar_Object_Raw = ''x''\<rparr>) = (Inr demo_pod :: string + Pod)"
    by (simp_all add: demo_review_def)
  have m: "mh_kv \<lparr>mh_kv = [''car'' \<mapsto> Some (sample_container ''car'' ''v1'')], mh_label = ''inject''\<rparr>
    = cs_cache (sample_state\<lparr>cs_cache := [''car'' \<mapsto> Some (sample_container ''car'' ''v1'')], cs_queue := ([''Add/ns/car''], \<lambda>_. 0)\<rparr>)"
    by simp
  from injected_once [where marshal = "\<lambda>ps. if ps = demo_patch then Inr ''p'' else Inl ''e''" and readPatch = "\<lambda>_. demo_patch"
      and decode = "\<lambda>body. Inr (demo_review body)" and unmarshal = "\<lambda>raw. Inr demo_pod", OF e demo_added p d m]
  obtain r where "mutate_ServeHTTP (\<lambda>body. Inr (demo_review body)) (\<lambda>raw. Inr demo_pod) (\<lambda>ps. if ps = demo_patch then Inr ''p'' else Inl ''e'')
      \<lparr>mh_kv = [''car'' \<mapsto> Some (sample_container ''car'' ''v1'')], mh_label = ''inject''\<rparr> ''POST'' ''x''
    = Inr (200, Some \<lparr>rv_TypeMeta = no_TypeMeta, rv_Request = None, rv_Response = Some r\<rparr>)" "ad_UID r = ar_UID \<lparr>ar_UID = ''u1'', ar_Object_Raw = ''x''\<rparr>"
    by (elim exE conjE) (rule that)
  then show ?thesis by auto
qed

subsection \<open>The shutdown command\<close>

text \<open>
  C29: The \<open>shutdown\<close> command reaches the running controller. For every address with a port, with or
  without a host (then \<open>localhost\<close>), when the certificate can be read, it posts to \<open>/preStop\<close> of
  that host, verifies the certificate for the bare host name, and the server with the routes
  of \<open>StartUp\<close> answers 200 and closes its stop channel; a second command closes nothing again.
\<close>

theorem shutdown_reaches_prestop:
  assumes "bracket_free h" "bracket_free p" "CHR '':'' \<notin> set p" "sd_address opt = JoinHostPort h p"
    and "readFile (sd_certFile opt) = Inr pem" "certPool pem = Some roots"
    and "StartUp_handlers (NewHttpsServer so) prometheus preStop_ServeHTTP mutate readyz healthz = Inr srv"
    and "preStop_inv w"
    and "\<forall>v client. hc_RootCAs client = roots \<longrightarrow> hc_ServerName client = (if h = '''' then ''localhost'' else h) \<longrightarrow>
      post client v (''https://'' @ JoinHostPort (if h = '''' then ''localhost'' else h) p @ ''/preStop'')
        = (case serve_mux srv ''/preStop'' v ''POST'' of Inr (v', code) \<Rightarrow> (v', Inr code) | Inl panic \<Rightarrow> (v, Inl ''EOF''))"
  shows "\<exists>w'. Shutdown readFile certPool post w opt = (w', StopRequested) \<and> ps_closed w'
    \<and> Shutdown readFile certPool post w' opt = (w', StopRequested)"
proof -
  let ?h = "if h = '''' then ''localhost'' else h"
  have free: "bracket_free ?h" using assms(1) localhost_free by simp
  have mux: "hs_mux srv ''/preStop'' = Some preStop_ServeHTTP"
    using assms(7) by (simp add: StartUp_handlers_mux) (auto simp del: HttpsServer.simps simp: HttpsServer.select_convs)
  have post: "post \<lparr>hc_Timeout = t, hc_RootCAs = roots, hc_ServerName = ?h\<rparr> v (''https://'' @ JoinHostPort ?h p @ ''/preStop'')
      = (case preStop_ServeHTTP v ''POST'' of Inr (v', code) \<Rightarrow> (v', Inr code) | Inl panic \<Rightarrow> (v, Inl ''EOF''))" for v t
    using assms(9) [THEN spec, of v, THEN spec, of "\<lparr>hc_Timeout = t, hc_RootCAs = roots, hc_ServerName = ?h\<rparr>"] mux by (simp add: serve_mux_def)
  have run: "Shutdown readFile certPool post v opt = (v\<lparr>ps_once := True, ps_closed := True\<rparr>, StopRequested)"
    if "preStop_inv v" for v
  proof -
    have "preStop_ServeHTTP v ''POST'' = Inr (v\<lparr>ps_once := True, ps_closed := True\<rparr>, 200)"
      using that by (auto simp: preStop_ServeHTTP_def preStop_inv_def)
    with post show ?thesis
      by (simp only: Shutdown_def assms(4) addressValidate_join [OF assms(1-3)] split_join [OF free assms(2,3)] assms(5,6)
          Let_def prod.case not_True_eq_False if_False sum.case option.case) simp
  qed
  have "preStop_inv (w\<lparr>ps_once := True, ps_closed := True\<rparr>)" by (simp add: preStop_inv_def)
  from run [OF assms(8)] run [OF this] show ?thesis by (intro exI conjI) (assumption, simp_all)
qed

definition demo_server :: "preStopHandler HttpsServer" where
  "demo_server = (NewHttpsServer NewStartUpOptions)\<lparr>hs_mux := [''/prometheus'' \<mapsto> (\<lambda>w m. Inr (w, 200)),
     ''/preStop'' \<mapsto> preStop_ServeHTTP, ''/mutate'' \<mapsto> (\<lambda>w m. Inr (w, 200)),
     ''/readyz'' \<mapsto> (\<lambda>w m. Inr (w, 200)), ''/healthz'' \<mapsto> (\<lambda>w m. Inr (w, 200))]\<rparr>"

definition demo_post :: "unit http_client \<Rightarrow> preStopHandler \<Rightarrow> string \<Rightarrow> preStopHandler \<times> (string + nat)" where
  "demo_post client v url = (if url = ''https://localhost:443/preStop''
     then case serve_mux demo_server ''/preStop'' v ''POST'' of Inr (v', code) \<Rightarrow> (v', Inr code) | Inl panic \<Rightarrow> (v, Inl ''EOF'')
     else (v, Inl ''no such host''))"

theorem shutdown_reaches_prestop_witness:
  "\<exists>w'. Shutdown (\<lambda>_. Inr ''pem'') (\<lambda>_. Some ()) demo_post (NewPreStopHandler False) (NewShutdownOptions\<lparr>sd_address := '':443''\<rparr>)
      = (w', StopRequested) \<and> ps_closed w'"
proof -
  have "bracket_free ''''" "bracket_free ''443''" "CHR '':'' \<notin> set ''443''"
    "sd_address (NewShutdownOptions\<lparr>sd_address := '':443''\<rparr>) = JoinHostPort '''' ''443''"
    by (simp_all add: bracket_free_def JoinHostPort_def)
  moreover have "StartUp_handlers (NewHttpsServer NewStartUpOptions) (\<lambda>w m. Inr (w, 200)) preStop_ServeHTTP
      (\<lambda>w m. Inr (w, 200)) (\<lambda>w m. Inr (w, 200)) (\<lambda>w m. Inr (w, 200)) = Inr demo_server"
    by (simp only: StartUp_handlers_mux demo_server_def)
  moreover have "preStop_inv (NewPreStopHandler False)" by (simp add: preStop_inv_def NewPreStopHandler_def)
  moreover have "\<forall>v client. hc_RootCAs client = () \<longrightarrow> hc_ServerName client = (if '''' = '''' then ''localhost'' else '''') \<longrightarrow>
      demo_post client v (''https://'' @ JoinHostPort (if '''' = '''' then ''localhost'' else '''') ''443'' @ ''/preStop'')
        = (case serve_mux demo_server ''/preStop'' v ''POST'' of Inr (v', code) \<Rightarrow> (v', Inr code) | Inl panic \<Rightarrow> (v, Inl ''EOF''))"
    by (simp add: demo_post_def JoinHostPort_def)
  ultimately show ?thesis
    using shutdown_reaches_prestop [where opt = "NewShutdownOptions\<lparr>sd_address := '':443''\<rparr>" and h = "''''" and p = "''443''"
        and readFile = "\<lambda>_. Inr ''pem''" and pem = "''pem''" and certPool = "\<lambda>_. Some ()" and roots = "()" and post = demo_post
        and srv = demo_server and w = "NewPreStopHandler False" and so = NewStartUpOptions]
    by blast
qed

subsection \<open>Flags\<close>

text \<open>
  C36: The sidecar program cannot start: whatever the flag set holds already and whatever the
  options are, registering its flags panics with a redefined flag, since the circuit breaker's
  options are registered once on their own and once more by the proxy's; \<open>main\<close> does not get as far
  as reading its arguments. The controller's
  command can be made: on flag sets without their names, its two subcommands get their
  documented defaults (unlimited retries, port 443, ten seconds) and exactly their own flags.
\<close>

theorem sidecar_flags_collide:
  assumes "flag_contract reg names"
  shows "cli_AddFlags reg opts fs = Inl FlagRedefined \<and> cli_NewCommand reg fs = Inl FlagRedefined
    \<and> cli_main reg fs execute = Inl FlagRedefined
    \<and> (names fs \<inter> fst ` set (startup_flags NewStartUpOptions) = {} \<longrightarrow>
        (\<exists>o1 fs1 o2 fs2. ctrl_NewCommand reg fs = Inr ((o1, fs1), (o2, fs2))
          \<and> names fs1 = fst ` set (startup_flags NewStartUpOptions) \<union> names fs
          \<and> so_crdWorkerMaxRetries o1 = -1 \<and> so_address o1 = '':443'' \<and> so_gracefulShutdownTimeout o1 = 10
          \<and> so_label o1 = ''masha.io/injection'' \<and> so_grpcOptions o1 = InitializeOptions ''tcp'' '':50051''
          \<and> names fs2 = {''cert-file'', ''address'', ''graceful-shutdown-timeout''} \<union> names fs
          \<and> sd_address o2 = '':443'' \<and> sd_gracefulShutdownTimeout o2 = 10))"
proof -
  note all = define_all_names [OF assms]
  have collide: "cli_AddFlags reg opts fs = Inl FlagRedefined" for opts fs
  proof -
    obtain k where k: "cli_AddFlags reg opts fs = go_bind (define_all reg fs
       ((''stg-svr-address'', FString '':8081'') # breaker_flags (breakerOptions opts)
        @ [(''listen-address'', FString (listenAddress (proxyOptions opts))), (''config'', FString (configFile (proxyOptions opts)))]
        @ breaker_flags (breakerOpts (proxyOptions opts)))) k"
      using cli_AddFlags_all [of reg opts fs] by blast
    show ?thesis unfolding k by (subst all(3)) (simp_all add: breaker_flags_def)
  qed
  let ?sd = "[(''cert-file'', FString ''''), (''address'', FString '':443''), (''graceful-shutdown-timeout'', FInt 10)]"
  have "\<exists>o1 fs1 o2 fs2. ctrl_NewCommand reg fs = Inr ((o1, fs1), (o2, fs2))
          \<and> names fs1 = fst ` set (startup_flags NewStartUpOptions) \<union> names fs
          \<and> so_crdWorkerMaxRetries o1 = -1 \<and> so_address o1 = '':443'' \<and> so_gracefulShutdownTimeout o1 = 10
          \<and> so_label o1 = ''masha.io/injection'' \<and> so_grpcOptions o1 = InitializeOptions ''tcp'' '':50051''
          \<and> names fs2 = {''cert-file'', ''address'', ''graceful-shutdown-timeout''} \<union> names fs
          \<and> sd_address o2 = '':443'' \<and> sd_gracefulShutdownTimeout o2 = 10"
    if free: "names fs \<inter> fst ` set (startup_flags NewStartUpOptions) = {}"
  proof -
    have "distinct (map fst (startup_flags NewStartUpOptions))" by (simp add: startup_flags_def)
    with all(2) free obtain fs1 where fs1: "define_all reg fs (startup_flags NewStartUpOptions) = Inr fs1" by blast
    from free have "distinct (map fst ?sd) \<and> fst ` set ?sd \<inter> names fs = {}" by (auto simp: startup_flags_def)
    with all(2) obtain fs2 where fs2: "define_all reg fs ?sd = Inr fs2" by blast
    have "NewStartUpCommand reg fs = Inr (NewStartUpOptions\<lparr>so_label := ''masha.io/injection'', so_gvrVersion := ''v1'',
        so_gvrGroup := ''masha.io'', so_gvrResource := ''containers'', so_certFile := '''', so_keyFile := '''',
        so_address := '':443'', so_gracefulShutdownTimeout := 10, so_grpcOptions := InitializeOptions ''tcp'' '':50051''\<rparr>, fs1)"
      by (simp add: NewStartUpCommand_def startup_AddFlags_all fs1)
    moreover have "NewShutDownCommand reg fs = Inr (\<lparr>sd_certFile = '''', sd_address = '':443'', sd_gracefulShutdownTimeout = 10\<rparr>, fs2)"
      using fs2 by (auto simp: NewShutDownCommand_def shutdown_AddFlags_def go_bind_Inr_iff)
    ultimately show ?thesis using all(1) [OF fs1] all(1) [OF fs2]
      by (auto simp: ctrl_NewCommand_def NewStartUpOptions_def)
  qed
  with collide show ?thesis by (simp add: cli_NewCommand_def cli_main_def)
qed

theorem sidecar_flags_collide_witness:
  "cli_NewCommand (\<lambda>fs n v. if n \<in> set fs then Inl FlagRedefined else Inr (n # fs)) [] = Inl FlagRedefined
   \<and> (\<exists>r. ctrl_NewCommand (\<lambda>fs n v. if n \<in> set fs then Inl FlagRedefined else Inr (n # fs)) [] = Inr r)"
proof -
  have "flag_contract (\<lambda>fs n v. if n \<in> set fs then Inl FlagRedefined else Inr (n # fs)) set"
    by (simp add: flag_contract_def)
  from sidecar_flags_collide [OF this, of cli_NewOptions "[]" "\<lambda>_. None"] show ?thesis by auto
qed

subsection \<open>Readiness\<close>

text \<open>The liveness probe has one check, which never fails.\<close>

lemma healthz_always: "healthz_ServeHTTP StartUp_healthz w = (w, 200, ''ok'' @ newline)"
  by (simp add: healthz_ServeHTTP_def StartUp_healthz_def NewHealthzHandler_def NewDefaultHealthChecker_def)

text \<open>Whether the last of a run's steps that mark the server marked it ready.\<close>

fun marked_ready :: "bool \<Rightarrow> grpc_op list \<Rightarrow> bool" where
  "marked_ready r [] = r"
| "marked_ready r (GServing # ops) = marked_ready True ops"
| "marked_ready r (GShutdown order # ops) = marked_ready False ops"
| "marked_ready r (GStopped # ops) = marked_ready False ops"
| "marked_ready r (op # ops) = marked_ready r ops"

lemma with_call_frame:
  assumes "with_call g t f = Inr g'" "\<And>c g'. f c = Inr g' \<Longrightarrow> gs_ready g' = gs_ready g \<and> listFn g' = listFn g"
  shows "gs_ready g' = gs_ready g \<and> listFn g' = listFn g"
  using assms by (auto simp: with_call_def split: if_splits)

lemma close_frame: "gs_close g t = Inr g' \<Longrightarrow> gs_ready g' = gs_ready g \<and> listFn g' = listFn g"
  unfolding gs_close_def by (erule with_call_frame) (auto simp: go_bind_Inr_iff set_call_def)

lemma shutdown_frame:
  assumes "gs_shutdown order g = Inr g'"
  shows "\<not> gs_ready g' \<and> listFn g' = listFn g"
proof -
  have "go_fold gs_close g ts = Inr g' \<Longrightarrow> gs_ready g' = gs_ready g \<and> listFn g' = listFn g" for g ts
    by (induction ts arbitrary: g) (use close_frame in \<open>force simp: go_bind_Inr_iff\<close>)+
  from this [OF assms [unfolded gs_shutdown_def]] show ?thesis by simp
qed

lemma grpc_step_marks:
  assumes "grpc_step g op = Inr (g', y)"
  shows "listFn g' = listFn g \<and> gs_ready g' = marked_ready (gs_ready g) [op]"
proof (cases op)
  case (GSubscribe i svc)
  with assms show ?thesis by (auto simp: gs_Subscribe_def go_bind_Inr_iff split: if_splits)
next
  case (GInsert t)
  have "gs_insert g t = Inr g' \<Longrightarrow> gs_ready g' = gs_ready g \<and> listFn g' = listFn g"
    unfolding gs_insert_def by (erule with_call_frame) (auto simp: set_call_def split: if_splits)
  with GInsert assms show ?thesis by (auto simp: go_bind_Inr_iff)
next
  case (GLoop t e)
  have "gs_loop g t e = Inr g' \<Longrightarrow> gs_ready g' = gs_ready g \<and> listFn g' = listFn g"
    unfolding gs_loop_def
    by (erule with_call_frame) (auto simp: set_call_def Let_def split: if_splits prod.splits received.splits)
  with GLoop assms show ?thesis by (auto simp: go_bind_Inr_iff)
next
  case (GLeave t)
  have "gs_leave g t = Inr g' \<Longrightarrow> gs_ready g' = gs_ready g \<and> listFn g' = listFn g"
    unfolding gs_leave_def by (erule with_call_frame) (auto simp: set_call_def split: phase.splits)
  with GLeave assms show ?thesis by (auto simp: go_bind_Inr_iff)
next
  case (GInform t ot obj)
  have "gs_inform g t ot obj = Inr g' \<Longrightarrow> gs_ready g' = gs_ready g \<and> listFn g' = listFn g"
    unfolding gs_inform_def by (erule with_call_frame) (auto simp: set_call_def go_bind_Inr_iff)
  with GInform assms show ?thesis by (auto simp: go_bind_Inr_iff)
next
  case (GShutdown order)
  with assms shutdown_frame [of order g g'] show ?thesis by (auto simp: go_bind_Inr_iff)
qed (use assms in \<open>auto simp: gs_serving_def gs_stopped_def\<close>)

lemma marked_ready_Cons: "marked_ready r (op # ops) = marked_ready (marked_ready r [op]) ops"
  by (cases op) simp_all

lemma grpc_run_marks:
  "go_run grpc_step g ops = Inr (g', ys) \<Longrightarrow> listFn g' = listFn g \<and> gs_ready g' = marked_ready (gs_ready g) ops"
proof (induction ops arbitrary: g ys)
  case (Cons op ops)
  from Cons.prems obtain g1 y zs where g1: "grpc_step g op = Inr (g1, y)" "go_run grpc_step g1 ops = Inr (g', zs)"
    by (rule go_run_ConsE)
  from Cons.IH [OF g1(2)] grpc_step_marks [OF g1(1)] marked_ready_Cons [of "gs_ready g" op ops]
  show ?case by (simp del: marked_ready.simps)
qed simp

text \<open>
  C15: What the readiness probe says, and what a ready server does. For the gRPC server that
  \<open>StartUp\<close> makes, after any run of its steps, the probe answers 200 exactly when the server was
  last marked ready (and not since shutting down or stopped) and both list calls of this probe
  succeed; otherwise it answers 503 and names each failing component in the order gRPC server,
  client, dynamic client. In that very state a subscription is refused when the server is not
  ready, and panics, ending the controller, when it is: the server's list function is never set.
\<close>

theorem readiness_and_subscription:
  assumes "go_run grpc_step NewGrpcServer ops = Inr (g, ys)"
    and "listSlices (5 * time_Second) k = (k1, e1)" "listResource (5 * time_Second) k1 = (k2, e2)"
  shows "readyz_ServeHTTP (StartUp_readyz listSlices listResource) (g, k) =
      (if marked_ready False ops \<and> e1 = None \<and> e2 = None then ((g, k2), 200, ''ok'' @ newline)
       else ((g, k2), 503, ''not ready'' @ newline
         @ join_lines ((if marked_ready False ops then [] else [''grpc-server: grpc server is not yet listening''])
             @ (case e1 of None \<Rightarrow> [] | Some err \<Rightarrow> [''kube-client: '' @ err])
             @ (case e2 of None \<Rightarrow> [] | Some err \<Rightarrow> [''dynamic-client: '' @ err])) @ newline))
    \<and> gs_Subscribe g sidecarId serviceName =
       (if marked_ready False ops then Inl NilFunctionCall else Inr (g, Some not_ready))"
proof -
  from grpc_run_marks [OF assms(1)] have g: "listFn g = None" "gs_ready g = marked_ready False ops"
    by (simp_all add: NewGrpcServer_def)
  then show ?thesis
    by (simp add: readyz_ServeHTTP_def StartUp_readyz_def NewReadyzHandler_def NewGrpcServerChecker_def
        NewKubeClientChecker_def NewDynamicClientChecker_def gs_IsReady_def gs_Subscribe_def assms(2,3)
        split: option.splits)
qed

theorem readiness_and_subscription_witness:
  "\<exists>g. go_run grpc_step NewGrpcServer [GSubscribe ''a'' ''svc'', GServing] = Inr (g, [Some not_ready, None])
    \<and> readyz_ServeHTTP (StartUp_readyz (\<lambda>ctx k. (k, None)) (\<lambda>ctx k. (k + 1, Some ''timeout''))) (g, 0 :: int)
      = ((g, 1), 503, ''not ready'' @ newline @ ''dynamic-client: timeout'' @ newline)
    \<and> gs_Subscribe g ''a'' ''svc'' = Inl NilFunctionCall"
proof -
  let ?ops = "[GSubscribe ''a'' ''svc'', GServing]"
  let ?lists = "\<lambda>ctx k :: int. (k, None :: string option)" and ?gets = "\<lambda>ctx k :: int. (k + 1, Some ''timeout'')"
  have run: "go_run grpc_step NewGrpcServer ?ops = Inr (NewGrpcServer\<lparr>gs_ready := True\<rparr>, [Some not_ready, None])"
    by (simp add: gs_Subscribe_def gs_serving_def NewGrpcServer_def)
  have l: "?lists (5 * time_Second) 0 = (0, None)" "?gets (5 * time_Second) 0 = (1, Some ''timeout'')" by simp_all
  from readiness_and_subscription [where listSlices = ?lists and listResource = ?gets, OF run l, of "''a''" "''svc''"] run
  show ?thesis by (intro exI [of _ "NewGrpcServer\<lparr>gs_ready := True\<rparr>"]) simp
qed

end
