(* ===== verification/Grpc_Drain.thy ===== *)
theory Grpc_Drain
  imports Grpc_Server
begin

section \<open>Calls running to their end\<close>

text \<open>
  The steps that the goroutines of the calls take on their own (insert, one round of the
  receive loop that is not blocked, leave), as a relation on servers. Each one reduces the
  work that is left, and without a step left every call has returned, provided the channels
  of the streaming calls are closed.
\<close>

inductive call_step :: "GrpcServer \<Rightarrow> GrpcServer \<Rightarrow> bool" where
  InsertStep: "t < length (gs_calls g) \<Longrightarrow> sub_phase (gs_calls g ! t) = Inserting \<Longrightarrow> gs_insert g t = Inr g'
    \<Longrightarrow> call_step g g'"
| LoopStep: "t < length (gs_calls g) \<Longrightarrow> sub_phase (gs_calls g ! t) = Streaming
    \<Longrightarrow> snd (chan_recv (sc_receiver (sub_sidecar (gs_calls g ! t)))) \<noteq> Blocked \<Longrightarrow> gs_loop g t err = Inr g'
    \<Longrightarrow> call_step g g'"
| LeaveStep: "t < length (gs_calls g) \<Longrightarrow> sub_phase (gs_calls g ! t) = Leaving err \<Longrightarrow> gs_leave g t = Inr g'
    \<Longrightarrow> call_step g g'"

definition call_work :: "subscription \<Rightarrow> nat" where
  "call_work c = (case sub_phase c of
       Inserting \<Rightarrow> 3 + length (ch_buf (sc_receiver (sub_sidecar c)))
     | Streaming \<Rightarrow> 2 + length (ch_buf (sc_receiver (sub_sidecar c)))
     | Leaving err \<Rightarrow> 1
     | Returned err \<Rightarrow> 0)"

definition calls_work :: "GrpcServer \<Rightarrow> nat" where
  "calls_work g = sum_list (map call_work (gs_calls g))"

text \<open>What a step does: it replaces one call, with less work, and touches the map at its id only.\<close>

definition moves :: "GrpcServer \<Rightarrow> nat \<Rightarrow> subscription \<Rightarrow> GrpcServer \<Rightarrow> bool" where
  "moves g t c g' \<longleftrightarrow> t < length (gs_calls g) \<and> gs_calls g' = (gs_calls g)[t := c]
     \<and> call_work c < call_work (gs_calls g ! t) \<and> sub_id c = sub_id (gs_calls g ! t)
     \<and> ch_closed (sc_receiver (sub_sidecar c)) = ch_closed (sc_receiver (sub_sidecar (gs_calls g ! t)))
     \<and> gs_ready g' = gs_ready g
     \<and> (\<forall>k. k \<noteq> sub_id c \<longrightarrow> gs_sidecars g' k = gs_sidecars g k)
     \<and> (sub_phase c = Streaming \<longrightarrow>
          sub_phase (gs_calls g ! t) = Streaming \<and> gs_sidecars g' = gs_sidecars g
          \<or> gs_ready g \<and> gs_sidecars g' (sub_id c) = Some t)"

lemma call_step_moves: "call_step g g' \<Longrightarrow> \<exists>t c. moves g t c g'"
proof (induction rule: call_step.induct)
  case (InsertStep t g g')
  then show ?case
    by (intro exI [of _ t] exI [of _ "gs_calls g' ! t"])
      (auto simp: gs_insert_def with_call_def set_call_def moves_def call_work_def split: if_splits)
next
  case (LoopStep t g err g')
  then show ?case
    by (intro exI [of _ t] exI [of _ "gs_calls g' ! t"])
      (auto simp: gs_loop_def with_call_def set_call_def moves_def call_work_def chan_recv_def Let_def
        split: if_splits list.splits option.splits)
next
  case (LeaveStep t g err g')
  then show ?case
    by (intro exI [of _ t] exI [of _ "gs_calls g' ! t"])
      (auto simp: gs_leave_def with_call_def set_call_def moves_def call_work_def split: if_splits)
qed

lemma moves_work: "moves g t c g' \<Longrightarrow> calls_work g' < calls_work g"
proof -
  assume m: "moves g t c g'"
  then have t: "t < length (gs_calls g)" and w: "call_work c < call_work (gs_calls g ! t)" by (simp_all add: moves_def)
  from work_update_less [of t "gs_calls g" call_work c, OF t w] m show ?thesis
    by (simp add: calls_work_def moves_def)
qed

lemma call_step_work: "call_step g g' \<Longrightarrow> calls_work g' < calls_work g"
  using call_step_moves moves_work by blast

lemma call_step_inv: "call_step g g' \<Longrightarrow> grpc_inv g \<Longrightarrow> grpc_inv g'"
proof (induction rule: call_step.induct)
  case (InsertStep t g g')
  with insert_inv [of g t] show ?case by auto
next
  case (LoopStep t g err g')
  with loop_inv [of g t err] show ?case by auto
next
  case (LeaveStep t g err g')
  with leave_inv [of g t] show ?case by auto
qed

text \<open>
  A streaming call is in the map, unless another call has its id. The condition is kept by
  every step and by every operation.
\<close>

definition registered :: "GrpcServer \<Rightarrow> bool" where
  "registered g \<longleftrightarrow> (\<forall>t < length (gs_calls g). sub_phase (gs_calls g ! t) = Streaming \<longrightarrow>
     gs_sidecars g (sub_id (gs_calls g ! t)) = Some t
     \<or> (\<exists>u < length (gs_calls g). u \<noteq> t \<and> sub_id (gs_calls g ! u) = sub_id (gs_calls g ! t)))"

lemma moves_ids: "moves g t c g' \<Longrightarrow> map sub_id (gs_calls g') = map sub_id (gs_calls g)"
  by (simp add: moves_def map_update) (metis list_update_id length_map nth_map)

lemma moves_registered:
  assumes m: "moves g t c g'" and r: "registered g"
  shows "registered g'"
  unfolding registered_def
proof (intro allI impI)
  fix u
  assume u: "u < length (gs_calls g')" "sub_phase (gs_calls g' ! u) = Streaming"
  have ids: "\<And>v. v < length (gs_calls g) \<Longrightarrow> sub_id (gs_calls g' ! v) = sub_id (gs_calls g ! v)"
    and len: "length (gs_calls g') = length (gs_calls g)"
    using m by (auto simp: moves_def nth_list_update)
  show "gs_sidecars g' (sub_id (gs_calls g' ! u)) = Some u
      \<or> (\<exists>v < length (gs_calls g'). v \<noteq> u \<and> sub_id (gs_calls g' ! v) = sub_id (gs_calls g' ! u))"
  proof (cases "u = t")
    case True
    with u m have t: "t < length (gs_calls g)" "gs_calls g' ! u = c" "sub_id c = sub_id (gs_calls g ! t)"
      and c: "sub_phase (gs_calls g ! t) = Streaming \<and> gs_sidecars g' = gs_sidecars g
        \<or> gs_sidecars g' (sub_id c) = Some t" by (auto simp: moves_def)
    from c show ?thesis
    proof
      assume "sub_phase (gs_calls g ! t) = Streaming \<and> gs_sidecars g' = gs_sidecars g"
      with r t(1) have "gs_sidecars g' (sub_id (gs_calls g ! t)) = Some t
        \<or> (\<exists>v < length (gs_calls g). v \<noteq> t \<and> sub_id (gs_calls g ! v) = sub_id (gs_calls g ! t))"
        unfolding registered_def by simp
      with True t(2,3) len ids show ?thesis by metis
    qed (use True t in simp)
  next
    case False
    with u m have same: "gs_calls g' ! u = gs_calls g ! u" by (simp add: moves_def)
    show ?thesis
    proof (cases "sub_id (gs_calls g ! u) = sub_id (gs_calls g ! t)")
      case True
      with False m ids len same show ?thesis by (metis moves_def)
    next
      case other: False
      with m have "gs_sidecars g' (sub_id (gs_calls g ! u)) = gs_sidecars g (sub_id (gs_calls g ! u))" by (simp add: moves_def)
      with r u same len ids show ?thesis unfolding registered_def by metis
    qed
  qed
qed

text \<open>The operations that are not steps of the calls keep the condition, too.\<close>

lemma subscribe_calls:
  assumes "gs_Subscribe g i svc = Inr (g', x)"
  shows "g' = g \<or> (\<exists>c. g' = g\<lparr>gs_calls := gs_calls g @ [c]\<rparr> \<and> sub_phase c = Inserting \<and> sub_id c = i)"
  using assms by (auto simp: gs_Subscribe_def go_bind_Inr_iff split: if_splits)

lemma subscribe_registered:
  assumes inv: "grpc_inv g" and r: "registered g" and s: "gs_Subscribe g i svc = Inr (g', x)"
  shows "registered g'"
proof (cases "g' = g")
  case False
  with subscribe_calls [OF s] obtain c where g': "g' = g\<lparr>gs_calls := gs_calls g @ [c]\<rparr>" "sub_phase c = Inserting" by blast
  have "gs_sidecars g (sub_id (gs_calls g ! t)) = Some t
      \<or> (\<exists>u < Suc (length (gs_calls g)). u \<noteq> t \<and> sub_id ((gs_calls g @ [c]) ! u) = sub_id (gs_calls g ! t))"
    if t: "t < length (gs_calls g)" "sub_phase (gs_calls g ! t) = Streaming" for t
  proof -
    from r t consider "gs_sidecars g (sub_id (gs_calls g ! t)) = Some t"
      | u where "u < length (gs_calls g)" "u \<noteq> t" "sub_id (gs_calls g ! u) = sub_id (gs_calls g ! t)"
      unfolding registered_def by blast
    then show ?thesis
    proof cases
      case 2
      then show ?thesis by (intro disjI2 exI [of _ u]) (simp add: nth_append)
    qed simp
  qed
  with g' show ?thesis unfolding registered_def by (auto simp: nth_append less_Suc_eq)
qed (use r in simp)

lemma inform_calls:
  assumes "gs_inform g t op obj = Inr g'"
  shows "gs_sidecars g' = gs_sidecars g \<and> gs_ready g' = gs_ready g \<and> length (gs_calls g') = length (gs_calls g)
    \<and> (\<forall>u < length (gs_calls g). sub_phase (gs_calls g' ! u) = sub_phase (gs_calls g ! u)
        \<and> sub_id (gs_calls g' ! u) = sub_id (gs_calls g ! u)
        \<and> ch_closed (sc_receiver (sub_sidecar (gs_calls g' ! u))) = ch_closed (sc_receiver (sub_sidecar (gs_calls g ! u))))"
  using assms by (auto simp: gs_inform_def with_call_def set_call_def go_bind_Inr_iff nth_list_update
      sidecar_Informer_def chan_try_send_def split: if_splits option.splits any_obj.splits)

lemma same_shape_registered:
  assumes "registered g" "gs_sidecars g' = gs_sidecars g" "length (gs_calls g') = length (gs_calls g)"
    and "\<forall>u < length (gs_calls g). sub_phase (gs_calls g' ! u) = sub_phase (gs_calls g ! u)
        \<and> sub_id (gs_calls g' ! u) = sub_id (gs_calls g ! u)"
  shows "registered g'"
  using assms unfolding registered_def by metis

text \<open>After the shutdown every streaming call of a server with distinct ids is closed.\<close>

definition draining :: "GrpcServer \<Rightarrow> bool" where
  "draining g \<longleftrightarrow> \<not> gs_ready g \<and> (\<forall>c \<in> set (gs_calls g). sub_phase c = Streaming \<longrightarrow> ch_closed (sc_receiver (sub_sidecar c)))"

lemma moves_draining: "moves g t c g' \<Longrightarrow> draining g \<Longrightarrow> draining g'"
  by (auto simp: moves_def draining_def dest!: set_update_subset_insert [THEN subsetD])

lemma shutdown_draining:
  assumes inv: "grpc_inv g" and r: "registered g" and d: "distinct (map sub_id (gs_calls g))"
    and e: "enumerates order (gs_sidecars g)" and s: "gs_shutdown order g = Inr g'"
  shows "draining g'"
proof -
  from shutdown_inv [OF inv, of order] s have g': "grpc_inv g'" "\<not> gs_ready g'" "length (gs_calls g') = length (gs_calls g)"
    "\<forall>u < length (gs_calls g). sub_phase (gs_calls g' ! u) = sub_phase (gs_calls g ! u)
        \<and> ((\<exists>k \<in> set order. gs_sidecars g k = Some u) \<longrightarrow> sc_closed (sub_sidecar (gs_calls g' ! u)))" by auto
  have "ch_closed (sc_receiver (sub_sidecar (gs_calls g' ! u)))"
    if u: "u < length (gs_calls g')" "sub_phase (gs_calls g' ! u) = Streaming" for u
  proof -
    have "sub_id (gs_calls g ! v) \<noteq> sub_id (gs_calls g ! u)" if "v < length (gs_calls g)" "v \<noteq> u" for v
      using d that u(1) g'(3) by (auto simp: distinct_conv_nth)
    with r u g'(3,4) have "gs_sidecars g (sub_id (gs_calls g ! u)) = Some u" unfolding registered_def by metis
    moreover from this e have "sub_id (gs_calls g ! u) \<in> set order" by (auto simp: enumerates_def)
    ultimately have "sc_closed (sub_sidecar (gs_calls g' ! u))" using g'(3,4) u(1) by auto
    with grpc_invD(2) [OF g'(1) u(1)] show ?thesis by (simp add: sidecar_inv_def)
  qed
  with g'(2) show ?thesis by (auto simp: draining_def in_set_conv_nth)
qed

text \<open>A draining server whose calls have no step left has no call left.\<close>

definition all_returned :: "GrpcServer \<Rightarrow> bool" where
  "all_returned g \<longleftrightarrow> (\<forall>c \<in> set (gs_calls g). \<exists>err. sub_phase c = Returned err)"

lemma call_progress:
  assumes inv: "grpc_inv g" and d: "draining g" and n: "\<not> all_returned g"
  shows "\<exists>g'. call_step g g'"
proof -
  from n obtain t where t: "t < length (gs_calls g)" "\<forall>err. sub_phase (gs_calls g ! t) \<noteq> Returned err"
    by (auto simp: all_returned_def in_set_conv_nth)
  show ?thesis
  proof (cases "sub_phase (gs_calls g ! t)")
    case Inserting
    with t(1) insert_inv [OF inv, of t] show ?thesis by (blast intro: call_step.InsertStep)
  next
    case Streaming
    with d t(1) have "ch_closed (sc_receiver (sub_sidecar (gs_calls g ! t)))" by (auto simp: draining_def)
    then have "snd (chan_recv (sc_receiver (sub_sidecar (gs_calls g ! t)))) \<noteq> Blocked"
      by (auto simp: chan_recv_def split: list.splits)
    with t(1) Streaming loop_inv [OF inv, of t None] show ?thesis by (blast intro: call_step.LoopStep)
  next
    case (Leaving err)
    with t(1) leave_inv [OF inv, of t] show ?thesis by (blast intro: call_step.LeaveStep)
  qed (use t in simp)
qed

end
