(* ===== verification/Controller.thy ===== *)
theory Controller
  imports Grpc_Drain Hooks
begin

section \<open>The goroutines of the controller\<close>

text \<open>
  \<open>StartUp\<close> of \<open>internal/ctrl/startup.go\<close> with what it starts: \<open>ServeTLS\<close> of \<open>httpsvr.go\<close>, the
  two watches of \<open>informers.go\<close>, \<open>Run\<close> of \<open>crd_worker.go\<close>, \<open>ListenAndServe\<close> of
  \<open>grpcserver/server.go\<close>, and the signal handler of \<open>cmd/ctrl/app/utils.go\<close>. Each component is a
  step relation on its own small state, given whether its context is cancelled; \<open>go_step\<close>
  interleaves them, and \<open>env_step\<close> is what comes from outside.
\<close>

subsection \<open>The HTTPS server\<close>

text \<open>
  \<open>ServeTLS\<close> starts a goroutine that waits for the context or for the stop channel and then
  shuts the server down: \<open>Shutdown\<close> stops \<open>Serve\<close> at once and waits for the requests in
  progress; when its own time-out passes first, \<open>Close\<close> drops them. Nothing waits for that
  goroutine.
\<close>

datatype https_pc = HServing | HReturned | HDone
datatype closer_pc = AwaitingStop | ShuttingDown | Closed

record Https =
  hx_serve :: https_pc
  hx_closer :: closer_pc
  hx_requests :: nat

inductive https_step :: "bool \<Rightarrow> bool \<Rightarrow> Https \<Rightarrow> Https \<Rightarrow> bool" for ctxDone stopClosed where
  CloserWakes: "hx_closer h = AwaitingStop \<Longrightarrow> ctxDone \<or> stopClosed
    \<Longrightarrow> https_step ctxDone stopClosed h (h\<lparr>hx_closer := ShuttingDown\<rparr>)"
| Graceful: "hx_closer h = ShuttingDown \<Longrightarrow> hx_requests h = 0
    \<Longrightarrow> https_step ctxDone stopClosed h (h\<lparr>hx_closer := Closed\<rparr>)"
| TimedOut: "hx_closer h = ShuttingDown
    \<Longrightarrow> https_step ctxDone stopClosed h (h\<lparr>hx_closer := Closed, hx_requests := 0\<rparr>)"
| RequestEnds: "0 < hx_requests h
    \<Longrightarrow> https_step ctxDone stopClosed h (h\<lparr>hx_requests := hx_requests h - 1\<rparr>)"
| ServeReturns: "hx_serve h = HServing \<Longrightarrow> hx_closer h \<noteq> AwaitingStop
    \<Longrightarrow> https_step ctxDone stopClosed h (h\<lparr>hx_serve := HReturned\<rparr>)"

definition https_work :: "Https \<Rightarrow> nat" where
  "https_work h = (case hx_closer h of AwaitingStop \<Rightarrow> 2 | ShuttingDown \<Rightarrow> 1 | Closed \<Rightarrow> 0) + hx_requests h
     + (case hx_serve h of HServing \<Rightarrow> 2 | HReturned \<Rightarrow> 1 | HDone \<Rightarrow> 0)"

lemma https_step_work: "https_step c st h h' \<Longrightarrow> https_work h' < https_work h"
  by (induction rule: https_step.induct) (auto simp: https_work_def split: https_pc.splits)

lemma https_step_serve: "https_step c st h h' \<Longrightarrow> hx_serve h' = hx_serve h \<or> hx_serve h' = HReturned"
  by (induction rule: https_step.induct) auto

lemma https_step_done: "https_step c st h h' \<Longrightarrow> hx_serve h = HDone \<Longrightarrow> hx_serve h' = HDone"
  by (induction rule: https_step.induct) auto

lemma https_progress: "c \<or> st \<Longrightarrow> hx_serve h = HServing \<Longrightarrow> \<exists>h'. https_step c st h h'"
  by (cases "hx_closer h") (blast intro: https_step.intros, (metis closer_pc.distinct(1,3) https_step.ServeReturns)+)

subsection \<open>The watches\<close>

text \<open>
  A watch returns when the library reports its caches synchronised, or when the context is
  cancelled before. (The informers go on in the library's goroutines.) What it logs depends
  on the synchronisation results and on whether the context is cancelled then.
\<close>

datatype watch_log = WatchSynced | CancelledBeforeSync | SyncFailed

definition WatchCRD :: "('g \<rightharpoonup> bool) \<Rightarrow> bool \<Rightarrow> 'g \<Rightarrow> watch_log" where
  "WatchCRD syncedMap ctxErr gvr =
     (if syncedMap gvr = None \<or> syncedMap gvr = Some False
      then if ctxErr then CancelledBeforeSync else SyncFailed
      else WatchSynced)"

definition WatchEndpointSlice :: "('t \<times> bool) list \<Rightarrow> bool \<Rightarrow> ('t \<times> watch_log) list" where
  "WatchEndpointSlice synced ctxErr =
     map (\<lambda>(t, ok). (t, if \<not> ok then if ctxErr then CancelledBeforeSync else SyncFailed else WatchSynced)) synced"

datatype watch_pc = Syncing | WatchReturned

inductive watch_step :: "bool \<Rightarrow> watch_pc \<Rightarrow> watch_pc \<Rightarrow> bool" for ctxDone where
  WatchCancelled: "ctxDone \<Longrightarrow> watch_step ctxDone Syncing WatchReturned"

definition watch_work :: "watch_pc \<Rightarrow> nat" where
  "watch_work w = (case w of Syncing \<Rightarrow> 1 | WatchReturned \<Rightarrow> 0)"

lemma watch_step_work: "watch_step c w w' \<Longrightarrow> watch_work w' < watch_work w"
  by (induction rule: watch_step.induct) (simp add: watch_work_def)

subsection \<open>The workers\<close>

text \<open>
  \<open>Run\<close> starts the worker goroutines, waits for the context, shuts the queue down and waits
  for them. The keys do not matter here, only how many wait. The queue hands out what it holds
  also after its shutdown, and takes nothing any more (documented); what the processing of a
  key adds again comes back after a delay, from outside.
\<close>

datatype run_pc = RunWaiting | RunDraining | RunReturned
datatype loop_pc = Getting | Processing | LoopReturned

record Workers =
  wr_run :: run_pc
  wr_loops :: "loop_pc list"
  wr_keys :: nat
  wr_shut :: bool

inductive workers_step :: "bool \<Rightarrow> Workers \<Rightarrow> Workers \<Rightarrow> bool" for ctxDone where
  QueueShutDown: "wr_run w = RunWaiting \<Longrightarrow> ctxDone
    \<Longrightarrow> workers_step ctxDone w (w\<lparr>wr_run := RunDraining, wr_shut := True\<rparr>)"
| GetKey: "i < length (wr_loops w) \<Longrightarrow> wr_loops w ! i = Getting \<Longrightarrow> 0 < wr_keys w
    \<Longrightarrow> workers_step ctxDone w (w\<lparr>wr_loops := (wr_loops w)[i := Processing], wr_keys := wr_keys w - 1\<rparr>)"
| KeyDone: "i < length (wr_loops w) \<Longrightarrow> wr_loops w ! i = Processing
    \<Longrightarrow> workers_step ctxDone w (w\<lparr>wr_loops := (wr_loops w)[i := Getting]\<rparr>)"
| LoopEnds: "i < length (wr_loops w) \<Longrightarrow> wr_loops w ! i = Getting \<Longrightarrow> wr_keys w = 0 \<Longrightarrow> wr_shut w
    \<Longrightarrow> workers_step ctxDone w (w\<lparr>wr_loops := (wr_loops w)[i := LoopReturned]\<rparr>)"
| RunEnds: "wr_run w = RunDraining \<Longrightarrow> list_all (\<lambda>l. l = LoopReturned) (wr_loops w)
    \<Longrightarrow> workers_step ctxDone w (w\<lparr>wr_run := RunReturned\<rparr>)"

definition loop_work :: "loop_pc \<Rightarrow> nat" where
  "loop_work l = (case l of Getting \<Rightarrow> 1 | Processing \<Rightarrow> 2 | LoopReturned \<Rightarrow> 0)"

definition workers_work :: "Workers \<Rightarrow> nat" where
  "workers_work w = (case wr_run w of RunWaiting \<Rightarrow> 2 | RunDraining \<Rightarrow> 1 | RunReturned \<Rightarrow> 0)
     + sum_list (map loop_work (wr_loops w)) + 2 * wr_keys w"

lemma loop_work_update:
  "i < length ls \<Longrightarrow> sum_list (map loop_work (ls[i := l])) + loop_work (ls ! i) = sum_list (map loop_work ls) + loop_work l"
proof (induction ls arbitrary: i)
  case (Cons k ls)
  then show ?case by (cases i) auto
qed simp

lemma workers_step_work: "workers_step c w w' \<Longrightarrow> workers_work w' < workers_work w"
proof (induction rule: workers_step.induct)
  case (GetKey i w)
  from loop_work_update [OF GetKey(1), of Processing] GetKey show ?case by (simp add: workers_work_def loop_work_def)
next
  case (KeyDone i w)
  from loop_work_update [OF KeyDone(1), of Getting] KeyDone show ?case by (simp add: workers_work_def loop_work_def)
next
  case (LoopEnds i w)
  from loop_work_update [OF LoopEnds(1), of LoopReturned] LoopEnds show ?case by (simp add: workers_work_def loop_work_def)
qed (simp_all add: workers_work_def)

definition workers_inv :: "Workers \<Rightarrow> bool" where
  "workers_inv w \<longleftrightarrow> (wr_run w \<noteq> RunWaiting \<longrightarrow> wr_shut w)
     \<and> (LoopReturned \<in> set (wr_loops w) \<longrightarrow> wr_shut w \<and> wr_keys w = 0)
     \<and> (wr_run w = RunReturned \<longrightarrow> list_all (\<lambda>l. l = LoopReturned) (wr_loops w))"

lemma workers_step_inv: "workers_step c w w' \<Longrightarrow> workers_inv w \<Longrightarrow> workers_inv w'"
proof (induction rule: workers_step.induct)
  case (GetKey i w)
  then have "wr_run w \<noteq> RunReturned" by (auto simp: workers_inv_def list_all_length)
  with GetKey show ?case by (auto simp: workers_inv_def dest!: set_update_subset_insert [THEN subsetD])
next
  case (KeyDone i w)
  then have "wr_run w \<noteq> RunReturned" by (auto simp: workers_inv_def list_all_length)
  with KeyDone show ?case by (auto simp: workers_inv_def dest!: set_update_subset_insert [THEN subsetD])
next
  case (LoopEnds i w)
  then have "wr_run w \<noteq> RunReturned" by (auto simp: workers_inv_def list_all_length)
  with LoopEnds show ?case by (auto simp: workers_inv_def)
qed (auto simp: workers_inv_def)

lemma workers_progress:
  assumes "workers_inv w" "ctxDone" "wr_run w \<noteq> RunReturned"
  shows "\<exists>w'. workers_step ctxDone w w'"
proof (cases "wr_run w")
  case RunWaiting
  with assms(2) show ?thesis by (blast intro: workers_step.QueueShutDown)
next
  case RunDraining
  with assms(1) have shut: "wr_shut w" by (simp add: workers_inv_def)
  show ?thesis
  proof (cases "list_all (\<lambda>l. l = LoopReturned) (wr_loops w)")
    case True
    with RunDraining show ?thesis by (blast intro: workers_step.RunEnds)
  next
    case False
    then obtain i where i: "i < length (wr_loops w)" "wr_loops w ! i \<noteq> LoopReturned" by (auto simp: list_all_length)
    then consider "wr_loops w ! i = Getting" "0 < wr_keys w" | "wr_loops w ! i = Getting" "wr_keys w = 0"
      | "wr_loops w ! i = Processing" by (cases "wr_loops w ! i") auto
    with i(1) shut show ?thesis
      by cases (blast intro: workers_step.GetKey workers_step.LoopEnds workers_step.KeyDone)+
  qed
qed (use assms in simp)

subsection \<open>The subscription server\<close>

text \<open>
  \<open>ListenAndServe\<close> binds its listener, starts the goroutine that waits for the context, marks
  the server ready and serves. \<open>GracefulStop\<close> refuses new calls and waits for the running
  ones; \<open>Serve\<close> returns when that is done.
\<close>

datatype serve_pc = GrpcStarting | GrpcServing | GrpcReturned
datatype stop_pc = StopWaiting | Stopping | StopDone

record Serving =
  sv_grpc :: GrpcServer
  sv_serve :: serve_pc
  sv_stop :: stop_pc

inductive serving_step :: "bool \<Rightarrow> Serving \<Rightarrow> Serving \<Rightarrow> bool" for ctxDone where
  Ready: "sv_serve v = GrpcStarting
    \<Longrightarrow> serving_step ctxDone v (v\<lparr>sv_serve := GrpcServing, sv_grpc := gs_serving (sv_grpc v)\<rparr>)"
| StopBegins: "sv_stop v = StopWaiting \<Longrightarrow> ctxDone \<Longrightarrow> enumerates order (gs_sidecars (sv_grpc v))
    \<Longrightarrow> gs_shutdown order (sv_grpc v) = Inr g \<Longrightarrow> serving_step ctxDone v (v\<lparr>sv_stop := Stopping, sv_grpc := g\<rparr>)"
| CallMoves: "call_step (sv_grpc v) g \<Longrightarrow> serving_step ctxDone v (v\<lparr>sv_grpc := g\<rparr>)"
| StopEnds: "sv_stop v = Stopping \<Longrightarrow> all_returned (sv_grpc v) \<Longrightarrow> serving_step ctxDone v (v\<lparr>sv_stop := StopDone\<rparr>)"
| ServeEnds: "sv_serve v = GrpcServing \<Longrightarrow> sv_stop v = StopDone
    \<Longrightarrow> serving_step ctxDone v (v\<lparr>sv_serve := GrpcReturned, sv_grpc := gs_stopped (sv_grpc v)\<rparr>)"

definition serving_work :: "Serving \<Rightarrow> nat" where
  "serving_work v = (case sv_serve v of GrpcStarting \<Rightarrow> 2 | GrpcServing \<Rightarrow> 1 | GrpcReturned \<Rightarrow> 0)
     + (case sv_stop v of StopWaiting \<Rightarrow> 2 | Stopping \<Rightarrow> 1 | StopDone \<Rightarrow> 0) + calls_work (sv_grpc v)"

lemma calls_work_ready [simp]: "calls_work (g\<lparr>gs_ready := b\<rparr>) = calls_work g"
  by (simp add: calls_work_def)

lemma close_work: "gs_close g t = Inr g' \<Longrightarrow> calls_work g' = calls_work g"
proof -
  assume c: "gs_close g t = Inr g'"
  have "map call_work (gs_calls g') = map call_work (gs_calls g)"
    by (rule nth_equalityI)
      (use c in \<open>auto simp: gs_close_def with_call_def set_call_def sidecar_Close_def chan_close_def
        go_bind_Inr_iff nth_list_update call_work_def split: if_splits phase.splits\<close>)
  then show ?thesis by (simp only: calls_work_def)
qed

lemma shutdown_work: "gs_shutdown order g = Inr g' \<Longrightarrow> calls_work g' = calls_work g"
proof -
  have "go_fold gs_close h ts = Inr g' \<Longrightarrow> calls_work g' = calls_work h" for ts h
    by (induction ts arbitrary: h) (auto simp: go_bind_Inr_iff dest: close_work)
  then show "gs_shutdown order g = Inr g' \<Longrightarrow> calls_work g' = calls_work g" by (auto simp: gs_shutdown_def)
qed

lemma serving_step_work: "serving_step c v v' \<Longrightarrow> serving_work v' < serving_work v"
proof (induction rule: serving_step.induct)
  case (StopBegins v order g)
  with shutdown_work [OF StopBegins(4)] show ?case by (simp add: serving_work_def)
next
  case (CallMoves v g)
  with call_step_work show ?case by (simp add: serving_work_def)
qed (simp_all add: serving_work_def gs_serving_def gs_stopped_def)

text \<open>
  The invariant: once the stop goroutine has run its body, a server whose calls have distinct
  ids is draining, or has no calls.
\<close>

definition serving_inv :: "Serving \<Rightarrow> bool" where
  "serving_inv v \<longleftrightarrow> grpc_inv (sv_grpc v) \<and> registered (sv_grpc v) \<and> finite (dom (gs_sidecars (sv_grpc v)))
     \<and> (sv_serve v = GrpcStarting \<longrightarrow> gs_calls (sv_grpc v) = [])
     \<and> (sv_stop v \<noteq> StopWaiting \<longrightarrow> distinct (map sub_id (gs_calls (sv_grpc v))) \<longrightarrow>
          draining (sv_grpc v) \<or> gs_calls (sv_grpc v) = [])
     \<and> (sv_stop v = StopDone \<longrightarrow> all_returned (sv_grpc v))
     \<and> (sv_serve v = GrpcReturned \<longrightarrow> sv_stop v = StopDone)"

definition call_ids :: "Serving \<Rightarrow> string list" where
  "call_ids v = map sub_id (gs_calls (sv_grpc v))"

lemma moves_finite: "moves g t c g' \<Longrightarrow> finite (dom (gs_sidecars g)) \<Longrightarrow> finite (dom (gs_sidecars g'))"
proof -
  assume m: "moves g t c g'" "finite (dom (gs_sidecars g))"
  then have "dom (gs_sidecars g') \<subseteq> insert (sub_id c) (dom (gs_sidecars g))" by (auto simp: moves_def dom_def)
  with m(2) show ?thesis by (meson finite.insertI finite_subset)
qed

lemma all_returned_no_move: "all_returned g \<Longrightarrow> \<not> moves g t c g'"
proof
  assume a: "all_returned g" and m: "moves g t c g'"
  then have "gs_calls g ! t \<in> set (gs_calls g)" by (simp add: moves_def)
  with a obtain err where "sub_phase (gs_calls g ! t) = Returned err" by (auto simp: all_returned_def)
  with m show False by (simp add: moves_def call_work_def)
qed

lemma serving_step_ids: "serving_step c v v' \<Longrightarrow> serving_inv v \<Longrightarrow> call_ids v' = call_ids v"
proof (induction rule: serving_step.induct)
  case (StopBegins v order g)
  then have "grpc_inv (sv_grpc v)" by (simp add: serving_inv_def)
  from shutdown_inv [OF this, of order] StopBegins(4) show ?case
    by (auto simp: call_ids_def intro: nth_equalityI)
next
  case (CallMoves v g)
  then show ?case using call_step_moves moves_ids by (fastforce simp: call_ids_def)
qed (simp_all add: call_ids_def gs_serving_def gs_stopped_def)

lemma draining_id [simp]: "draining (g\<lparr>gs_ready := False\<rparr>) \<longleftrightarrow>
    (\<forall>c \<in> set (gs_calls g). sub_phase c = Streaming \<longrightarrow> ch_closed (sc_receiver (sub_sidecar c)))"
  by (simp add: draining_def)

lemma registered_ready [simp]: "registered (g\<lparr>gs_ready := b\<rparr>) = registered g"
  by (simp add: registered_def)

lemma serving_step_inv: "serving_step c v v' \<Longrightarrow> serving_inv v \<Longrightarrow> serving_inv v'"
proof (induction rule: serving_step.induct)
  case (Ready v)
  then show ?case by (auto simp: serving_inv_def gs_serving_def grpc_inv_ready all_returned_def)
next
  case (StopBegins v order g)
  then have inv: "grpc_inv (sv_grpc v)" "registered (sv_grpc v)" "finite (dom (gs_sidecars (sv_grpc v)))"
    by (simp_all add: serving_inv_def)
  from shutdown_inv [OF inv(1), of order] StopBegins(4) have g: "grpc_inv g" "gs_sidecars g = gs_sidecars (sv_grpc v)"
    "length (gs_calls g) = length (gs_calls (sv_grpc v))"
    "\<forall>u < length (gs_calls (sv_grpc v)). sub_phase (gs_calls g ! u) = sub_phase (gs_calls (sv_grpc v) ! u)
      \<and> sub_id (gs_calls g ! u) = sub_id (gs_calls (sv_grpc v) ! u)" by auto
  then have ids: "map sub_id (gs_calls g) = map sub_id (gs_calls (sv_grpc v))" by (auto intro: nth_equalityI)
  have "registered g" by (rule same_shape_registered [OF inv(2) g(2-4)])
  with g(1,2) inv(3) StopBegins ids shutdown_draining [OF inv(1,2) _ StopBegins(3,4)] show ?case
    by (auto simp: serving_inv_def)
next
  case (CallMoves v g)
  then have inv: "grpc_inv (sv_grpc v)" "registered (sv_grpc v)" "finite (dom (gs_sidecars (sv_grpc v)))"
    by (simp_all add: serving_inv_def)
  from call_step_moves [OF CallMoves(1)] obtain t c where m: "moves (sv_grpc v) t c g" by blast
  then have ne: "gs_calls (sv_grpc v) \<noteq> []" by (auto simp: moves_def)
  have "grpc_inv g" "registered g" "finite (dom (gs_sidecars g))"
    using call_step_inv [OF CallMoves(1)] moves_registered [OF m] moves_finite [OF m] inv by simp_all
  moreover have "\<not> all_returned (sv_grpc v)" using all_returned_no_move m by blast
  ultimately show ?case using CallMoves(2) ne moves_ids [OF m] moves_draining [OF m]
    by (auto simp: serving_inv_def)
next
  case (StopEnds v)
  then show ?case by (auto simp: serving_inv_def)
next
  case (ServeEnds v)
  then show ?case by (auto simp: serving_inv_def gs_stopped_def grpc_inv_ready all_returned_def draining_def)
qed

lemma serving_progress:
  assumes inv: "serving_inv v" and c: "ctxDone" and d: "distinct (call_ids v)" and n: "sv_serve v \<noteq> GrpcReturned"
  shows "\<exists>v'. serving_step ctxDone v v'"
proof (cases "sv_stop v")
  case StopWaiting
  from inv have g: "grpc_inv (sv_grpc v)" "finite (dom (gs_sidecars (sv_grpc v)))" by (simp_all add: serving_inv_def)
  from enumerates_ex [OF g(2)] obtain order where o1: "enumerates order (gs_sidecars (sv_grpc v))" by blast
  from shutdown_inv [OF g(1), of order] obtain g' where "gs_shutdown order (sv_grpc v) = Inr g'" by blast
  with StopWaiting c o1 show ?thesis by (blast intro: serving_step.StopBegins)
next
  case Stopping
  show ?thesis
  proof (cases "all_returned (sv_grpc v)")
    case True
    with Stopping show ?thesis by (blast intro: serving_step.StopEnds)
  next
    case False
    then have "gs_calls (sv_grpc v) \<noteq> []" by (auto simp: all_returned_def)
    with inv d Stopping have "draining (sv_grpc v)" "grpc_inv (sv_grpc v)" by (simp_all add: serving_inv_def call_ids_def)
    from call_progress [OF this(2,1) False] show ?thesis by (blast intro: serving_step.CallMoves)
  qed
next
  case StopDone
  with n show ?thesis by (cases "sv_serve v") (blast intro: serving_step.Ready serving_step.ServeEnds)+
qed

subsection \<open>The whole program\<close>

text \<open>
  The context of the components is cancelled with the root context (first signal) or by
  \<open>cancel\<close>, which the HTTPS goroutine calls when \<open>ServeTLS\<close> has returned. \<open>StartUp\<close> returns when
  its five goroutines have.
\<close>

record Controller =
  ct_root :: bool
  ct_cancel :: bool
  ct_stop :: preStopHandler
  ct_https :: Https
  ct_slices :: watch_pc
  ct_crd :: watch_pc
  ct_workers :: Workers
  ct_serving :: Serving
  ct_returned :: bool
  ct_exited :: bool

definition ctx_done :: "Controller \<Rightarrow> bool" where
  "ctx_done s \<longleftrightarrow> ct_root s \<or> ct_cancel s"

definition wg_done :: "Controller \<Rightarrow> bool" where
  "wg_done s \<longleftrightarrow> hx_serve (ct_https s) = HDone \<and> ct_slices s = WatchReturned \<and> ct_crd s = WatchReturned
     \<and> wr_run (ct_workers s) = RunReturned \<and> sv_serve (ct_serving s) = GrpcReturned"

inductive go_step :: "Controller \<Rightarrow> Controller \<Rightarrow> bool" where
  HttpsStep: "https_step (ctx_done s) (ps_closed (ct_stop s)) (ct_https s) h \<Longrightarrow> go_step s (s\<lparr>ct_https := h\<rparr>)"
| CancelAll: "hx_serve (ct_https s) = HReturned
    \<Longrightarrow> go_step s (s\<lparr>ct_https := (ct_https s)\<lparr>hx_serve := HDone\<rparr>, ct_cancel := True\<rparr>)"
| SlicesStep: "watch_step (ctx_done s) (ct_slices s) w \<Longrightarrow> go_step s (s\<lparr>ct_slices := w\<rparr>)"
| CrdStep: "watch_step (ctx_done s) (ct_crd s) w \<Longrightarrow> go_step s (s\<lparr>ct_crd := w\<rparr>)"
| WorkersStep: "workers_step (ctx_done s) (ct_workers s) w \<Longrightarrow> go_step s (s\<lparr>ct_workers := w\<rparr>)"
| ServingStep: "serving_step (ctx_done s) (ct_serving s) v \<Longrightarrow> go_step s (s\<lparr>ct_serving := v\<rparr>)"
| StartUpReturns: "wg_done s \<Longrightarrow> \<not> ct_returned s \<Longrightarrow> go_step s (s\<lparr>ct_returned := True\<rparr>)"

text \<open>
  From outside: signals, requests (the stop hook among them), results of the library's
  informers and timers, a failure of the HTTPS listener, subscriptions and published slices.
  The signal handler's state is whether the root context is cancelled and whether the process
  has been ended.
\<close>

inductive signal_step :: "bool \<times> bool \<Rightarrow> bool \<times> bool \<Rightarrow> bool" where
  FirstSignal: "signal_step (False, False) (True, False)"
| SecondSignal: "signal_step (True, False) (True, True)"

inductive_simps signal_step_simps: "signal_step (a, b) (c, d)"

inductive env_step :: "Controller \<Rightarrow> Controller \<Rightarrow> bool" where
  Signal: "signal_step (ct_root s, ct_exited s) (root, exited) \<Longrightarrow> env_step s (s\<lparr>ct_root := root, ct_exited := exited\<rparr>)"
| StopRequest: "hx_serve (ct_https s) = HServing \<Longrightarrow> preStop_ServeHTTP (ct_stop s) meth = Inr (p, code)
    \<Longrightarrow> env_step s (s\<lparr>ct_stop := p\<rparr>)"
| OtherRequest: "hx_serve (ct_https s) = HServing
    \<Longrightarrow> env_step s (s\<lparr>ct_https := (ct_https s)\<lparr>hx_requests := hx_requests (ct_https s) + 1\<rparr>\<rparr>)"
| ListenerFails: "hx_serve (ct_https s) = HServing
    \<Longrightarrow> env_step s (s\<lparr>ct_https := (ct_https s)\<lparr>hx_serve := HReturned\<rparr>\<rparr>)"
| SlicesSynced: "ct_slices s = Syncing \<Longrightarrow> env_step s (s\<lparr>ct_slices := WatchReturned\<rparr>)"
| CrdSynced: "ct_crd s = Syncing \<Longrightarrow> env_step s (s\<lparr>ct_crd := WatchReturned\<rparr>)"
| KeyAdded: "\<not> wr_shut (ct_workers s)
    \<Longrightarrow> env_step s (s\<lparr>ct_workers := (ct_workers s)\<lparr>wr_keys := wr_keys (ct_workers s) + 1\<rparr>\<rparr>)"
| Subscribed: "sv_serve (ct_serving s) = GrpcServing \<Longrightarrow> sv_stop (ct_serving s) = StopWaiting
    \<Longrightarrow> gs_Subscribe (sv_grpc (ct_serving s)) i svc = Inr (g, x)
    \<Longrightarrow> env_step s (s\<lparr>ct_serving := (ct_serving s)\<lparr>sv_grpc := g\<rparr>\<rparr>)"
| Published: "payload_ok obj \<Longrightarrow> gs_inform (sv_grpc (ct_serving s)) t op obj = Inr g
    \<Longrightarrow> env_step s (s\<lparr>ct_serving := (ct_serving s)\<lparr>sv_grpc := g\<rparr>\<rparr>)"

definition StartUp_init :: "(string \<Rightarrow> EndpointSlice option) \<Rightarrow> nat \<Rightarrow> Controller" where
  "StartUp_init lister concurrency = \<lparr>ct_root = False, ct_cancel = False, ct_stop = NewPreStopHandler False,
     ct_https = \<lparr>hx_serve = HServing, hx_closer = AwaitingStop, hx_requests = 0\<rparr>,
     ct_slices = Syncing, ct_crd = Syncing,
     ct_workers = \<lparr>wr_run = RunWaiting, wr_loops = replicate concurrency Getting, wr_keys = 0, wr_shut = False\<rparr>,
     ct_serving = \<lparr>sv_grpc = NewGrpcServer\<lparr>listFn := Some lister\<rparr>, sv_serve = GrpcStarting, sv_stop = StopWaiting\<rparr>,
     ct_returned = False, ct_exited = False\<rparr>"

definition ctl_next :: "Controller \<Rightarrow> Controller \<Rightarrow> bool" where
  "ctl_next s s' \<longleftrightarrow> \<not> ct_exited s \<and> \<not> ct_returned s \<and> (go_step s s' \<or> env_step s s')"

definition reachable :: "(string \<Rightarrow> EndpointSlice option) \<Rightarrow> nat \<Rightarrow> Controller \<Rightarrow> bool" where
  "reachable lister n s \<longleftrightarrow> ctl_next\<^sup>*\<^sup>* (StartUp_init lister n) s"

definition ctl_work :: "Controller \<Rightarrow> nat" where
  "ctl_work s = https_work (ct_https s) + watch_work (ct_slices s) + watch_work (ct_crd s)
     + workers_work (ct_workers s) + serving_work (ct_serving s) + (if ct_returned s then 0 else 1)"

lemma go_step_work: "go_step s s' \<Longrightarrow> ctl_work s' < ctl_work s"
proof (induction rule: go_step.induct)
  case (CancelAll s)
  then show ?case by (simp add: ctl_work_def https_work_def)
qed (simp_all add: ctl_work_def https_step_work watch_step_work workers_step_work serving_step_work)

definition ctl_inv :: "Controller \<Rightarrow> bool" where
  "ctl_inv s \<longleftrightarrow> (hx_serve (ct_https s) = HDone \<longrightarrow> ct_cancel s) \<and> preStop_inv (ct_stop s)
     \<and> workers_inv (ct_workers s) \<and> serving_inv (ct_serving s) \<and> (ct_returned s \<longrightarrow> wg_done s)"

lemma done_no_step:
  "\<not> watch_step c WatchReturned w"
  "wr_run w1 = RunReturned \<Longrightarrow> workers_inv w1 \<Longrightarrow> \<not> workers_step c w1 w2"
  "sv_serve v1 = GrpcReturned \<Longrightarrow> serving_inv v1 \<Longrightarrow> \<not> serving_step c v1 v2"
proof -
  show "\<not> watch_step c WatchReturned w" by (auto elim: watch_step.cases)
  show "\<not> workers_step c w1 w2" if "wr_run w1 = RunReturned" "workers_inv w1"
  proof
    assume "workers_step c w1 w2"
    then show False using that by cases (auto simp: workers_inv_def list_all_length)
  qed
  show "\<not> serving_step c v1 v2" if "sv_serve v1 = GrpcReturned" "serving_inv v1"
  proof
    assume "serving_step c v1 v2"
    then show False
    proof cases
      case (CallMoves g)
      from call_step_moves [OF CallMoves(2)] obtain t d where "moves (sv_grpc v1) t d g" by blast
      with that show False using all_returned_no_move by (auto simp: serving_inv_def)
    qed (use that in \<open>auto simp: serving_inv_def\<close>)
  qed
qed

lemma go_step_inv: "go_step s s' \<Longrightarrow> ctl_inv s \<Longrightarrow> ctl_inv s'"
proof (induction rule: go_step.induct)
  case (HttpsStep s h)
  from https_step_serve [OF HttpsStep(1)] https_step_done [OF HttpsStep(1)] HttpsStep(2) show ?case
    by (auto simp: ctl_inv_def wg_done_def)
next
  case (SlicesStep s w)
  with done_no_step(1) show ?case by (auto simp: ctl_inv_def wg_done_def)
next
  case (CrdStep s w)
  with done_no_step(1) show ?case by (auto simp: ctl_inv_def wg_done_def)
next
  case (WorkersStep s w)
  with done_no_step(2) workers_step_inv show ?case by (auto simp: ctl_inv_def wg_done_def)
next
  case (ServingStep s v)
  with done_no_step(3) serving_step_inv show ?case by (auto simp: ctl_inv_def wg_done_def)
qed (auto simp: ctl_inv_def wg_done_def)

lemma env_step_inv: "env_step s s' \<Longrightarrow> ctl_inv s \<Longrightarrow> ctl_inv s'"
proof (induction rule: env_step.induct)
  case (StopRequest s meth p code)
  then have "preStop_inv p" using pstop.inv_step [of "ct_stop s" meth] by (auto simp: ctl_inv_def)
  with StopRequest show ?case by (auto simp: ctl_inv_def wg_done_def)
next
  case (KeyAdded s)
  then show ?case by (auto simp: ctl_inv_def wg_done_def workers_inv_def)
next
  case (Subscribed s i svc g x)
  let ?g = "sv_grpc (ct_serving s)"
  have inv: "grpc_inv ?g" "registered ?g" "finite (dom (gs_sidecars ?g))" "\<not> ct_returned s"
    using Subscribed by (auto simp: ctl_inv_def serving_inv_def wg_done_def)
  have "grpc_inv g" using subscribe_inv [OF inv(1), of i svc] Subscribed(3) by auto
  moreover have "registered g" by (rule subscribe_registered [OF inv(1,2) Subscribed(3)])
  moreover have "gs_sidecars g = gs_sidecars ?g" using subscribe_calls [OF Subscribed(3)] by auto
  ultimately show ?case using Subscribed inv by (auto simp: ctl_inv_def serving_inv_def wg_done_def)
next
  case (Published obj s t op g)
  let ?g = "sv_grpc (ct_serving s)"
  have inv: "grpc_inv ?g" "registered ?g" using Published by (auto simp: ctl_inv_def serving_inv_def)
  note same = inform_calls [OF Published(2)]
  have ids: "map sub_id (gs_calls g) = map sub_id (gs_calls ?g)" using same by (auto intro: nth_equalityI)
  have "grpc_inv g" using inform_inv [OF inv(1) Published(1), of t op] Published(2) by auto
  moreover have "registered g" by (rule same_shape_registered [OF inv(2)]) (use same in auto)
  moreover have "draining ?g \<Longrightarrow> draining g" "all_returned ?g \<Longrightarrow> all_returned g" "gs_calls ?g = [] \<Longrightarrow> gs_calls g = []"
    using same by (auto simp: draining_def all_returned_def all_set_conv_all_nth)
  ultimately show ?case using Published(3) same ids by (auto simp: ctl_inv_def serving_inv_def wg_done_def)
qed (auto simp: ctl_inv_def wg_done_def signal_step_simps)

lemma init_inv:
  assumes "\<And>svc es. lister svc = Some es \<Longrightarrow> targets_set es"
  shows "ctl_inv (StartUp_init lister n)"
  using assms by (auto simp: ctl_inv_def StartUp_init_def preStop_inv_def NewPreStopHandler_def workers_inv_def
      serving_inv_def grpc_inv_def NewGrpcServer_def registered_def)

lemma reachable_inv:
  assumes "\<And>svc es. lister svc = Some es \<Longrightarrow> targets_set es"
  shows "reachable lister n s \<Longrightarrow> ctl_inv s"
  unfolding reachable_def
proof (induction rule: rtranclp_induct)
  case base
  show ?case by (rule init_inv [OF assms])
next
  case (step s s')
  then show ?case using go_step_inv env_step_inv by (auto simp: ctl_next_def)
qed

text \<open>A request to stop is not taken back, and the goroutines' steps leave the calls' ids.\<close>

definition stop_requested :: "Controller \<Rightarrow> bool" where
  "stop_requested s \<longleftrightarrow> ctx_done s \<or> ps_closed (ct_stop s)"

lemma go_step_keeps:
  "go_step s s' \<Longrightarrow> ctl_inv s \<Longrightarrow>
     (stop_requested s \<longrightarrow> stop_requested s') \<and> call_ids (ct_serving s') = call_ids (ct_serving s)"
proof (induction rule: go_step.induct)
  case (ServingStep s v)
  then have "serving_inv (ct_serving s)" by (simp add: ctl_inv_def)
  from serving_step_ids [OF ServingStep(1) this] show ?case by (simp add: stop_requested_def ctx_done_def)
qed (auto simp: stop_requested_def ctx_done_def)

lemma env_step_stop: "env_step s s' \<Longrightarrow> ctl_inv s \<Longrightarrow> stop_requested s \<Longrightarrow> stop_requested s'"
proof (induction rule: env_step.induct)
  case (StopRequest s meth p code)
  then show ?case by (auto simp: stop_requested_def ctx_done_def preStop_ServeHTTP_def split: if_splits)
qed (auto simp: stop_requested_def ctx_done_def signal_step_simps)

text \<open>Progress: whatever a stopping controller waits for, some goroutine can move.\<close>

lemma ctl_progress:
  assumes inv: "ctl_inv s" and stop: "stop_requested s" and d: "distinct (call_ids (ct_serving s))" and n: "\<not> ct_returned s"
  shows "\<exists>s'. go_step s s'"
proof (cases "hx_serve (ct_https s)")
  case HServing
  with https_progress [of "ctx_done s" "ps_closed (ct_stop s)" "ct_https s"] stop show ?thesis
    by (auto simp: stop_requested_def intro: go_step.HttpsStep)
next
  case HReturned
  then show ?thesis by (blast intro: go_step.CancelAll)
next
  case HDone
  with inv have c: "ctx_done s" by (simp add: ctl_inv_def ctx_done_def)
  have w: "workers_inv (ct_workers s)" "serving_inv (ct_serving s)" using inv by (simp_all add: ctl_inv_def)
  show ?thesis
  proof (cases "wg_done s")
    case True
    with n show ?thesis by (blast intro: go_step.StartUpReturns)
  next
    case False
    with HDone consider "ct_slices s = Syncing" | "ct_crd s = Syncing" | "wr_run (ct_workers s) \<noteq> RunReturned"
      | "sv_serve (ct_serving s) \<noteq> GrpcReturned"
      by (cases "ct_slices s"; cases "ct_crd s") (auto simp: wg_done_def)
    then show ?thesis
    proof cases
      case 1
      then show ?thesis using c watch_step.WatchCancelled go_step.SlicesStep by metis
    next
      case 2
      then show ?thesis using c watch_step.WatchCancelled go_step.CrdStep by metis
    next
      case 3
      with workers_progress [OF w(1) c] go_step.WorkersStep c show ?thesis by blast
    next
      case 4
      with serving_progress [OF w(2) c d] go_step.ServingStep c show ?thesis by blast
    qed
  qed
qed

lemma go_steps_keep:
  assumes "go_step\<^sup>*\<^sup>* s s'" "ctl_inv s"
  shows "ctl_inv s' \<and> (stop_requested s \<longrightarrow> stop_requested s') \<and> call_ids (ct_serving s') = call_ids (ct_serving s)"
  using assms
proof (induction rule: rtranclp_induct)
  case (step t u)
  with go_step_keeps [of t u] go_step_inv [of t u] show ?case by simp
qed simp

end
