(* ===== verification/Controller_Properties.thy ===== *)
theory Controller_Properties
  imports Controller
begin

section \<open>Properties of the controller's life\<close>

text \<open>
  Once a stop is requested, the controller comes to its end in a bounded number of steps of
  its goroutines; what has been done by then, and what has not.
\<close>



















end
