(* ===== verification/Sidecar_Main.thy ===== *)
theory Sidecar_Main
  imports Flags Stg_Server Proxy_Relay Tools
begin

section \<open>The sidecar program\<close>

text \<open>
  \<open>cmd/cli/cli.go\<close>, with the parts of \<open>rpcclient/client.go\<close>, \<open>proxy/server.go\<close> and
  \<open>stgsvr/server.go\<close> it calls. The command makes the client and connects it, makes the proxy, and
  starts two goroutines: the proxy's, which listens and accepts, and the subscription API's,
  which listens and serves. The command returns when both have. Their context is the
  background context, which is never cancelled, so the goroutines that wait for it to close
  the listeners never go on.
\<close>

subsection \<open>The client\<close>

record MeshClient =
  mc_id :: string
  mc_remote :: string
  mc_serviceCache :: ServiceCache
  mc_connected :: bool

definition NewMeshClient :: "ServiceCache \<Rightarrow> rpcclient_Options \<Rightarrow> MeshClient" where
  "NewMeshClient serviceCache opts =
     \<lparr>mc_id = rc_uid opts, mc_remote = rc_remote opts, mc_serviceCache = serviceCache, mc_connected = False\<rparr>"

text \<open>\<open>grpc.NewClient\<close> answers with an error or a connection, which is made later.\<close>

definition mesh_Connect :: "(string \<Rightarrow> string option) \<Rightarrow> MeshClient \<Rightarrow> MeshClient go" where
  "mesh_Connect newClient c =
     (case newClient (mc_remote c) of
        Some err \<Rightarrow> Inl (PanicWith err)
      | None \<Rightarrow> Inr (c\<lparr>mc_connected := True\<rparr>))"

text \<open>The client of an address; nothing calls it.\<close>

definition NewRpcClient :: "(string \<Rightarrow> string option) \<Rightarrow> string \<Rightarrow> string go" where
  "NewRpcClient newClient remote =
     (case newClient remote of Some err \<Rightarrow> Inl (PanicWith err) | None \<Rightarrow> Inr remote)"

subsection \<open>The goroutines\<close>

datatype server_pc = BeforeListen | Listening | RunEnded "string option"

datatype main_pc = WaitingForBoth | MainReturned | Fatal string

record sidecar_program =
  sp_client :: MeshClient
  sp_proxy :: server_pc
  sp_stg :: server_pc
  sp_bound :: "string list"
  sp_main :: main_pc

text \<open>\<open>rootContext\<close> is \<open>context.Background()\<close>, whose \<open>Err\<close> is always nil.\<close>

definition background_Err :: bool where
  "background_Err = False"

text \<open>
  The body of the command up to the goroutines. \<open>klog.Fatalf\<close> ends the process.
\<close>

definition sidecar_start ::
  "(string \<Rightarrow> string option) \<Rightarrow> (string \<Rightarrow> string + Config) \<Rightarrow> cli_Options \<Rightarrow> sidecar_program go" where
  "sidecar_start newClient load opts =
     (let svcCache = NewServiceCache; meshClient = NewMeshClient svcCache (rpcClientOptions opts) in
      go_bind (mesh_Connect newClient meshClient) (\<lambda>client.
        Inr \<lparr>sp_client = client, sp_proxy = BeforeListen, sp_stg = BeforeListen, sp_bound = [],
          sp_main = (case NewProxy load svcCache (proxyOptions opts) of
              Inl err \<Rightarrow> Fatal (''failed to create proxy server: '' @ err)
            | Inr proxyServer \<Rightarrow> WaitingForBoth)\<rparr>))"

text \<open>
  \<open>listen bound address\<close>: the result of \<open>net.Listen\<close> when this process listens on \<open>bound\<close>.
\<close>

type_synonym listen_fn = "string list \<Rightarrow> string \<Rightarrow> string option"

definition sp_NewListenerOrDie :: "listen_fn \<Rightarrow> sidecar_program \<Rightarrow> string \<Rightarrow> sidecar_program go" where
  "sp_NewListenerOrDie listen s address =
     go_bind (NewListenerOrDie (\<lambda>network a. case listen (sp_bound s) a of Some err \<Rightarrow> Inl err | None \<Rightarrow> Inr ()) ''tcp'' address)
       (\<lambda>u. Inr (s\<lparr>sp_bound := address # sp_bound s\<rparr>))"

text \<open>\<open>Proxy.Run\<close>: listen, then one round of the accept loop at a time.\<close>

definition proxy_Run :: "listen_fn \<Rightarrow> cli_Options \<Rightarrow> sidecar_program \<Rightarrow> (string + nat) \<Rightarrow> sidecar_program go" where
  "proxy_Run listen opts s accepted =
     (case sp_proxy s of
        BeforeListen \<Rightarrow>
          go_bind (sp_NewListenerOrDie listen s (listenAddress (proxyOptions opts))) (\<lambda>s'. Inr (s'\<lparr>sp_proxy := Listening\<rparr>))
      | Listening \<Rightarrow>
          (let (conns, returned) = Listen [(accepted, background_Err)]
           in Inr (if returned then s\<lparr>sp_proxy := RunEnded None\<rparr> else s))
      | RunEnded err \<Rightarrow> Inr s)"

text \<open>\<open>Server.Run\<close>: listen, attach the handlers, serve until the engine reports an error.\<close>

definition stgsvr_Run :: "listen_fn \<Rightarrow> cli_Options \<Rightarrow> sidecar_program \<Rightarrow> string option \<Rightarrow> sidecar_program go" where
  "stgsvr_Run listen opts s engineErr =
     (case sp_stg s of
        BeforeListen \<Rightarrow>
          go_bind (sp_NewListenerOrDie listen s (stgSvrAddress (stgSvrOptions opts))) (\<lambda>s'. Inr (s'\<lparr>sp_stg := Listening\<rparr>))
      | Listening \<Rightarrow>
          Inr (case engineErr of None \<Rightarrow> s | Some err \<Rightarrow> s\<lparr>sp_stg := RunEnded (Some err)\<rparr>)
      | RunEnded err \<Rightarrow> Inr s)"

text \<open>\<open>wg.Wait\<close>.\<close>

definition main_Wait :: "sidecar_program \<Rightarrow> sidecar_program" where
  "main_Wait s =
     (case (sp_proxy s, sp_stg s) of
        (RunEnded e1, RunEnded e2) \<Rightarrow> s\<lparr>sp_main := MainReturned\<rparr>
      | _ \<Rightarrow> s)"

datatype sidecar_op = ProxyGoes "string + nat" | StgGoes "string option" | MainGoes

fun sidecar_step :: "listen_fn \<Rightarrow> cli_Options \<Rightarrow> sidecar_program \<Rightarrow> sidecar_op \<Rightarrow> (sidecar_program \<times> unit) go" where
  "sidecar_step listen opts s (ProxyGoes r) =
     (if sp_main s = WaitingForBoth then go_bind (proxy_Run listen opts s r) (\<lambda>s'. Inr (s', ())) else Inr (s, ()))"
| "sidecar_step listen opts s (StgGoes e) =
     (if sp_main s = WaitingForBoth then go_bind (stgsvr_Run listen opts s e) (\<lambda>s'. Inr (s', ())) else Inr (s, ()))"
| "sidecar_step listen opts s MainGoes =
     Inr (if sp_main s = WaitingForBoth then main_Wait s else s, ())"

subsection \<open>Invariant\<close>

text \<open>
  Every server that has got past \<open>net.Listen\<close> holds its address, and the proxy never ends.
\<close>

definition sidecar_inv :: "cli_Options \<Rightarrow> sidecar_program \<Rightarrow> bool" where
  "sidecar_inv opts s \<longleftrightarrow>
     (sp_proxy s = BeforeListen \<or> sp_proxy s = Listening) \<and> sp_main s \<noteq> MainReturned
   \<and> (sp_proxy s \<noteq> BeforeListen \<longrightarrow> listenAddress (proxyOptions opts) \<in> set (sp_bound s))
   \<and> (sp_stg s \<noteq> BeforeListen \<longrightarrow> stgSvrAddress (stgSvrOptions opts) \<in> set (sp_bound s))"

lemma sidecar_start_inv: "sidecar_start newClient load opts = Inr s \<Longrightarrow> sidecar_inv opts s"
  by (auto simp: sidecar_start_def sidecar_inv_def go_bind_Inr_iff Let_def split: sum.splits)

lemma listen_die_iff:
  "sp_NewListenerOrDie listen s address = Inr s' \<longleftrightarrow> listen (sp_bound s) address = None \<and> s' = s\<lparr>sp_bound := address # sp_bound s\<rparr>"
  by (auto simp: sp_NewListenerOrDie_def NewListenerOrDie_def go_bind_Inr_iff or_die_def split: option.splits sum.splits)

lemma sidecar_step_inv:
  assumes "sidecar_inv opts s" "sidecar_step listen opts s e = Inr (s', u)"
  shows "sidecar_inv opts s'"
proof (cases e)
  case (ProxyGoes r)
  with assms show ?thesis
    by (cases "sp_proxy s"; cases r)
      (auto simp: sidecar_inv_def proxy_Run_def background_Err_def go_bind_Inr_iff listen_die_iff Let_def split: if_splits)
next
  case (StgGoes err)
  with assms show ?thesis
    by (cases "sp_stg s"; cases err)
      (auto simp: sidecar_inv_def stgsvr_Run_def go_bind_Inr_iff listen_die_iff split: if_splits)
next
  case MainGoes
  with assms show ?thesis
    by (auto simp: sidecar_inv_def main_Wait_def split: server_pc.splits if_splits)
qed

lemma sidecar_run_inv:
  "sidecar_inv opts s \<Longrightarrow> go_run (sidecar_step listen opts) s es = Inr (s', ys) \<Longrightarrow> sidecar_inv opts s'"
proof (induction es arbitrary: s ys)
  case (Cons e es)
  from Cons.prems(2) obtain s1 u zs where "sidecar_step listen opts s e = Inr (s1, u)"
    "go_run (sidecar_step listen opts) s1 es = Inr (s', zs)" by (rule go_run_ConsE)
  with Cons.IH sidecar_step_inv [OF Cons.prems(1)] show ?case by blast
qed simp

text \<open>A server that has gone has got past \<open>net.Listen\<close>.\<close>

lemma sidecar_run_gone:
  "sidecar_inv opts s \<Longrightarrow> sp_main s = WaitingForBoth \<Longrightarrow> go_run (sidecar_step listen opts) s es = Inr (s', ys) \<Longrightarrow>
     sp_main s' = WaitingForBoth
     \<and> ((\<exists>r. ProxyGoes r \<in> set es) \<or> sp_proxy s \<noteq> BeforeListen \<longrightarrow> sp_proxy s' \<noteq> BeforeListen)
     \<and> ((\<exists>r. StgGoes r \<in> set es) \<or> sp_stg s \<noteq> BeforeListen \<longrightarrow> sp_stg s' \<noteq> BeforeListen)"
proof (induction es arbitrary: s ys)
  case (Cons e es)
  from Cons.prems(3) obtain s1 u zs where
    s1: "sidecar_step listen opts s e = Inr (s1, u)" "go_run (sidecar_step listen opts) s1 es = Inr (s', zs)"
    by (rule go_run_ConsE)
  note inv1 = sidecar_step_inv [OF Cons.prems(1) s1(1)]
  have main: "sp_main s1 = WaitingForBoth"
    using Cons.prems(1,2) s1(1) by (cases e)
      (auto simp: sidecar_inv_def proxy_Run_def stgsvr_Run_def main_Wait_def go_bind_Inr_iff listen_die_iff Let_def
        split: server_pc.splits prod.splits option.splits if_splits)
  have "((\<exists>r. e = ProxyGoes r) \<or> sp_proxy s \<noteq> BeforeListen \<longrightarrow> sp_proxy s1 \<noteq> BeforeListen)
     \<and> ((\<exists>r. e = StgGoes r) \<or> sp_stg s \<noteq> BeforeListen \<longrightarrow> sp_stg s1 \<noteq> BeforeListen)"
    using Cons.prems(2) s1(1) by (cases e)
      (auto simp: proxy_Run_def stgsvr_Run_def main_Wait_def go_bind_Inr_iff listen_die_iff Let_def
        split: server_pc.splits prod.splits option.splits if_splits)
  with Cons.IH [OF inv1 main s1(2)] show ?case by auto
qed simp

text \<open>The address of one server is not free for the other.\<close>

lemma one_address:
  assumes "sidecar_inv opts s" "sidecar_step listen opts s e = Inr (s', u)"
    and "\<forall>bound. a \<in> set bound \<longrightarrow> listen bound a \<noteq> None"
    and "listenAddress (proxyOptions opts) = a" "stgSvrAddress (stgSvrOptions opts) = a"
    and "sp_proxy s = BeforeListen \<or> sp_stg s = BeforeListen"
  shows "sp_proxy s' = BeforeListen \<or> sp_stg s' = BeforeListen"
proof (cases e)
  case (ProxyGoes r)
  with assms show ?thesis
    by (cases "sp_proxy s"; cases r)
      (auto simp: sidecar_inv_def proxy_Run_def background_Err_def go_bind_Inr_iff listen_die_iff Let_def split: if_splits)
next
  case (StgGoes err)
  with assms show ?thesis
    by (cases "sp_stg s"; cases err)
      (auto simp: sidecar_inv_def stgsvr_Run_def go_bind_Inr_iff listen_die_iff split: if_splits)
next
  case MainGoes
  with assms show ?thesis by (auto simp: main_Wait_def split: server_pc.splits if_splits)
qed

lemma one_address_run:
  assumes "\<forall>bound. a \<in> set bound \<longrightarrow> listen bound a \<noteq> None"
    and "listenAddress (proxyOptions opts) = a" "stgSvrAddress (stgSvrOptions opts) = a"
  shows "sidecar_inv opts s \<Longrightarrow> go_run (sidecar_step listen opts) s es = Inr (s', ys) \<Longrightarrow>
    sp_proxy s = BeforeListen \<or> sp_stg s = BeforeListen \<Longrightarrow> sp_proxy s' = BeforeListen \<or> sp_stg s' = BeforeListen"
proof (induction es arbitrary: s ys)
  case (Cons e es)
  from Cons.prems(2) obtain s1 u zs where
    s1: "sidecar_step listen opts s e = Inr (s1, u)" "go_run (sidecar_step listen opts) s1 es = Inr (s', zs)"
    by (rule go_run_ConsE)
  from Cons.IH [OF sidecar_step_inv [OF Cons.prems(1) s1(1)] s1(2) one_address [OF Cons.prems(1) s1(1) assms Cons.prems(3)]]
  show ?case .
qed simp

text \<open>The defaults that the flags leave in the options, for any flag set that admits them.\<close>

lemma default_addresses:
  assumes "cli_NewCommand reg fs = Inr (opts, fs')"
  shows "listenAddress (proxyOptions opts) = '':8081''" "stgSvrAddress (stgSvrOptions opts) = '':8081''"
  using assms
  by (auto simp: cli_NewCommand_def cli_AddFlags_def stgsvr_AddFlags_def breaker_AddFlags_def proxy_AddFlags_def rpcclient_AddFlags_def
      cli_NewOptions_def proxy_NewOptions_def go_bind_Inr_iff)

end
