(* ===== verification/Sidecar_Properties.thy ===== *)
theory Sidecar_Properties
  imports Sidecar_Main
begin

section \<open>Properties of the sidecar program\<close>






end
