(* ===== verification/Spec2Isabelle.thy ===== *)
theory Spec2Isabelle
  imports Breaker_Properties Ctl_Properties Sync_Properties Slice_Properties Proxy_Properties Mesh_Properties
    Hook_Properties Controller_Properties Sidecar_Properties
begin

text \<open>
  A model of masha-mesh and the theorems about it.

  The program. Two Go programs form a small service mesh on Kubernetes. The controller
  (\<open>cmd/ctrl\<close>, \<open>internal/ctrl\<close>) watches a custom resource that describes a container and keeps
  the deployments and stateful sets that carry a label in step with it; its admission webhook
  injects the container into new pods; and it watches endpoint slices, merges them per service
  and streams them to subscribed sidecars over gRPC. The sidecar program (\<open>cmd/cli\<close>,
  \<open>internal/cli\<close>) keeps the endpoints of the services it has subscribed to, and proxies the
  pod's connections: an HTTP request to a configured service is sent to the endpoints one after
  the other, guarded by a circuit breaker per endpoint; any other connection is relayed to its
  original destination. \<open>pkg\<close> holds the cache and the ring buffers both use.

  How Go is read. A component's state is a record or a map, each method one function on it.
  A panic is the left side of a sum (\<open>go\<close> in Prelude), a nil pointer is \<open>None\<close>, an error is the
  left side of a sum or \<open>Some\<close> of its text. Clock readings, results of system and network calls
  and the order in which a map is iterated are arguments. A method that holds a mutex for its
  whole body is one step; where goroutines interleave between locks, the steps are cut at the
  locks. Integers have the width that matters: counters are 64-bit words, \<open>int\<close> arithmetic that
  may wrap goes through \<open>i64\<close>, the failure rate is a rounded \<open>float64\<close>. Library code (the
  Kubernetes client and its queue, gRPC streams, JSON and YAML decoding, the flag set, the HTTP
  client) is a parameter, and what the program relies on is a named hypothesis
  (\<open>kube_contract\<close>, \<open>kube_atomic\<close>, \<open>queue_contract\<close>, \<open>pending_contract\<close>, \<open>flag_contract\<close>); the Go standard library functions that
  the code's decisions depend on are defined in Net_Addr and beside their users.

  Theories, and the files they model (under \<open>src\<close>):

    Prelude: the Go run time, runs of operation sequences, the contracts \<open>go_machine\<close> (an
      invariant excludes every panic) and \<open>go_refinement\<close> (the outputs are those of an abstract
      machine), work measures, enumerations of maps.
    Bounded_Fifo, Circular_Queue, Circular_Queue_AI: \<open>pkg/datastruct/queue\<close>, both ring
      buffers against one bounded list.
    Counter, SubBreaker, SubBreaker_Traces, Breaker, Go_Float: \<open>internal/cli/breaker\<close>. The
      abstract breaker is a tagged mode with a sliding window of slices.
    General_Cache, Ctl_Types, Containers, Event_Key, Kube_Api, CRD_Worker, CRD_Worker_Facts,
      CRD_Reconciler, CRD_Machine, CRD_Steps, CRD_Convergence: \<open>pkg/cache\<close>,
      \<open>internal/resources/container.go\<close>, \<open>internal/ctrl/worker\<close>,
      \<open>internal/ctrl/reconciler/container_*.go\<close>. CRD_Steps cuts the worker's goroutine where the
      informer's can come between (and shows that uncut it is \<open>wk_round\<close>); CRD_Convergence runs
      handlers and worker steps against a queue that keeps what it is given and an API server
      whose calls may fail, with the invariants that lead to the desired state.
    Resource_Caches, Sidecar, Grpc_Server, Grpc_Drain, Slice_Reconciler, Rpc_Client:
      \<open>internal/resources/*_cache.go\<close>, \<open>internal/ctrl/utils/sidecar.go\<close>,
      \<open>internal/ctrl/grpcserver\<close>, \<open>internal/ctrl/reconciler/endpointslice_reconciler.go\<close>,
      \<open>internal/cli/rpcclient\<close>. The interfaces \<open>Cache\<close> and \<open>Distributer\<close> are locales,
      interpreted on the two caches and on the gRPC server.
    Net_Addr, Proxy_Transport, Proxy_Requests, Proxy_Listener, Proxy_Relay, Http_Conn,
      Stg_Server, Client_Runs, Sidecar_Plane: \<open>internal/cli/proxy\<close>, \<open>internal/cli/proxyconfig\<close>, \<open>internal/cli/stgsvr\<close>.
      Proxy_Requests interleaves the load-balanced requests of all connections on their breaker;
      Client_Runs interleaves the requests of the subscription API with each other and with the
      goroutines of the subscriptions (an unsubscription is one step there); Sidecar_Plane puts
      both together over the cache they share.
    Tools, Sidecar_Main: \<open>pkg/utils\<close>, \<open>pkg/metrics\<close>, \<open>cmd/cli\<close>: what the sidecar program makes and
      its goroutines.
    Hooks, Ctl_Server, Flags, Controller: \<open>internal/ctrl/hooks\<close>, \<open>httpsvr.go\<close>, \<open>shutdown.go\<close>,
      \<open>startup.go\<close>, \<open>informers.go\<close>, the options of both programs, \<open>cmd/ctrl/app\<close>. The
      goroutines of the running controller are step relations composed into one.

  The properties are in the theories whose names end in \<open>_Properties\<close>, each with a witness:

    Breaker_Properties: the counter refines a window that keeps its
      oldest slices; the breaker refines its abstract machine, its edges, its quota of probes,
      recovery and rejection; circuits of different keys are independent.
    Sync_Properties: after an update or a deletion, through failures and other events, the
      cluster comes into step with the cache; the keys in the queue are well typed.
    Ctl_Properties: a cache is a family of cells; event keys are parsed back; a reconcile stores
      what it should, attempts every workload, and is retried a bounded number of times; the
      older reconciler leaves what the worker leaves; no interleaving panics.
    Mesh_Properties: a slice that the informer reports reaches, through every component of both
      programs, the request the proxy sends.
    Slice_Properties: what full buffers, repeated ids and deletions do; the server's invariant
      and its shutdown.
    Proxy_Properties: which endpoints a request tries, what the breaker keeps from any number of
      concurrent requests and what it makes of late results, how hosts,
      errors and protocols are classified; an HTTP connection is closed while it is served; the
      relay keeps the bytes; what an unsubscription leaves behind, for the subscription API and for the
      traffic.
    Hook_Properties: the webhook over the cache the callbacks build; the shutdown command against
      the running server's routes; the flags; what the readiness probe answers, and what a ready
      server does with a subscription.
    Controller_Properties: a stop request ends the controller, and what is done by then.
    Sidecar_Properties: whether the sidecar's two servers can run, and that it does not return.

  Where a proof shows that the code does not do what its comments or its design say, the
  property states what it does.

  The convergence properties (Sync_Properties) take the retries as unlimited, which is the
  default of the flag, and the worker as the only writer of the workloads' containers; a
  failed update may have been carried out (\<open>kube_atomic\<close>). The cache is keyed by the container's
  name without its namespace, as the design documents: they are about one namespace.

  Bounds and fuel. \<open>wk_runWorker\<close> takes a number that bounds the keys it processes; \<open>None\<close> means
  that more would be taken, and \<open>runWorker_total\<close> shows that no bound makes it panic. The
  controller's liveness needs no fuel: \<open>ctl_work\<close> counts what is left to do, and every step
  of a goroutine reduces it. The custom resource worker empties its queue within \<open>work_left\<close>
  steps, four for a waiting key. The relay's copies end after as many rounds as bytes are
  left, and one more.

  An HTTP connection is served by the goroutine of the library's server and the goroutine that
  accepts; both are steps of Http_Conn, and the server's read time-out is a result of a read.
  The server's gauge of connected sidecars is a field of its record.

  Not modelled: generated protocol code, TLS, the inside of the library's HTTP server and reverse
  proxy (header rewriting, the copying of bodies, keep-alive limits), the goroutines inside the
  library's informers, and the server used for tests by hand (\<open>tests/server\<close>). The steps of the
  controller assume that no callback of an informer runs
  after the queue is shut down.
\<close>

end
